(* ===== verification/Prelude.thy ===== *)
theory Prelude
  imports
    Main
    "HOL-Library.AList"
    "HOL-Library.Word"
    "HOL-Library.Char_ord"
    "HOL-Library.List_Lexorder"
    "HOL-Library.Product_Lexorder"
begin

text \<open>
  The vocabulary the component theories share: fixed-width integers, hash maps,
  and the parts of the Rust standard library on strings, integers and iterators
  the code uses.  A \<open>String\<close> or a \<open>[u8]\<close> is the list of its bytes (HOL's \<open>char\<close>
  is an 8-bit byte); a \<open>HashMap\<close> is an association list with distinct keys
  whose order stands for the unspecified iteration order.
\<close>

named_theorems hm_simps \<open>lookup after update or delete in a hash map\<close>
named_theorems text_simps \<open>splitting and parsing of text\<close>

type_synonym u8 = "8 word"
type_synonym u16 = "16 word"
type_synonym u32 = "32 word"
type_synonym u64 = "64 word"
type_synonym bytes = "char list"
type_synonym ('k, 'v) hashmap = "('k \<times> 'v) list"


section \<open>Definitions\<close>

subsection \<open>Hash maps\<close>

abbreviation hm_get :: "('k, 'v) hashmap \<Rightarrow> 'k \<Rightarrow> 'v option" where
  "hm_get m k \<equiv> map_of m k"

abbreviation hm_insert :: "'k \<Rightarrow> 'v \<Rightarrow> ('k, 'v) hashmap \<Rightarrow> ('k, 'v) hashmap" where
  "hm_insert k v m \<equiv> AList.update k v m"

abbreviation hm_remove :: "'k \<Rightarrow> ('k, 'v) hashmap \<Rightarrow> ('k, 'v) hashmap" where
  "hm_remove k m \<equiv> AList.delete k m"

definition hm_or_insert :: "'k \<Rightarrow> 'v \<Rightarrow> ('k, 'v) hashmap \<Rightarrow> ('k, 'v) hashmap" where
  "hm_or_insert k v m = (if hm_get m k = None then hm_insert k v m else m)"

definition hm_get_or :: "('k, 'v) hashmap \<Rightarrow> 'k \<Rightarrow> 'v \<Rightarrow> 'v" where
  "hm_get_or m k d = (case hm_get m k of None \<Rightarrow> d | Some v \<Rightarrow> v)"

definition hm_wf :: "('k, 'v) hashmap \<Rightarrow> bool" where
  "hm_wf m \<longleftrightarrow> distinct (map fst m)"

subsection \<open>Results\<close>

text \<open>\<open>Result<T, E>\<close> is \<open>'e + 't\<close>; \<open>and_then\<close> is the question mark operator.\<close>

fun and_then :: "'e + 'a \<Rightarrow> ('a \<Rightarrow> 'e + 'b) \<Rightarrow> 'e + 'b" where
  "and_then (Inl e) f = Inl e"
| "and_then (Inr x) f = f x"

fun ok_or :: "'a option \<Rightarrow> 'e \<Rightarrow> 'e + 'a" where
  "ok_or None e = Inl e"
| "ok_or (Some x) e = Inr x"

fun map_err :: "('e \<Rightarrow> 'f) \<Rightarrow> 'e + 'a \<Rightarrow> 'f + 'a" where
  "map_err g (Inl e) = Inl (g e)"
| "map_err g (Inr x) = Inr x"

fun collect_results :: "('e + 'a) list \<Rightarrow> 'e + 'a list" where
  "collect_results [] = Inr []"
| "collect_results (r # rs) = and_then r (\<lambda>x. and_then (collect_results rs) (\<lambda>xs. Inr (x # xs)))"

subsection \<open>Integers\<close>

definition saturating_sub :: "'a::len word \<Rightarrow> 'a word \<Rightarrow> 'a word" where
  "saturating_sub a b = (if a \<le> b then 0 else a - b)"

fun be_bytes :: "nat \<Rightarrow> nat \<Rightarrow> bytes" where
  "be_bytes 0 v = []"
| "be_bytes (Suc k) v = char_of (v div 256 ^ k) # be_bytes k v"

definition from_be_bytes :: "bytes \<Rightarrow> nat" where
  "from_be_bytes bs = foldl (\<lambda>a b. a * 256 + of_char b) 0 bs"

subsection \<open>Text\<close>

fun split_once :: "char \<Rightarrow> string \<Rightarrow> (string \<times> string) option" where
  "split_once c [] = None"
| "split_once c (x # xs) =
    (if x = c then Some ([], xs) else map_option (\<lambda>(a, b). (x # a, b)) (split_once c xs))"

definition rsplit_once :: "char \<Rightarrow> string \<Rightarrow> (string \<times> string) option" where
  "rsplit_once c s = map_option (\<lambda>(a, b). (rev b, rev a)) (split_once c (rev s))"

definition strip_prefix :: "string \<Rightarrow> string \<Rightarrow> string option" where
  "strip_prefix p s = (if take (length p) s = p then Some (drop (length p) s) else None)"

definition starts_with :: "string \<Rightarrow> string \<Rightarrow> bool" where
  "starts_with p s \<longleftrightarrow> take (length p) s = p"

fun str_contains :: "string \<Rightarrow> string \<Rightarrow> bool" where
  "str_contains p [] \<longleftrightarrow> p = []"
| "str_contains p (x # xs) \<longleftrightarrow> starts_with p (x # xs) \<or> str_contains p xs"

fun join :: "string \<Rightarrow> string list \<Rightarrow> string" where
  "join sep [] = []"
| "join sep [x] = x"
| "join sep (x # y # ys) = x @ sep @ join sep (y # ys)"

definition is_whitespace :: "char \<Rightarrow> bool" where
  "is_whitespace c \<longleftrightarrow> c = CHR '' '' \<or> (CHR 0x09 \<le> c \<and> c \<le> CHR 0x0D)"

fun tokens :: "string \<Rightarrow> string \<Rightarrow> string list" where
  "tokens cur [] = (if cur = [] then [] else [cur])"
| "tokens cur (c # cs) =
    (if is_whitespace c then (if cur = [] then tokens [] cs else cur # tokens [] cs)
     else tokens (cur @ [c]) cs)"

definition split_whitespace :: "string \<Rightarrow> string list" where
  "split_whitespace s = tokens [] s"

definition is_ascii_digit :: "char \<Rightarrow> bool" where
  "is_ascii_digit c \<longleftrightarrow> CHR ''0'' \<le> c \<and> c \<le> CHR ''9''"

definition is_ascii_lowercase :: "char \<Rightarrow> bool" where
  "is_ascii_lowercase c \<longleftrightarrow> CHR ''a'' \<le> c \<and> c \<le> CHR ''z''"

definition is_ascii_uppercase :: "char \<Rightarrow> bool" where
  "is_ascii_uppercase c \<longleftrightarrow> CHR ''A'' \<le> c \<and> c \<le> CHR ''Z''"

definition is_ascii_alphanumeric :: "char \<Rightarrow> bool" where
  "is_ascii_alphanumeric c \<longleftrightarrow> is_ascii_digit c \<or> is_ascii_lowercase c \<or> is_ascii_uppercase c"

definition to_digit :: "nat \<Rightarrow> char \<Rightarrow> nat option" where
  "to_digit radix c =
    (let n = of_char c :: nat;
         d = (if is_ascii_digit c then n - 48
              else if is_ascii_lowercase c then n - 87
              else if is_ascii_uppercase c then n - 55 else 36)
     in if d < radix then Some d else None)"

definition from_digit :: "nat \<Rightarrow> char" where
  "from_digit d = (if d < 10 then char_of (48 + d) else char_of (55 + d))"

text \<open>
  \<open>from_str_radix\<close> and \<open>parse\<close> of the unsigned types: an optional \<open>+\<close>, at least
  one digit, and no intermediate value outside the type (\<open>bound\<close> is one past its
  maximum).
\<close>

fun parse_digits :: "nat \<Rightarrow> nat \<Rightarrow> string \<Rightarrow> nat \<Rightarrow> nat option" where
  "parse_digits radix bound [] acc = Some acc"
| "parse_digits radix bound (c # cs) acc =
    (case to_digit radix c of
       None \<Rightarrow> None
     | Some d \<Rightarrow> if acc * radix + d < bound then parse_digits radix bound cs (acc * radix + d)
                 else None)"

definition from_str_radix :: "nat \<Rightarrow> nat \<Rightarrow> string \<Rightarrow> nat option" where
  "from_str_radix radix bound s =
    (case s of
       [] \<Rightarrow> None
     | c # cs \<Rightarrow> if c = CHR ''+'' then (if cs = [] then None else parse_digits radix bound cs 0)
                 else parse_digits radix bound s 0)"

function show_radix :: "nat \<Rightarrow> nat \<Rightarrow> string" where
  "show_radix r n =
    (if r < 2 \<or> n < r then [from_digit n] else show_radix r (n div r) @ [from_digit (n mod r)])"
  by pat_completeness auto
termination
  by (relation "measure snd") auto

subsection \<open>Iterators\<close>

text \<open>\<open>Iterator::max_by_key\<close> returns the last of several maximal elements.\<close>

fun max_by_key :: "('a \<Rightarrow> 'k::linorder) \<Rightarrow> 'a list \<Rightarrow> 'a option" where
  "max_by_key f [] = None"
| "max_by_key f (x # xs) = Some (fold (\<lambda>y m. if f m \<le> f y then y else m) xs x)"

text \<open>A stable sort by descending key, as \<open>sort_by_key (Reverse (f x))\<close>.\<close>

definition sort_desc_by :: "('a \<Rightarrow> 'k::linorder) \<Rightarrow> 'a list \<Rightarrow> 'a list" where
  "sort_desc_by f xs = rev (sort_key f (rev xs))"

definition first_by_key :: "('a \<Rightarrow> 'k::linorder) \<Rightarrow> 'a list \<Rightarrow> 'a option" where
  "first_by_key f xs = (case sort_desc_by f xs of [] \<Rightarrow> None | x # _ \<Rightarrow> Some x)"


section \<open>Lemmas\<close>

subsection \<open>Hash maps\<close>

lemmas hm_conv [hm_simps] = update_conv' delete_conv'

lemma hm_wf_insert [simp, intro]: "hm_wf m \<Longrightarrow> hm_wf (hm_insert k v m)"
  by (simp add: hm_wf_def distinct_update)

lemma hm_wf_remove [simp, intro]: "hm_wf m \<Longrightarrow> hm_wf (hm_remove k m)"
  by (simp add: hm_wf_def distinct_delete)

lemma hm_wf_or_insert [simp, intro]: "hm_wf m \<Longrightarrow> hm_wf (hm_or_insert k v m)"
  by (simp add: hm_or_insert_def)

lemma hm_wf_Nil [simp]: "hm_wf []"
  by (simp add: hm_wf_def)

lemma hm_get_or_insert [hm_simps]:
  "hm_get (hm_or_insert k v m) j =
    (if j = k then Some (hm_get_or m k v) else hm_get m j)"
  by (auto simp: hm_or_insert_def hm_get_or_def hm_simps split: option.splits)

lemma hm_mem_get: "hm_wf m \<Longrightarrow> (k, v) \<in> set m \<longleftrightarrow> hm_get m k = Some v"
  by (simp add: hm_wf_def)

subsection \<open>Results\<close>

lemma and_then_Inr: "and_then r f = Inr y \<longleftrightarrow> (\<exists>x. r = Inr x \<and> f x = Inr y)"
  by (cases r) auto

lemma and_then_assoc: "and_then (and_then r f) g = and_then r (\<lambda>x. and_then (f x) g)"
  by (cases r) simp_all

lemma map_err_Inr [simp]: "map_err g r = Inr x \<longleftrightarrow> r = Inr x"
  by (cases r) auto

lemma ok_or_Inr [simp]: "ok_or r e = Inr x \<longleftrightarrow> r = Some x"
  by (cases r) auto

lemma collect_results_Inr: "collect_results rs = Inr xs \<longleftrightarrow> rs = map Inr xs"
proof (induction rs arbitrary: xs)
  case (Cons r rs)
  then show ?case by (cases xs) (auto simp: and_then_Inr)
qed auto

lemma collect_results_map: "collect_results (map f xs) = Inr ys \<longleftrightarrow> list_all2 (\<lambda>x y. f x = Inr y) xs ys"
  by (induction xs arbitrary: ys) (auto simp: and_then_Inr list_all2_Cons1)

subsection \<open>Integers\<close>

lemma saturating_sub_nat: "unat (saturating_sub a b) = unat a - unat b"
proof (cases "a \<le> b")
  case True
  then show ?thesis by (simp add: saturating_sub_def word_le_nat_alt)
next
  case False
  then show ?thesis
    by (simp add: saturating_sub_def unat_sub word_le_nat_alt not_le)
qed

lemma length_be_bytes [simp]: "length (be_bytes k v) = k"
  by (induction k) auto

lemma from_be_bytes_Cons:
  "from_be_bytes (b # bs) = of_char b * 256 ^ length bs + from_be_bytes bs"
proof -
  have "foldl (\<lambda>a b. a * 256 + of_char b) x bs
      = x * 256 ^ length bs + foldl (\<lambda>a b. a * 256 + of_char b) 0 bs" for x :: nat
  proof (induction bs arbitrary: x)
    case (Cons c cs)
    show ?case
      by (simp add: Cons.IH [of "x * 256 + of_char c"] Cons.IH [of "of_char c"] add_mult_distrib)
  qed simp
  from this [of "of_char b"] show ?thesis by (simp add: from_be_bytes_def)
qed

lemma from_be_bytes_Nil [simp]: "from_be_bytes [] = 0"
  by (simp add: from_be_bytes_def)

lemma from_be_bytes_bound: "from_be_bytes bs < 256 ^ length bs"
proof (induction bs)
  case (Cons b bs)
  have "of_char b + 1 \<le> (256 :: nat)" using nat_of_char_less_256 [of b] by linarith
  then have "(of_char b + 1) * 256 ^ length bs \<le> (256 :: nat) * 256 ^ length bs"
    by (rule mult_right_mono) simp
  then show ?case using Cons
    unfolding from_be_bytes_Cons length_Cons power_Suc add_mult_distrib by linarith
qed simp

lemma from_be_bytes_be_bytes: "from_be_bytes (be_bytes k v) = v mod 256 ^ k"
proof (induction k)
  case (Suc k)
  have "v mod 256 ^ Suc k = (v div 256 ^ k mod 256) * 256 ^ k + v mod 256 ^ k"
    by (metis mod_mult2_eq mult.commute power_Suc2)
  then show ?case using Suc by (simp add: from_be_bytes_Cons)
qed simp

lemma be_bytes_from_be_bytes: "be_bytes (length bs) (from_be_bytes bs) = bs"
proof -
  have "be_bytes (length bs) (x * 256 ^ length bs + from_be_bytes bs) = bs" for x
  proof (induction bs arbitrary: x)
    case (Cons b bs)
    have eq: "x * 256 ^ length (b # bs) + from_be_bytes (b # bs)
        = (x * 256 + of_char b) * 256 ^ length bs + from_be_bytes bs"
      by (simp add: from_be_bytes_Cons algebra_simps)
    have "(x * 256 ^ length (b # bs) + from_be_bytes (b # bs)) div 256 ^ length bs
        = x * 256 + of_char b"
      unfolding eq using from_be_bytes_bound [of bs] by simp
    then have "char_of ((x * 256 ^ length (b # bs) + from_be_bytes (b # bs)) div 256 ^ length bs) = b"
      by (auto intro: of_char_eqI [where 'a = nat])
    then show ?case
      using Cons.IH [of "x * 256 + of_char b"] unfolding eq by simp
  qed simp
  from this [of 0] show ?thesis by simp
qed

text \<open>On encodings of the same length, the byte order is the numeric order.\<close>

lemma from_be_bytes_less:
  "length bs = length cs \<Longrightarrow> bs < cs \<longleftrightarrow> from_be_bytes bs < from_be_bytes cs"
proof (induction bs cs rule: list_induct2)
  case (Cons b bs c cs)
  let ?n = "256 ^ length cs :: nat"
  have bounds: "from_be_bytes bs < ?n" "from_be_bytes cs < ?n"
    using from_be_bytes_bound [of bs] from_be_bytes_bound [of cs] Cons.hyps by simp_all
  have step: "x < y \<Longrightarrow> p < ?n \<Longrightarrow> x * ?n + p < y * ?n + q" for x y p q :: nat
  proof -
    assume "x < y" "p < ?n"
    then have "(x + 1) * ?n \<le> y * ?n" by (intro mult_right_mono) auto
    then show ?thesis using \<open>p < ?n\<close> unfolding add_mult_distrib by linarith
  qed
  show ?case
  proof (cases "b = c")
    case True
    then show ?thesis using Cons by (simp add: from_be_bytes_Cons)
  next
    case False
    then have "(of_char b :: nat) \<noteq> of_char c" by simp
    then consider "(of_char b :: nat) < of_char c" | "(of_char c :: nat) < of_char b" by linarith
    then show ?thesis
      using False Cons.hyps step [of "of_char b" "of_char c" "from_be_bytes bs" "from_be_bytes cs"]
        step [of "of_char c" "of_char b" "from_be_bytes cs" "from_be_bytes bs"] bounds
      by cases (auto simp: from_be_bytes_Cons less_char_def)
  qed
qed simp

lemma be_bytes_less:
  "v < 256 ^ k \<Longrightarrow> w < 256 ^ k \<Longrightarrow> be_bytes k v < be_bytes k w \<longleftrightarrow> v < w"
  by (simp add: from_be_bytes_less from_be_bytes_be_bytes)

lemma be_bytes_inj:
  "v < 256 ^ k \<Longrightarrow> w < 256 ^ k \<Longrightarrow> be_bytes k v = be_bytes k w \<longleftrightarrow> v = w"
  by (metis from_be_bytes_be_bytes mod_less)

subsection \<open>Text\<close>

lemma split_once_None [text_simps]: "split_once c s = None \<longleftrightarrow> c \<notin> set s"
  by (induction s) auto

lemma split_once_Some: "split_once c s = Some (a, b) \<longleftrightarrow> s = a @ c # b \<and> c \<notin> set a"
proof (induction s arbitrary: a)
  case (Cons x xs)
  show ?case
  proof (cases "x = c")
    case True
    then show ?thesis by (cases a) auto
  next
    case False
    then show ?thesis using Cons by (cases a) auto
  qed
qed simp

lemma split_once_append [text_simps]: "c \<notin> set a \<Longrightarrow> split_once c (a @ c # b) = Some (a, b)"
  by (simp add: split_once_Some)

lemma rsplit_once_append [text_simps]: "c \<notin> set b \<Longrightarrow> rsplit_once c (a @ c # b) = Some (a, b)"
  by (simp add: rsplit_once_def text_simps)

lemma rsplit_once_None [text_simps]: "rsplit_once c s = None \<longleftrightarrow> c \<notin> set s"
  by (simp add: rsplit_once_def text_simps)

lemma rsplit_once_Some: "rsplit_once c s = Some (a, b) \<longleftrightarrow> s = a @ c # b \<and> c \<notin> set b"
proof
  assume "rsplit_once c s = Some (a, b)"
  then have "split_once c (rev s) = Some (rev b, rev a)"
    by (auto simp: rsplit_once_def)
  then have *: "rev s = rev b @ c # rev a" "c \<notin> set b"
    by (simp_all add: split_once_Some)
  from *(1) have "rev (rev s) = a @ c # b" by simp
  with *(2) show "s = a @ c # b \<and> c \<notin> set b" by simp
qed (simp add: text_simps)

lemma strip_prefix_Some: "strip_prefix p s = Some r \<longleftrightarrow> s = p @ r"
  by (auto simp: strip_prefix_def) (metis append_take_drop_id)

lemma starts_with_iff: "starts_with p s \<longleftrightarrow> (\<exists>r. s = p @ r)"
  by (auto simp: starts_with_def) (metis append_take_drop_id)

lemma str_contains_iff: "str_contains p s \<longleftrightarrow> (\<exists>a b. s = a @ p @ b)"
proof (induction s)
  case (Cons x xs)
  show ?case
    unfolding str_contains.simps Cons.IH starts_with_iff
    by (metis append_Cons append_Nil list.exhaust list.inject)
qed auto


text \<open>Printing an unsigned integer and parsing it back.\<close>

declare show_radix.simps [simp del]

lemma of_char_bounds:
  "is_ascii_digit c \<longleftrightarrow> 48 \<le> (of_char c :: nat) \<and> (of_char c :: nat) \<le> 57"
  "is_ascii_lowercase c \<longleftrightarrow> 97 \<le> (of_char c :: nat) \<and> (of_char c :: nat) \<le> 122"
  "is_ascii_uppercase c \<longleftrightarrow> 65 \<le> (of_char c :: nat) \<and> (of_char c :: nat) \<le> 90"
  by (simp_all add: is_ascii_digit_def is_ascii_lowercase_def is_ascii_uppercase_def
        less_eq_char_def)

lemma to_digit_from_digit:
  assumes "d < radix" "radix \<le> 36"
  shows "to_digit radix (from_digit d) = Some d"
  using assms by (auto simp: to_digit_def from_digit_def of_char_bounds Let_def)

lemma from_digit_alnum: "d < 36 \<Longrightarrow> is_ascii_alphanumeric (from_digit d)"
  by (auto simp: is_ascii_alphanumeric_def from_digit_def of_char_bounds)

lemma parse_digits_append:
  "parse_digits r b (xs @ ys) acc =
    (case parse_digits r b xs acc of None \<Rightarrow> None | Some a \<Rightarrow> parse_digits r b ys a)"
  by (induction xs arbitrary: acc) (auto split: option.splits)

lemma parse_digits_show_radix:
  assumes "2 \<le> r" "r \<le> 36" "n < b"
  shows "parse_digits r b (show_radix r n) 0 = Some n"
  using assms(3)
proof (induction n rule: less_induct)
  case (less n)
  show ?case
  proof (cases "n < r")
    case True
    then show ?thesis using less.prems assms
      by (simp add: show_radix.simps [of r n] to_digit_from_digit)
  next
    case False
    have "n div r < n" using False assms(1) by auto
    moreover have "n div r < b" using calculation less.prems by simp
    ultimately have "parse_digits r b (show_radix r (n div r)) 0 = Some (n div r)"
      by (rule less.IH)
    moreover have "to_digit r (from_digit (n mod r)) = Some (n mod r)"
      using assms by (simp add: to_digit_from_digit)
    ultimately show ?thesis
      using False assms less.prems
      by (simp add: show_radix.simps [of r n] parse_digits_append)
  qed
qed

lemma show_radix_alnum:
  assumes "2 \<le> r" "r \<le> 36"
  shows "c \<in> set (show_radix r n) \<Longrightarrow> is_ascii_alphanumeric c"
proof (induction n rule: less_induct)
  case (less n)
  show ?case
  proof (cases "n < r")
    case True
    then show ?thesis using less.prems assms
      by (simp add: show_radix.simps [of r n] from_digit_alnum)
  next
    case False
    have "n div r < n" using False assms by auto
    moreover have "is_ascii_alphanumeric (from_digit (n mod r))"
      using assms by (simp add: from_digit_alnum less_le_trans [of _ r])
    ultimately show ?thesis
      using less.IH [of "n div r"] less.prems False assms
      by (auto simp: show_radix.simps [of r n])
  qed
qed

lemma show_radix_not_Nil: "show_radix r n \<noteq> []"
  by (simp add: show_radix.simps [of r n])

lemma from_str_radix_show_radix [text_simps]:
  assumes "2 \<le> r" "r \<le> 36" "n < b"
  shows "from_str_radix r b (show_radix r n) = Some n"
proof -
  obtain c cs where s: "show_radix r n = c # cs"
    using show_radix_not_Nil by (cases "show_radix r n") auto
  have "is_ascii_alphanumeric c" using show_radix_alnum [OF assms(1,2), of c n] s by simp
  then have "c \<noteq> CHR ''+''"
    by (auto simp: is_ascii_alphanumeric_def of_char_bounds)
  then show ?thesis
    using parse_digits_show_radix [OF assms] s by (simp add: from_str_radix_def)
qed

lemma parse_digits_bound:
  "parse_digits r b s acc = Some n \<Longrightarrow> acc < b \<Longrightarrow> n < b"
  by (induction s arbitrary: acc) (auto split: option.splits if_splits)

lemma from_str_radix_bound: "from_str_radix r b s = Some n \<Longrightarrow> 0 < b \<Longrightarrow> n < b"
  using parse_digits_bound [of r b s 0 n] parse_digits_bound [of r b "tl s" 0 n]
  by (cases s) (auto simp: from_str_radix_def simp del: parse_digits.simps split: if_splits)

lemma tokens_word: "\<forall>c \<in> set w. \<not> is_whitespace c \<Longrightarrow> tokens cur (w @ s) = tokens (cur @ w) s"
  by (induction w arbitrary: cur) auto

lemma split_whitespace_word [text_simps]:
  assumes "\<forall>c \<in> set w. \<not> is_whitespace c" "w \<noteq> []"
  shows "split_whitespace (w @ CHR '' '' # s) = w # split_whitespace s"
    and "split_whitespace w = [w]"
  using tokens_word [OF assms(1), of "[]" "CHR '' '' # s"] tokens_word [OF assms(1), of "[]" "[]"] assms(2)
  by (simp_all add: split_whitespace_def is_whitespace_def)

subsection \<open>Iterators\<close>

lemma fold_max_by_key:
  fixes f :: "'a \<Rightarrow> 'k::linorder"
  shows "fold (\<lambda>y m. if f m \<le> f y then y else m) xs x \<in> insert x (set xs)
    \<and> (\<forall>y \<in> insert x (set xs). f y \<le> f (fold (\<lambda>y m. if f m \<le> f y then y else m) xs x))"
proof (induction xs arbitrary: x)
  case (Cons z zs)
  show ?case
    using Cons.IH [of z] Cons.IH [of x] by (auto intro: order_trans)
qed simp

lemma max_by_key_Some:
  assumes "max_by_key f xs = Some m"
  shows "m \<in> set xs" "y \<in> set xs \<Longrightarrow> f y \<le> f m"
  using assms fold_max_by_key [of f] by (cases xs; force)+

lemma max_by_key_None [simp]: "max_by_key f xs = None \<longleftrightarrow> xs = []"
  by (cases xs) auto

lemma set_map_filter: "set (List.map_filter f xs) = {y. \<exists>x \<in> set xs. f x = Some y}"
  by (induction xs) (auto simp: map_filter_simps split: option.splits)

lemma set_sort_desc_by [simp]: "set (sort_desc_by f xs) = set xs"
  by (simp add: sort_desc_by_def)

lemma length_sort_desc_by [simp]: "length (sort_desc_by f xs) = length xs"
  by (simp add: sort_desc_by_def)

lemma sorted_sort_desc_by: "sorted_wrt (\<ge>) (map f (sort_desc_by f xs))"
proof -
  have "sorted_wrt (\<le>) (map f (sort_key f (rev xs)))" by simp
  then have "sorted_wrt (\<ge>) (rev (map f (sort_key f (rev xs))))"
    by (simp only: sorted_wrt_rev)
  then show ?thesis by (simp only: sort_desc_by_def rev_map)
qed

text \<open>
  A choice of a best element: whatever the iteration order, the key of the
  chosen element is the same, and where keys do not tie so is the element.
\<close>

locale argmax =
  fixes pick :: "'a list \<Rightarrow> 'a option"
    and key :: "'a \<Rightarrow> 'k::linorder"
  assumes pick_mem: "pick xs = Some x \<Longrightarrow> x \<in> set xs"
    and pick_le: "pick xs = Some x \<Longrightarrow> y \<in> set xs \<Longrightarrow> key y \<le> key x"
    and pick_None: "pick xs = None \<longleftrightarrow> xs = []"
begin

lemma pick_ex: "xs \<noteq> [] \<Longrightarrow> \<exists>x. pick xs = Some x"
  using pick_None by (cases "pick xs") auto

lemma key_pick_cong:
  assumes "set xs = set ys"
  shows "map_option key (pick xs) = map_option key (pick ys)"
proof (cases "pick xs")
  case None
  then show ?thesis using assms pick_None by (cases "pick ys") auto
next
  case (Some x)
  then have "ys \<noteq> []" using assms pick_mem by fastforce
  then obtain y where y: "pick ys = Some y" using pick_ex by blast
  have "key x = key y"
    using pick_mem [OF Some] pick_mem [OF y] pick_le [OF Some, of y] pick_le [OF y, of x] assms
    by (simp add: order.antisym)
  then show ?thesis using Some y by simp
qed

lemma pick_cong:
  assumes "set xs = set ys" "inj_on key (set xs)"
  shows "pick xs = pick ys"
proof -
  note k = key_pick_cong [OF assms(1)]
  show ?thesis
  proof (cases "pick xs")
    case None
    then show ?thesis using k by (cases "pick ys") auto
  next
    case (Some x)
    then obtain y where y: "pick ys = Some y" "key x = key y" using k by (cases "pick ys") auto
    then have "x = y"
      using assms pick_mem [OF Some] pick_mem [OF y(1)] by (auto dest: inj_onD)
    then show ?thesis using Some y by simp
  qed
qed

end

lemma first_by_key_None: "first_by_key f xs = None \<longleftrightarrow> xs = []"
  using length_sort_desc_by [of f xs]
  by (auto simp: first_by_key_def simp del: length_sort_desc_by split: list.splits)

lemma first_by_key_Some:
  assumes "first_by_key f xs = Some x"
  shows "x \<in> set xs" "y \<in> set xs \<Longrightarrow> f y \<le> f x"
proof -
  obtain r where r: "sort_desc_by f xs = x # r"
    using assms by (auto simp: first_by_key_def split: list.splits)
  then have s: "set xs = insert x (set r)" by (metis list.simps(15) set_sort_desc_by)
  then show "x \<in> set xs" by simp
  show "f y \<le> f x" if "y \<in> set xs"
    using sorted_sort_desc_by [of f xs] that unfolding r s by auto
qed

interpretation last_max: argmax "max_by_key f" f for f
  by unfold_locales (auto dest: max_by_key_Some)

interpretation first_max: argmax "first_by_key f" f for f
  by unfold_locales (auto dest: first_by_key_Some simp: first_by_key_None)

end
