(* ===== verification/Topology.thy ===== *)
theory Topology
  imports Prelude
begin

text \<open>
  The replicated cluster topology (\<open>raft/topology.rs\<close>): node roles and
  configurations, the values derived from them (the standby list Postgres waits
  for, the addresses reads may go to, the failover candidate), the bounded
  failover history, and the text form of log sequence numbers.
\<close>

unbundle bit_operations_syntax

section \<open>Types\<close>

datatype node_role = Primary | Replica | Offline | Maintenance | Unknown

datatype replication_mode = Async | Sync | SyncStrict

record node_config =
  node_id :: string
  agent_addr :: string
  postgres_addr :: string
  priority :: u32
  tags :: "(string, string) hashmap"

datatype backup_status = Completed | Failed

record backup_manifest =
  backup_id :: string
  label :: string
  frequency :: string
  source_node :: string
  started_at :: int
  completed_at :: int
  size_bytes :: u64
  location :: string
  status :: backup_status

record failover_event =
  old_primary :: string
  new_primary :: string
  triggered_at :: int
  duration_ms :: u64
  reason :: string
  ran_degraded :: bool

record cluster_topology =
  primary_node_id :: string
  node_roles :: "(string, node_role) hashmap"
  replica_slots :: "(string, string) hashmap"
  primary_conninfos :: "(string, string) hashmap"
  last_flush_lsns :: "(string, u64) hashmap"
  last_replay_lsns :: "(string, u64) hashmap"
  replica_lag_bytes :: "(string, u64) hashmap"
  node_configs :: "(string, node_config) hashmap"
  failover_history :: "failover_event list"
  backups :: "backup_manifest list"
  replication_mode :: replication_mode
  sync_degraded :: bool
  needs_reseed :: "string set"
  version :: u64
  last_changed_at :: int


section \<open>Operations\<close>

subsection \<open>Nodes\<close>

fun node_role_display :: "node_role \<Rightarrow> string" where
  "node_role_display Primary = ''primary''"
| "node_role_display Replica = ''replica''"
| "node_role_display Offline = ''offline''"
| "node_role_display Maintenance = ''maintenance''"
| "node_role_display Unknown = ''unknown''"

definition postgres_host_port :: "node_config \<Rightarrow> string \<times> string" where
  "postgres_host_port c =
    (case rsplit_once (CHR '':'') (postgres_addr c) of
       Some hp \<Rightarrow> hp
     | None \<Rightarrow> (postgres_addr c, ''5432''))"

definition conninfo :: "node_config \<Rightarrow> string \<Rightarrow> string \<Rightarrow> string" where
  "conninfo c user password =
    (let (host, port) = postgres_host_port c
     in ''host='' @ host @ '' port='' @ port @ '' user='' @ user @ '' password='' @ password)"

definition is_target_of :: "node_config \<Rightarrow> string \<Rightarrow> bool" where
  "is_target_of c info =
    (let (host, port) = postgres_host_port c;
         has = (\<lambda>key value. list_ex (\<lambda>token. strip_prefix key token = Some value)
                  (split_whitespace info))
     in has ''host='' host \<and> has ''port='' port)"

definition is_external :: "node_config \<Rightarrow> bool" where
  "is_external c \<longleftrightarrow> hm_get (tags c) ''role'' = Some ''external''"

subsection \<open>The topology\<close>

definition default_topology :: cluster_topology where
  "default_topology =
    \<lparr> primary_node_id = [], node_roles = [], replica_slots = [], primary_conninfos = [],
      last_flush_lsns = [], last_replay_lsns = [], replica_lag_bytes = [], node_configs = [],
      failover_history = [], backups = [], replication_mode = Async, sync_degraded = False,
      needs_reseed = {}, version = 0, last_changed_at = 0 \<rparr>"

fun escape_quotes :: "string \<Rightarrow> string" where
  "escape_quotes [] = []"
| "escape_quotes (c # cs) =
    (if c = CHR 0x22 then CHR 0x22 # CHR 0x22 # escape_quotes cs else c # escape_quotes cs)"

definition quote_name :: "string \<Rightarrow> string" where
  "quote_name s = CHR 0x22 # escape_quotes s @ [CHR 0x22]"

definition standbys :: "cluster_topology \<Rightarrow> string list" where
  "standbys t =
    map fst (filter (\<lambda>(nid, cfg). nid \<noteq> primary_node_id t \<and> \<not> is_external cfg) (node_configs t))"

definition standby_names :: "cluster_topology \<Rightarrow> string" where
  "standby_names t =
    (if standbys t = [] then []
     else ''ANY 1 ('' @ join '', '' (map quote_name (sort (standbys t))) @ '')'')"

definition synchronous_standby_names :: "cluster_topology \<Rightarrow> string" where
  "synchronous_standby_names t =
    (let required = (case replication_mode t of
                       Async \<Rightarrow> False
                     | Sync \<Rightarrow> \<not> sync_degraded t
                     | SyncStrict \<Rightarrow> True)
     in if \<not> required then [] else standby_names t)"

definition primary_postgres_addr :: "cluster_topology \<Rightarrow> string option" where
  "primary_postgres_addr t =
    map_option postgres_addr (hm_get (node_configs t) (primary_node_id t))"

definition replica_addrs_within_lag :: "cluster_topology \<Rightarrow> u64 \<Rightarrow> string list" where
  "replica_addrs_within_lag t max_lag_bytes =
    (let primary_lsn = hm_get_or (last_flush_lsns t) (primary_node_id t) 0
     in List.map_filter (\<lambda>(nid, role). map_option postgres_addr (hm_get (node_configs t) nid))
          (filter (\<lambda>(nid, role).
             saturating_sub primary_lsn (hm_get_or (last_flush_lsns t) nid 0) \<le> max_lag_bytes)
          (filter (\<lambda>(nid, role). role = Replica) (node_roles t))))"

definition candidate_key :: "cluster_topology \<Rightarrow> string \<Rightarrow> u64 \<times> u32" where
  "candidate_key t nid =
    (hm_get_or (last_flush_lsns t) nid 0,
     case hm_get (node_configs t) nid of None \<Rightarrow> 0 | Some c \<Rightarrow> priority c)"

definition best_failover_candidate :: "cluster_topology \<Rightarrow> string \<Rightarrow> string option" where
  "best_failover_candidate t failed_id =
    (let candidates = filter (\<lambda>(nid, role). nid \<noteq> failed_id \<and> role = Replica) (node_roles t)
     in map_option fst (first_by_key (\<lambda>(nid, role). candidate_key t nid) candidates))"

definition FAILOVER_HISTORY_MAX :: nat where
  "FAILOVER_HISTORY_MAX = 100"

text \<open>The loop that pops the front while the queue is too long.\<close>

fun pop_front_while :: "nat \<Rightarrow> 'a list \<Rightarrow> 'a list" where
  "pop_front_while n [] = []"
| "pop_front_while n (x # xs) = (if n < length (x # xs) then pop_front_while n xs else x # xs)"

definition record_failover :: "failover_event \<Rightarrow> cluster_topology \<Rightarrow> cluster_topology" where
  "record_failover e t =
    t\<lparr>failover_history := pop_front_while FAILOVER_HISTORY_MAX (failover_history t @ [e])\<rparr>"

subsection \<open>Log sequence numbers\<close>

datatype lsn_error = NoSlash | InvalidHi | InvalidLo

definition parse_u64_hex :: "string \<Rightarrow> u64 option" where
  "parse_u64_hex s = map_option of_nat (from_str_radix 16 (2 ^ 64) s)"

definition parse_lsn :: "string \<Rightarrow> lsn_error + u64" where
  "parse_lsn s =
    (case split_once (CHR ''/'') s of
       None \<Rightarrow> Inl NoSlash
     | Some (h, l) \<Rightarrow>
        (case parse_u64_hex h of
           None \<Rightarrow> Inl InvalidHi
         | Some hi \<Rightarrow>
            (case parse_u64_hex l of
               None \<Rightarrow> Inl InvalidLo
             | Some lo \<Rightarrow> Inr (push_bit 32 hi OR lo))))"

definition format_lsn :: "u64 \<Rightarrow> string" where
  "format_lsn lsn =
    show_radix 16 (unat (drop_bit 32 lsn)) @ CHR ''/'' # show_radix 16 (unat (ucast lsn :: u32))"


text \<open>
  The reader of a quoted list of names, as the grammar of
  \<open>synchronous_standby_names\<close> defines it: a name stands between double quotes,
  a doubled quote inside is one quote, names are separated by a comma and a
  blank, and the list stands in \<open>ANY 1 (...)\<close>.
\<close>

fun read_quoted :: "string \<Rightarrow> string \<Rightarrow> (string \<times> string) option" where
  "read_quoted acc [] = None"
| "read_quoted acc [c] = (if c = CHR 0x22 then Some (acc, []) else None)"
| "read_quoted acc (c # d # cs) =
    (if c \<noteq> CHR 0x22 then read_quoted (acc @ [c]) (d # cs)
     else if d = CHR 0x22 then read_quoted (acc @ [CHR 0x22]) cs
     else Some (acc, d # cs))"

fun read_names :: "nat \<Rightarrow> string \<Rightarrow> string list option" where
  "read_names 0 s = None"
| "read_names (Suc n) s =
    (case s of
       [] \<Rightarrow> None
     | c # cs \<Rightarrow>
        if c \<noteq> CHR 0x22 then None
        else (case read_quoted [] cs of
                None \<Rightarrow> None
              | Some (name, rest) \<Rightarrow>
                 if rest = '')'' then Some [name]
                 else (case strip_prefix '', '' rest of
                         None \<Rightarrow> None
                       | Some s' \<Rightarrow> map_option ((#) name) (read_names n s'))))"

definition read_any_1 :: "string \<Rightarrow> string list option" where
  "read_any_1 s =
    (if s = [] then Some []
     else case strip_prefix ''ANY 1 ('' s of
            None \<Rightarrow> None
          | Some r \<Rightarrow> read_names (length r) r)"


section \<open>Lemmas\<close>

subsection \<open>Log sequence numbers\<close>

lemma lsn_halves: "push_bit 32 (drop_bit 32 lsn) OR ucast (ucast lsn :: u32) = (lsn :: u64)"
  by (rule bit_word_eqI) (auto simp: bit_simps)

lemma parse_u64_hex_show: "n < 2 ^ 64 \<Longrightarrow> parse_u64_hex (show_radix 16 n) = Some (of_nat n)"
  by (simp add: parse_u64_hex_def text_simps)

lemma slash_notin_show_radix: "2 \<le> r \<Longrightarrow> r \<le> 36 \<Longrightarrow> CHR ''/'' \<notin> set (show_radix r n)"
  using show_radix_alnum [of r "CHR ''/''" n]
  by (auto simp: is_ascii_alphanumeric_def of_char_bounds)

text \<open>C28.  Reading the text form of a log position back gives that position, for
  every 64-bit position.\<close>

theorem parse_format_lsn: "parse_lsn (format_lsn lsn) = Inr lsn"
proof -
  have hi: "unat (drop_bit 32 lsn) < 2 ^ 64"
    using unsigned_less [of "drop_bit 32 lsn", where 'a = nat] by simp
  have "unat (ucast lsn :: u32) < 2 ^ 32"
    using unsigned_less [of "ucast lsn :: u32", where 'a = nat] by simp
  then have lo: "unat (ucast lsn :: u32) < 2 ^ 64" by simp
  show ?thesis
    by (simp add: parse_lsn_def format_lsn_def slash_notin_show_radix text_simps
          parse_u64_hex_show [OF hi] parse_u64_hex_show [OF lo] lsn_halves)
qed

subsection \<open>Connection strings\<close>

lemma split_conninfo:
  fixes h p u w :: string
  assumes "\<forall>c \<in> set h \<union> set p \<union> set u \<union> set w. \<not> is_whitespace c"
  shows "split_whitespace (''host='' @ h @ '' port='' @ p @ '' user='' @ u @ '' password='' @ w)
    = [''host='' @ h, ''port='' @ p, ''user='' @ u, ''password='' @ w]"
proof -
  have nw: "\<forall>c \<in> set (''host='' @ h). \<not> is_whitespace c"
    "\<forall>c \<in> set (''port='' @ p). \<not> is_whitespace c"
    "\<forall>c \<in> set (''user='' @ u). \<not> is_whitespace c"
    "\<forall>c \<in> set (''password='' @ w). \<not> is_whitespace c"
    using assms by (auto simp: is_whitespace_def less_eq_char_def)
  have "split_whitespace ((''host='' @ h) @ CHR '' '' # (''port='' @ p) @ CHR '' '' #
      (''user='' @ u) @ CHR '' '' # (''password='' @ w))
    = [''host='' @ h, ''port='' @ p, ''user='' @ u, ''password='' @ w]"
    by (subst split_whitespace_word, rule nw, simp)+ simp
  then show ?thesis by simp
qed

text \<open>A connection string made for a node points at that node and at no node
  with another Postgres address, as long as host, port, user and password contain
  no white space.\<close>

theorem is_target_of_conninfo:
  assumes "postgres_host_port c = (h, p)"
    and "\<forall>x \<in> set h \<union> set p \<union> set user \<union> set password. \<not> is_whitespace x"
  shows "is_target_of c' (conninfo c user password) \<longleftrightarrow> postgres_host_port c' = (h, p)"
  using split_conninfo [OF assms(2)] assms(1)
  by (cases "postgres_host_port c'")
    (auto simp: is_target_of_def conninfo_def strip_prefix_Some)

theorem is_target_of_conninfo_witness:
  "is_target_of
     \<lparr>node_id = ''pg2'', agent_addr = ''h2:7001'', postgres_addr = ''h1'', priority = 1, tags = []\<rparr>
     (conninfo \<lparr>node_id = ''pg1'', agent_addr = ''h1:7001'', postgres_addr = ''h1:5432'',
                priority = 1, tags = []\<rparr> ''repl'' ''secret'')"
  by (subst is_target_of_conninfo [where h = "''h1''" and p = "''5432''"])
    (simp_all add: postgres_host_port_def rsplit_once_def is_whitespace_def less_eq_char_def)

subsection \<open>Failover candidates\<close>

lemma best_failover_candidate_Some:
  assumes "hm_wf (node_roles t)" "best_failover_candidate t failed = Some n"
  shows "n \<noteq> failed" "hm_get (node_roles t) n = Some Replica"
    and "m \<noteq> failed \<Longrightarrow> hm_get (node_roles t) m = Some Replica \<Longrightarrow>
      candidate_key t m \<le> candidate_key t n"
proof -
  let ?cs = "filter (\<lambda>(nid, role). nid \<noteq> failed \<and> role = Replica) (node_roles t)"
  obtain r where r: "first_by_key (\<lambda>(nid, role). candidate_key t nid) ?cs = Some (n, r)"
    using assms(2) by (auto simp: best_failover_candidate_def)
  show "n \<noteq> failed" "hm_get (node_roles t) n = Some Replica"
    using first_max.pick_mem [OF r] hm_mem_get [OF assms(1)] by auto
  show "candidate_key t m \<le> candidate_key t n"
    if "m \<noteq> failed" "hm_get (node_roles t) m = Some Replica"
    using first_max.pick_le [OF r, of "(m, Replica)"] that hm_mem_get [OF assms(1)] by simp
qed

lemma best_failover_candidate_None:
  assumes "hm_wf (node_roles t)"
  shows "best_failover_candidate t failed = None \<longleftrightarrow>
    (\<forall>n. n \<noteq> failed \<longrightarrow> hm_get (node_roles t) n \<noteq> Some Replica)"
  using hm_mem_get [OF assms]
  by (force simp: best_failover_candidate_def first_max.pick_None filter_empty_conv)

subsection \<open>Failover history\<close>

lemma pop_front_while_drop: "pop_front_while n xs = drop (length xs - n) xs"
proof (induction xs)
  case (Cons x xs)
  then show ?case by (cases "n < length (x # xs)") (auto simp: Suc_diff_le)
qed simp

lemma failover_history_record:
  "failover_history (record_failover e t) =
    drop (Suc (length (failover_history t)) - FAILOVER_HISTORY_MAX) (failover_history t @ [e])"
  by (simp add: record_failover_def pop_front_while_drop del: drop_append)

subsection \<open>Standby names\<close>

lemma read_quoted_escape:
  assumes "rest = [] \<or> hd rest \<noteq> CHR 0x22"
  shows "read_quoted acc (escape_quotes s @ CHR 0x22 # rest) = Some (acc @ s, rest)"
proof (induction s arbitrary: acc)
  case Nil
  then show ?case using assms by (cases rest) auto
next
  case (Cons c cs)
  obtain d ds where "escape_quotes cs @ CHR 0x22 # rest = d # ds"
    by (cases "escape_quotes cs") auto
  then show ?case using Cons.IH by (cases "c = CHR 0x22") auto
qed

lemma read_names_last: "read_names (Suc n) (quote_name x @ '')'') = Some [x]"
  using read_quoted_escape [of "'')''" "[]" x] by (simp add: quote_name_def)

lemma read_names_more:
  "read_names (Suc n) (quote_name x @ '', '' @ s) = map_option ((#) x) (read_names n s)"
  using read_quoted_escape [of "'', '' @ s" "[]" x]
  by (simp add: quote_name_def strip_prefix_def)

lemma read_names_join:
  assumes "xs \<noteq> []" "length xs \<le> n"
  shows "read_names n (join '', '' (map quote_name xs) @ '')'') = Some xs"
  using assms
proof (induction xs arbitrary: n rule: induct_list012)
  case (2 x)
  then obtain m where "n = Suc m" by (cases n) auto
  then show ?case by (simp only: list.map join.simps read_names_last)
next
  case (3 x y zs)
  then obtain m where n: "n = Suc m" "length (y # zs) \<le> m" by (cases n) auto
  have "read_names m (join '', '' (map quote_name (y # zs)) @ '')'') = Some (y # zs)"
    using 3(2) n(2) by simp
  then show ?case
    by (simp only: n list.map join.simps append_assoc read_names_more option.map)
qed simp

lemma length_join_ge: "length xs \<le> length (join '', '' (map quote_name xs))"
  by (induction xs rule: induct_list012) (auto simp: quote_name_def)

lemma standbys_distinct: "hm_wf (node_configs t) \<Longrightarrow> distinct (standbys t)"
  unfolding standbys_def hm_wf_def by (induction "node_configs t" rule: list.induct) (auto simp: distinct_map_filter)

lemma set_standbys:
  assumes "hm_wf (node_configs t)"
  shows "set (standbys t) = {nid. nid \<noteq> primary_node_id t
    \<and> (\<exists>c. hm_get (node_configs t) nid = Some c \<and> \<not> is_external c)}"
  using hm_mem_get [OF assms] by (force simp: standbys_def)

text \<open>C26.  The value written to \<open>synchronous_standby_names\<close> reads back, by the
  setting's grammar, as the sorted list of exactly the nodes that are neither the
  primary nor external, whatever characters the node names contain.\<close>

theorem standby_names_reads_back:
  "read_any_1 (standby_names t) = Some (sort (standbys t))"
proof (cases "standbys t = []")
  case True
  then show ?thesis by (simp add: standby_names_def read_any_1_def)
next
  case False
  let ?r = "join '', '' (map quote_name (sort (standbys t))) @ '')''"
  have "sort (standbys t) \<noteq> []" using False by (metis set_empty set_sort)
  moreover have "length (sort (standbys t)) \<le> length ?r"
    using length_join_ge [of "sort (standbys t)"] by simp
  ultimately have "read_names (length ?r) ?r = Some (sort (standbys t))"
    by (rule read_names_join)
  then show ?thesis using False by (simp add: standby_names_def read_any_1_def strip_prefix_def)
qed

text \<open>The standby list does not depend on the iteration order of the hash
  map: two topologies with the same primary and the same configurations name the
  same standbys.\<close>

theorem standby_names_order_independent:
  assumes "hm_wf (node_configs t)" "hm_wf (node_configs t')"
    and "hm_get (node_configs t) = hm_get (node_configs t')"
    and "primary_node_id t = primary_node_id t'"
  shows "standby_names t = standby_names t'"
proof -
  have s: "set (standbys t) = set (standbys t')"
    using assms by (simp add: set_standbys)
  then have "sort (standbys t) = sort (standbys t')"
    using standbys_distinct [OF assms(1)] standbys_distinct [OF assms(2)]
    by (intro sorted_distinct_set_unique) auto
  then show ?thesis using s by (simp add: standby_names_def) (metis set_empty)
qed

theorem standby_names_order_independent_witness:
  "let c = (\<lambda>n. \<lparr>node_id = n, agent_addr = [], postgres_addr = [], priority = 1, tags = []\<rparr>);
       m = [(''a'', c ''a''), (''b'', c ''b''), (''p'', c ''p'')]
   in standby_names (default_topology\<lparr>primary_node_id := ''p'', node_configs := m\<rparr>)
    = standby_names (default_topology\<lparr>primary_node_id := ''p'', node_configs := rev m\<rparr>)"
  unfolding Let_def
  by (rule standby_names_order_independent) (auto simp: default_topology_def hm_wf_def)

end
