(* ===== verification/State_Machine.thy ===== *)
theory State_Machine
  imports Topology
begin

text \<open>
  The Raft state machine of the topology (\<open>raft/commands.rs\<close>,
  \<open>raft/state_machine.rs\<close>): the commands, their effect on the topology, the
  application of committed log entries, and snapshots.  The consensus library
  supplies the order of the entries; log ids and memberships are its data.  The
  serialiser of snapshots is a parameter, a pair of functions.
\<close>

section \<open>Commands\<close>

datatype topology_command =
    SetPrimary string u64 u32
  | MarkOffline string
  | MarkReplica string u64
  | MarkMaintenance string
  | UpdatePrimaryConninfo string string
  | UpdateFlushLsn string u64 u64
  | AddNode node_config
  | RemoveNode string
  | RecordFailover string string int u64 string bool
  | SetReplicationMode replication_mode
  | SetSyncDegraded bool
  | SetNeedsReseed string bool
  | SetReplicationSlot string string
  | AddBackupManifest backup_manifest
  | RemoveBackupManifest string

fun changes_primary :: "topology_command \<Rightarrow> bool" where
  "changes_primary (SetPrimary _ _ _) = True"
| "changes_primary _ = False"

fun apply_body :: "topology_command \<Rightarrow> cluster_topology \<Rightarrow> cluster_topology" where
  "apply_body (SetPrimary n at_lsn _) t =
    (let roles = (if primary_node_id t \<noteq> [] \<and> primary_node_id t \<noteq> n
                  then hm_insert (primary_node_id t) Replica (node_roles t) else node_roles t)
     in t\<lparr>primary_node_id := n,
          node_roles := hm_insert n Primary roles,
          last_flush_lsns := hm_insert n at_lsn (last_flush_lsns t)\<rparr>)"
| "apply_body (MarkOffline n) t = t\<lparr>node_roles := hm_insert n Offline (node_roles t)\<rparr>"
| "apply_body (MarkReplica n flush) t =
    t\<lparr>node_roles := hm_insert n Replica (node_roles t),
      last_flush_lsns := hm_insert n flush (last_flush_lsns t)\<rparr>"
| "apply_body (MarkMaintenance n) t = t\<lparr>node_roles := hm_insert n Maintenance (node_roles t)\<rparr>"
| "apply_body (UpdatePrimaryConninfo n info) t =
    t\<lparr>primary_conninfos := hm_insert n info (primary_conninfos t)\<rparr>"
| "apply_body (UpdateFlushLsn n flush replay) t =
    (let t' = t\<lparr>last_flush_lsns := hm_insert n flush (last_flush_lsns t),
                last_replay_lsns := hm_insert n replay (last_replay_lsns t)\<rparr>
     in if primary_node_id t' \<noteq> [] \<and> n \<noteq> primary_node_id t' then
          t'\<lparr>replica_lag_bytes := hm_insert n
               (saturating_sub (hm_get_or (last_flush_lsns t') (primary_node_id t') 0) flush)
               (replica_lag_bytes t')\<rparr>
        else t')"
| "apply_body (AddNode cfg) t =
    t\<lparr>node_roles := hm_or_insert (node_id cfg) Unknown (node_roles t),
      node_configs := hm_insert (node_id cfg) cfg (node_configs t)\<rparr>"
| "apply_body (RemoveNode n) t =
    t\<lparr>node_roles := hm_remove n (node_roles t),
      node_configs := hm_remove n (node_configs t),
      last_flush_lsns := hm_remove n (last_flush_lsns t),
      last_replay_lsns := hm_remove n (last_replay_lsns t),
      replica_lag_bytes := hm_remove n (replica_lag_bytes t)\<rparr>"
| "apply_body (RecordFailover old new at dur why degr) t =
    record_failover \<lparr>old_primary = old, new_primary = new, triggered_at = at, duration_ms = dur,
      reason = why, ran_degraded = degr\<rparr> t"
| "apply_body (SetReplicationMode m) t = t\<lparr>replication_mode := m, sync_degraded := False\<rparr>"
| "apply_body (SetSyncDegraded d) t = t\<lparr>sync_degraded := d\<rparr>"
| "apply_body (SetNeedsReseed n b) t =
    (if b then t\<lparr>needs_reseed := insert n (needs_reseed t)\<rparr>
     else t\<lparr>needs_reseed := needs_reseed t - {n}\<rparr>)"
| "apply_body (SetReplicationSlot n slot) t =
    t\<lparr>replica_slots := hm_insert n slot (replica_slots t)\<rparr>"
| "apply_body (AddBackupManifest m) t =
    t\<lparr>backups := take 1000 (sort_desc_by completed_at (backups t @ [m]))\<rparr>"
| "apply_body (RemoveBackupManifest b) t =
    t\<lparr>backups := filter (\<lambda>m. backup_id m \<noteq> b) (backups t)\<rparr>"

text \<open>\<open>now\<close> is the wall clock the applying process reads, in Unix seconds.\<close>

definition apply_command :: "int \<Rightarrow> topology_command \<Rightarrow> cluster_topology \<Rightarrow> cluster_topology" where
  "apply_command now cmd t = apply_body cmd (t\<lparr>version := version t + 1, last_changed_at := now\<rparr>)"


section \<open>The state machine\<close>

record log_id =
  leader_id :: "u64 \<times> u64"
  log_index :: u64

datatype 'm payload = Blank | Normal topology_command | Membership 'm

record 'm entry =
  entry_log_id :: log_id
  entry_payload :: "'m payload"

type_synonym 'm stored_membership = "log_id option \<times> 'm"

record 'm state_machine_snapshot =
  snap_meta :: "'m stored_membership"
  snap_topology :: cluster_topology

record 'm snapshot_meta =
  last_log_id :: "log_id option"
  last_membership :: "'m stored_membership"
  snapshot_id :: string

text \<open>
  \<open>change_tx\<close> is the value in the watch channel and \<open>receivers\<close> the number of
  its live receivers: sending into a channel with none leaves the value as it is.
\<close>

record 'm topology_state_machine =
  state :: cluster_topology
  last_log :: "log_id option"
  membership :: "'m stored_membership"
  change_tx :: cluster_topology
  receivers :: nat

definition new_state_machine :: "'m \<Rightarrow> 'm topology_state_machine" where
  "new_state_machine default_membership =
    \<lparr>state = default_topology, last_log = None, membership = (None, default_membership),
     change_tx = default_topology, receivers = 1\<rparr>"

definition current_topology :: "'m topology_state_machine \<Rightarrow> cluster_topology" where
  "current_topology sm = change_tx sm"

definition applied_state ::
  "'m topology_state_machine \<Rightarrow> log_id option \<times> 'm stored_membership" where
  "applied_state sm = (last_log sm, membership sm)"

definition watch_send :: "cluster_topology \<Rightarrow> 'm topology_state_machine \<Rightarrow> 'm topology_state_machine" where
  "watch_send t sm = (if receivers sm = 0 then sm else sm\<lparr>change_tx := t\<rparr>)"

definition apply_entry ::
  "int \<Rightarrow> 'm entry \<Rightarrow> 'm topology_state_machine \<Rightarrow> 'm topology_state_machine" where
  "apply_entry now e sm =
    (let sm1 = sm\<lparr>last_log := Some (entry_log_id e)\<rparr>
     in case entry_payload e of
          Blank \<Rightarrow> sm1
        | Normal cmd \<Rightarrow>
           (let topo = apply_command now cmd (state sm1)
            in watch_send topo (sm1\<lparr>state := topo\<rparr>))
        | Membership m \<Rightarrow> sm1\<lparr>membership := (Some (entry_log_id e), m)\<rparr>)"

text \<open>Each entry comes with the clock its application reads.\<close>

fun apply_entries ::
  "(int \<times> 'm entry) list \<Rightarrow> 'm topology_state_machine \<Rightarrow> u64 list \<times> 'm topology_state_machine" where
  "apply_entries [] sm = ([], sm)"
| "apply_entries ((now, e) # es) sm =
    (let sm' = apply_entry now e sm;
         (responses, sm'') = apply_entries es sm'
     in (version (state sm') # responses, sm''))"

definition snapshot_name :: "(u64 \<times> u64 \<Rightarrow> string) \<Rightarrow> log_id \<Rightarrow> string" where
  "snapshot_name show_leader l =
    ''snapshot-'' @ show_leader (leader_id l) @ ''-'' @ show_radix 10 (unat (log_index l))"

definition build_snapshot_data ::
  "('m state_machine_snapshot \<Rightarrow> 'e + 'b) \<Rightarrow> (u64 \<times> u64 \<Rightarrow> string) \<Rightarrow> 'm topology_state_machine
    \<Rightarrow> 'e + ('m snapshot_meta \<times> 'b)" where
  "build_snapshot_data to_vec show_leader sm =
    (case to_vec \<lparr>snap_meta = membership sm, snap_topology = state sm\<rparr> of
       Inl e \<Rightarrow> Inl e
     | Inr data \<Rightarrow>
        Inr (\<lparr>last_log_id = last_log sm, last_membership = membership sm,
              snapshot_id = (case last_log sm of
                               Some l \<Rightarrow> snapshot_name show_leader l
                             | None \<Rightarrow> ''snapshot-empty'')\<rparr>, data))"

definition install_snapshot_from ::
  "('b \<Rightarrow> 'e + 'm state_machine_snapshot) \<Rightarrow> 'm snapshot_meta \<Rightarrow> 'b \<Rightarrow> 'm topology_state_machine
    \<Rightarrow> ('e + unit) \<times> 'm topology_state_machine" where
  "install_snapshot_from from_slice meta data sm =
    (case from_slice data of
       Inl e \<Rightarrow> (Inl e, sm)
     | Inr snap \<Rightarrow>
        (Inr (), watch_send (snap_topology snap)
           (sm\<lparr>state := snap_topology snap, membership := snap_meta snap,
               last_log := last_log_id meta\<rparr>)))"

definition get_current_snapshot_data ::
  "('m state_machine_snapshot \<Rightarrow> 'e + 'b) \<Rightarrow> (u64 \<times> u64 \<Rightarrow> string) \<Rightarrow> 'm topology_state_machine
    \<Rightarrow> 'e + ('m snapshot_meta \<times> 'b) option" where
  "get_current_snapshot_data to_vec show_leader sm =
    (case last_log sm of
       None \<Rightarrow> Inr None
     | Some l \<Rightarrow>
        (case to_vec \<lparr>snap_meta = membership sm, snap_topology = state sm\<rparr> of
           Inl e \<Rightarrow> Inl e
         | Inr data \<Rightarrow>
            Inr (Some (\<lparr>last_log_id = Some l, last_membership = membership sm,
                        snapshot_id = snapshot_name show_leader l\<rparr>, data))))"


section \<open>Invariant\<close>

definition single_primary :: "cluster_topology \<Rightarrow> bool" where
  "single_primary t \<longleftrightarrow>
    (\<forall>n. hm_get (node_roles t) n = Some Primary \<longrightarrow> n = primary_node_id t \<and> n \<noteq> [])"

definition maps_wf :: "cluster_topology \<Rightarrow> bool" where
  "maps_wf t \<longleftrightarrow> hm_wf (node_roles t) \<and> hm_wf (replica_slots t) \<and> hm_wf (primary_conninfos t)
    \<and> hm_wf (last_flush_lsns t) \<and> hm_wf (last_replay_lsns t) \<and> hm_wf (replica_lag_bytes t)
    \<and> hm_wf (node_configs t)"

definition configs_keyed :: "cluster_topology \<Rightarrow> bool" where
  "configs_keyed t \<longleftrightarrow> (\<forall>n c. hm_get (node_configs t) n = Some c \<longrightarrow> node_id c = n)"

definition backups_ok :: "cluster_topology \<Rightarrow> bool" where
  "backups_ok t \<longleftrightarrow> length (backups t) \<le> 1000 \<and> sorted_wrt (\<ge>) (map completed_at (backups t))"

definition topology_inv :: "cluster_topology \<Rightarrow> bool" where
  "topology_inv t \<longleftrightarrow> single_primary t \<and> maps_wf t \<and> configs_keyed t \<and> backups_ok t
    \<and> length (failover_history t) \<le> FAILOVER_HISTORY_MAX"

text \<open>The only commands the invariant excludes name no node as primary.\<close>

fun command_ok :: "topology_command \<Rightarrow> bool" where
  "command_ok (SetPrimary n _ _) \<longleftrightarrow> n \<noteq> []"
| "command_ok _ \<longleftrightarrow> True"

text \<open>What two processes that applied the same log agree on.\<close>

definition erase_clock :: "cluster_topology \<Rightarrow> cluster_topology" where
  "erase_clock t = t\<lparr>last_changed_at := 0\<rparr>"

definition erase_sm :: "'m topology_state_machine \<Rightarrow> cluster_topology \<times> log_id option \<times> 'm stored_membership" where
  "erase_sm sm = (erase_clock (state sm), last_log sm, membership sm)"

locale replicated_machine =
  fixes step :: "'c \<Rightarrow> 's \<Rightarrow> 's"
    and inv :: "'s \<Rightarrow> bool"
    and ok :: "'c \<Rightarrow> bool"
    and view :: "'s \<Rightarrow> 'v"
    and content :: "'c \<Rightarrow> 'p"
  assumes step_inv: "inv s \<Longrightarrow> ok c \<Longrightarrow> inv (step c s)"
    and step_view: "view s = view s' \<Longrightarrow> content c = content c' \<Longrightarrow> view (step c s) = view (step c' s')"
begin

lemma run_inv: "inv s \<Longrightarrow> list_all ok cs \<Longrightarrow> inv (fold step cs s)"
  by (induction cs arbitrary: s) (auto simp: step_inv)

lemma run_view:
  "view s = view s' \<Longrightarrow> map content cs = map content cs' \<Longrightarrow>
    view (fold step cs s) = view (fold step cs' s')"
proof (induction cs arbitrary: s s' cs')
  case (Cons c cs)
  then obtain d ds where d: "cs' = d # ds" "content c = content d" "map content cs = map content ds"
    by (cases cs') auto
  then show ?case using Cons.IH [OF step_view [OF Cons.prems(1) d(2)] d(3)] by simp
qed simp

end


section \<open>Lemmas\<close>

subsection \<open>One command\<close>

lemma single_primary_insert:
  "single_primary t \<Longrightarrow> r \<noteq> Primary \<Longrightarrow> single_primary (t\<lparr>node_roles := hm_insert n r (node_roles t)\<rparr>)"
  by (auto simp: single_primary_def hm_simps)

lemma apply_body_single_primary:
  "single_primary t \<Longrightarrow> command_ok cmd \<Longrightarrow> single_primary (apply_body cmd t)"
proof (cases cmd)
  case (SetPrimary n l tl)
  then show "single_primary t \<Longrightarrow> command_ok cmd \<Longrightarrow> single_primary (apply_body cmd t)"
    by (auto simp: single_primary_def hm_simps Let_def split: if_splits)
qed (auto simp: single_primary_def hm_simps Let_def record_failover_def hm_get_or_def
       split: option.splits if_splits)

lemma apply_body_maps_wf: "maps_wf t \<Longrightarrow> maps_wf (apply_body cmd t)"
  by (cases cmd) (auto simp: maps_wf_def Let_def record_failover_def)

lemma apply_body_configs_keyed: "configs_keyed t \<Longrightarrow> configs_keyed (apply_body cmd t)"
  by (cases cmd) (auto simp: configs_keyed_def Let_def record_failover_def hm_simps split: if_splits)

lemma sorted_take_desc:
  "sorted_wrt (\<ge>) (map f xs) \<Longrightarrow> sorted_wrt (\<ge>) (map f (take n xs))"
  by (simp add: sorted_wrt_take take_map [symmetric])

lemma sorted_filter_desc:
  "sorted_wrt (\<ge>) (map f xs) \<Longrightarrow> sorted_wrt (\<ge>) (map f (filter P xs))"
  by (induction xs) auto

lemma apply_body_backups_ok: "backups_ok t \<Longrightarrow> backups_ok (apply_body cmd t)"
proof (cases cmd)
  case (AddBackupManifest m)
  then show ?thesis
    by (simp add: backups_ok_def sorted_take_desc sorted_sort_desc_by)
next
  case (RemoveBackupManifest b)
  then show "backups_ok t \<Longrightarrow> backups_ok (apply_body cmd t)"
    by (auto simp: backups_ok_def intro: sorted_filter_desc le_trans [OF length_filter_le])
qed (auto simp: backups_ok_def Let_def record_failover_def)

lemma apply_body_history:
  "length (failover_history t) \<le> FAILOVER_HISTORY_MAX \<Longrightarrow>
    length (failover_history (apply_body cmd t)) \<le> FAILOVER_HISTORY_MAX"
  by (cases cmd) (auto simp: Let_def failover_history_record)

lemma topology_inv_clock: "topology_inv (t\<lparr>version := v, last_changed_at := now\<rparr>) = topology_inv t"
  by (simp add: topology_inv_def single_primary_def maps_wf_def configs_keyed_def backups_ok_def)

lemma apply_body_inv: "topology_inv t \<Longrightarrow> command_ok cmd \<Longrightarrow> topology_inv (apply_body cmd t)"
  by (simp add: topology_inv_def apply_body_single_primary apply_body_maps_wf
        apply_body_configs_keyed apply_body_backups_ok apply_body_history)

lemma apply_command_inv: "topology_inv t \<Longrightarrow> command_ok cmd \<Longrightarrow> topology_inv (apply_command now cmd t)"
  by (simp add: apply_command_def apply_body_inv topology_inv_clock)

lemma default_topology_inv: "topology_inv default_topology"
  by (simp add: topology_inv_def single_primary_def maps_wf_def configs_keyed_def backups_ok_def
        default_topology_def FAILOVER_HISTORY_MAX_def)

lemma version_apply_body [simp]: "version (apply_body cmd t) = version t"
  by (cases cmd) (auto simp: Let_def record_failover_def)

lemma version_apply_command: "version (apply_command now cmd t) = version t + 1"
  by (simp add: apply_command_def)

lemma apply_body_erase:
  "apply_body cmd (t\<lparr>last_changed_at := n\<rparr>) = (apply_body cmd t)\<lparr>last_changed_at := n\<rparr>"
  by (cases cmd) (auto simp: Let_def record_failover_def)

lemma erase_apply_command:
  "erase_clock (apply_command now cmd t) = apply_command 0 cmd (erase_clock t)"
  by (simp add: erase_clock_def apply_command_def flip: apply_body_erase)

interpretation topo: replicated_machine "\<lambda>(now, cmd). apply_command now cmd" topology_inv
  "\<lambda>(now, cmd). command_ok cmd" erase_clock snd
proof unfold_locales
  fix s s' :: cluster_topology and c c' :: "int \<times> topology_command"
  assume "erase_clock s = erase_clock s'" "snd c = snd c'"
  then show "erase_clock ((case c of (now, cmd) \<Rightarrow> apply_command now cmd) s)
    = erase_clock ((case c' of (now, cmd) \<Rightarrow> apply_command now cmd) s')"
    by (cases c; cases c') (simp add: erase_apply_command)
qed (auto simp: apply_command_inv)

subsection \<open>Entries\<close>

fun entry_ok :: "'m entry \<Rightarrow> bool" where
  "entry_ok e = (case entry_payload e of Normal cmd \<Rightarrow> command_ok cmd | _ \<Rightarrow> True)"

definition sm_inv :: "'m topology_state_machine \<Rightarrow> bool" where
  "sm_inv sm \<longleftrightarrow> topology_inv (state sm) \<and> 0 < receivers sm \<and> current_topology sm = state sm"

text \<open>The states a process can reach: it applies entries and installs snapshots.\<close>

inductive sm_reachable ::
  "('b \<Rightarrow> 'e + 'm state_machine_snapshot) \<Rightarrow> 'm \<Rightarrow> 'm topology_state_machine \<Rightarrow> bool"
  for from_slice m where
  started: "sm_reachable from_slice m (new_state_machine m)"
| applied: "sm_reachable from_slice m sm \<Longrightarrow> sm_reachable from_slice m (apply_entry now e sm)"
| installed: "sm_reachable from_slice m sm \<Longrightarrow>
    install_snapshot_from from_slice meta data sm = (r, sm') \<Longrightarrow> sm_reachable from_slice m sm'"

lemma receivers_watch_send [simp]: "receivers (watch_send t sm) = receivers sm"
  and state_watch_send [simp]: "state (watch_send t sm) = state sm"
  and last_log_watch_send [simp]: "last_log (watch_send t sm) = last_log sm"
  and membership_watch_send [simp]: "membership (watch_send t sm) = membership sm"
  by (simp_all add: watch_send_def)

lemma current_watch_send: "0 < receivers sm \<Longrightarrow> current_topology (watch_send t sm) = t"
  by (simp add: watch_send_def current_topology_def)

lemma current_topology_frame [simp]:
  "current_topology (sm\<lparr>last_log := l\<rparr>) = current_topology sm"
  "current_topology (sm\<lparr>membership := m\<rparr>) = current_topology sm"
  by (simp_all add: current_topology_def)

lemma apply_entry_inv: "sm_inv sm \<Longrightarrow> entry_ok e \<Longrightarrow> sm_inv (apply_entry now e sm)"
  by (auto simp: sm_inv_def apply_entry_def Let_def apply_command_inv current_watch_send
      split: payload.splits)

lemma apply_entry_erase:
  assumes "erase_sm sm = erase_sm sm'"
  shows "erase_sm (apply_entry now e sm) = erase_sm (apply_entry now' e sm')"
  using assms by (auto simp: erase_sm_def apply_entry_def Let_def erase_apply_command split: payload.splits)

interpretation entries: replicated_machine "\<lambda>(now, e). apply_entry now e" sm_inv
  "\<lambda>(now, e). entry_ok e" erase_sm snd
proof unfold_locales
  fix s s' :: "'m topology_state_machine" and c c' :: "int \<times> 'm entry"
  assume "erase_sm s = erase_sm s'" "snd c = snd c'"
  then show "erase_sm ((case c of (now, e) \<Rightarrow> apply_entry now e) s)
    = erase_sm ((case c' of (now, e) \<Rightarrow> apply_entry now e) s')"
    using apply_entry_erase [of s s' "fst c" "snd c" "fst c'"] by (simp add: case_prod_beta)
qed (simp add: case_prod_beta apply_entry_inv)

lemma apply_entries_fold: "snd (apply_entries es sm) = fold (\<lambda>(now, e). apply_entry now e) es sm"
  by (induction es sm rule: apply_entries.induct) (auto simp: Let_def split: prod.splits)

lemma new_state_machine_inv: "sm_inv (new_state_machine m)"
  by (simp add: sm_inv_def new_state_machine_def current_topology_def default_topology_inv)

lemma install_built_snapshot:
  assumes "build_snapshot_data to_vec show_leader sm = Inr (meta, data)"
    and "\<And>x b. to_vec x = Inr b \<Longrightarrow> from_slice b = Inr x"
  shows "install_snapshot_from from_slice meta data sm' =
    (Inr (), watch_send (state sm) (sm'\<lparr>state := state sm, membership := membership sm,
       last_log := last_log sm\<rparr>))"
  using assms
  by (auto simp: build_snapshot_data_def install_snapshot_from_def split: sum.splits)


section \<open>Properties\<close>



text \<open>C23.  Two processes that apply the same commands from the same topology, each
  reading its own clock, agree on the whole topology except the time of the last
  change.\<close>

theorem replicas_agree:
  assumes "map snd cmds = map snd cmds'"
  shows "erase_clock (fold (\<lambda>(now, cmd). apply_command now cmd) cmds t)
       = erase_clock (fold (\<lambda>(now, cmd). apply_command now cmd) cmds' t)"
  using topo.run_view [OF refl assms] .

theorem replicas_agree_witness:
  "let a = fold (\<lambda>(now, cmd). apply_command now cmd) [(1, SetPrimary ''a'' 7 1)] default_topology;
       b = fold (\<lambda>(now, cmd). apply_command now cmd) [(2, SetPrimary ''a'' 7 1)] default_topology
   in erase_clock a = erase_clock b \<and> last_changed_at a \<noteq> last_changed_at b"
  unfolding Let_def
  by (rule conjI, rule replicas_agree) (simp_all add: apply_command_def Let_def)

text \<open>The version counts the commands applied, modulo the 64-bit width.\<close>

theorem version_counts_commands:
  "version (fold (\<lambda>(now, cmd). apply_command now cmd) cmds t) = version t + of_nat (length cmds)"
  by (induction cmds arbitrary: t) (auto simp: version_apply_command)

text \<open>C22.  A follower that installs a snapshot of the leader's machine and then
  applies the rest of the log, with its own clock, reaches the leader's topology
  (the time of the last change apart), last applied log id and membership,
  whatever it held before.  The serialiser is assumed to read back what it wrote.\<close>

theorem snapshot_catch_up:
  assumes "\<And>x b. to_vec x = Inr b \<Longrightarrow> from_slice b = Inr x"
    and "build_snapshot_data to_vec show_leader (snd (apply_entries es sm)) = Inr (meta, data)"
    and "install_snapshot_from from_slice meta data follower = (r, installed)"
    and "map snd rest = map snd rest'"
  shows "r = Inr () \<and> erase_sm (snd (apply_entries rest' installed))
                    = erase_sm (snd (apply_entries (es @ rest) sm))"
proof -
  let ?lead = "snd (apply_entries es sm)"
  have "r = Inr ()" "erase_sm installed = erase_sm ?lead"
    using install_built_snapshot [OF assms(2,1), where sm' = follower] assms(3)
    by (auto simp: erase_sm_def)
  moreover have "erase_sm (fold (\<lambda>(now, e). apply_entry now e) rest' installed)
      = erase_sm (fold (\<lambda>(now, e). apply_entry now e) rest ?lead)"
    by (rule entries.run_view) (simp_all add: calculation assms(4))
  ultimately show ?thesis by (simp add: apply_entries_fold)
qed

theorem snapshot_catch_up_witness:
  "let es = [(1, \<lparr>entry_log_id = \<lparr>leader_id = (1, 1), log_index = 1\<rparr>, entry_payload = Normal (MarkOffline ''a'')\<rparr>)];
       rest = (\<lambda>now. [(now, \<lparr>entry_log_id = \<lparr>leader_id = (1, 1), log_index = 2\<rparr>, entry_payload = Membership True\<rparr>)]);
       fresh = new_state_machine False;
       lead = snd (apply_entries es fresh);
       meta = \<lparr>last_log_id = last_log lead, last_membership = membership lead, snapshot_id = snapshot_name (\<lambda>_. ''1'') \<lparr>leader_id = (1, 1), log_index = 1\<rparr>\<rparr>;
       data = \<lparr>snap_meta = membership lead, snap_topology = state lead\<rparr>
   in erase_sm (snd (apply_entries (rest 9) (snd (install_snapshot_from (Inr :: _ \<Rightarrow> string + _) meta data fresh))))
    = erase_sm (snd (apply_entries (es @ rest 2) fresh))"
proof -
  let ?es = "[(1, \<lparr>entry_log_id = \<lparr>leader_id = (1, 1), log_index = 1\<rparr>, entry_payload = Normal (MarkOffline ''a'')\<rparr>)]"
  let ?lead = "snd (apply_entries ?es (new_state_machine False))"
  have "build_snapshot_data (Inr :: _ \<Rightarrow> string + _) (\<lambda>_. ''1'') ?lead =
    Inr (\<lparr>last_log_id = last_log ?lead, last_membership = membership ?lead, snapshot_id = snapshot_name (\<lambda>_. ''1'') \<lparr>leader_id = (1, 1), log_index = 1\<rparr>\<rparr>,
         \<lparr>snap_meta = membership ?lead, snap_topology = state ?lead\<rparr>)"
    by (simp add: build_snapshot_data_def apply_entry_def Let_def)
  from snapshot_catch_up [OF _ this prod.collapse [symmetric], where from_slice = Inr, THEN conjunct2]
  show ?thesis unfolding Let_def by this simp_all
qed

text \<open>C24.  However entries are applied and snapshots installed, subscribers of the
  watch channel see exactly the applied topology.\<close>

theorem published_topology_is_applied:
  assumes "sm_reachable from_slice m sm"
  shows "current_topology sm = state sm"
proof -
  from assms have "0 < receivers sm \<and> current_topology sm = state sm"
  proof induction
    case started
    then show ?case by (simp add: new_state_machine_def current_topology_def)
  next
    case (applied sm now e)
    then show ?case
      by (auto simp: apply_entry_def Let_def current_watch_send split: payload.splits)
  next
    case (installed sm meta data r sm')
    then show ?case
      by (auto simp: install_snapshot_from_def current_watch_send split: sum.splits)
  qed
  then show ?thesis ..
qed

theorem published_topology_is_applied_witness:
  "let sm = apply_entry 5 \<lparr>entry_log_id = \<lparr>leader_id = (1, 1), log_index = 1\<rparr>,
              entry_payload = Normal (MarkOffline ''a'')\<rparr> (new_state_machine ())
   in current_topology sm = state sm \<and> hm_get (node_roles (state sm)) ''a'' = Some Offline"
  unfolding Let_def
proof
  let ?sm = "apply_entry 5 \<lparr>entry_log_id = \<lparr>leader_id = (1, 1), log_index = 1\<rparr>,
    entry_payload = Normal (MarkOffline ''a'')\<rparr> (new_state_machine ())"
  have "sm_reachable (Inr :: unit state_machine_snapshot \<Rightarrow> string + _) () ?sm"
    by (intro sm_reachable.applied sm_reachable.started)
  then show "current_topology ?sm = state ?sm" by (rule published_topology_is_applied)
qed (simp add: apply_entry_def Let_def new_state_machine_def default_topology_def apply_command_def)

end
