(* ===== verification/Raft_Storage.thy ===== *)
theory Raft_Storage
  imports State_Machine
begin

text \<open>
  The persistent Raft log (\<open>raft/storage.rs\<close>).  The embedded database is a
  parameter, a record of the operations the code calls on a tree of byte keys,
  with its documented laws as the assumptions of the locale \<open>sled_tree\<close>; so is
  the serialiser of entries, votes and log ids.  The log is shown to refine a
  finite map from indices to entries.
\<close>

section \<open>The interfaces the storage calls\<close>

datatype 'a bound = Included 'a | Excluded 'a | Unbounded

record ('t, 'e) tree_ops =
  tree_open :: "'t \<Rightarrow> 'e + unit"
  tree_get :: "bytes \<Rightarrow> 't \<Rightarrow> 'e + bytes option"
  tree_insert :: "bytes \<Rightarrow> bytes \<Rightarrow> 't \<Rightarrow> 'e + 't"
  tree_remove :: "bytes \<Rightarrow> 't \<Rightarrow> 'e + 't"
  tree_apply_batch :: "(bytes \<times> bytes) list \<Rightarrow> 't \<Rightarrow> 'e + 't"
  tree_range :: "bytes bound \<Rightarrow> bytes bound \<Rightarrow> 't \<Rightarrow> ('e + bytes \<times> bytes) list"
  tree_last :: "'t \<Rightarrow> 'e + (bytes \<times> bytes) option"
  tree_flush :: "'t \<Rightarrow> 'e + unit"

record ('m, 'v, 'e) codec =
  to_vec_entry :: "'m entry \<Rightarrow> 'e + bytes"
  from_slice_entry :: "bytes \<Rightarrow> 'e + 'm entry"
  to_vec_vote :: "'v \<Rightarrow> 'e + bytes"
  from_slice_vote :: "bytes \<Rightarrow> 'e + 'v"
  to_vec_log_id :: "log_id \<Rightarrow> 'e + bytes"
  from_slice_log_id :: "bytes \<Rightarrow> 'e + log_id"

section \<open>The storage\<close>

datatype 'e storage_error = IoRead 'e | IoWrite 'e

record 't sled_log_storage =
  logs :: 't
  meta :: 't

definition VOTE_KEY :: bytes where
  "VOTE_KEY = ''vote''"

definition PURGED_KEY :: bytes where
  "PURGED_KEY = ''purged''"

definition idx_key :: "u64 \<Rightarrow> bytes" where
  "idx_key i = be_bytes 8 (unat i)"

fun to_key_bound :: "u64 bound \<Rightarrow> bytes bound" where
  "to_key_bound (Included n) = Included (idx_key n)"
| "to_key_bound (Excluded n) = Excluded (idx_key n)"
| "to_key_bound Unbounded = Unbounded"

definition decode_entry :: "('m, 'v, 'e) codec \<Rightarrow> bytes \<Rightarrow> 'e storage_error + 'm entry" where
  "decode_entry c raw = map_err IoRead (from_slice_entry c raw)"

definition encode_entry :: "('m, 'v, 'e) codec \<Rightarrow> 'm entry \<Rightarrow> 'e storage_error + bytes" where
  "encode_entry c e = map_err IoWrite (to_vec_entry c e)"

definition get_entries_range ::
  "('t, 'e) tree_ops \<Rightarrow> ('m, 'v, 'e) codec \<Rightarrow> u64 bound \<Rightarrow> u64 bound \<Rightarrow> 't sled_log_storage
    \<Rightarrow> 'e storage_error + 'm entry list" where
  "get_entries_range ops c lo hi s =
    and_then (map_err IoRead (tree_open ops (logs s))) (\<lambda>_.
      collect_results
        (map (\<lambda>item. and_then (map_err IoRead item) (\<lambda>(k, v). decode_entry c v))
          (tree_range ops (to_key_bound lo) (to_key_bound hi) (logs s))))"

definition get_log_state ::
  "('t, 'e) tree_ops \<Rightarrow> ('m, 'v, 'e) codec \<Rightarrow> 't sled_log_storage
    \<Rightarrow> 'e storage_error + (log_id option \<times> log_id option)" where
  "get_log_state ops c s =
    and_then (map_err IoRead (tree_open ops (meta s))) (\<lambda>_.
    and_then (map_err IoRead (tree_open ops (logs s))) (\<lambda>_.
    and_then (map_err IoRead (tree_get ops PURGED_KEY (meta s))) (\<lambda>p.
    and_then (case p of None \<Rightarrow> Inr None
              | Some v \<Rightarrow> and_then (map_err IoRead (from_slice_log_id c v)) (Inr \<circ> Some)) (\<lambda>purged.
    and_then (map_err IoRead (tree_last ops (logs s))) (\<lambda>l.
    and_then (case l of None \<Rightarrow> Inr None
              | Some (k, v) \<Rightarrow> and_then (decode_entry c v) (Inr \<circ> Some \<circ> entry_log_id)) (\<lambda>last.
    Inr (purged, last)))))))"

definition save_vote ::
  "('t, 'e) tree_ops \<Rightarrow> ('m, 'v, 'e) codec \<Rightarrow> 'v \<Rightarrow> 't sled_log_storage
    \<Rightarrow> ('e storage_error + unit) \<times> 't sled_log_storage" where
  "save_vote ops c vote s =
    (case and_then (map_err IoRead (tree_open ops (meta s))) (\<lambda>_.
          and_then (map_err IoWrite (to_vec_vote c vote)) (\<lambda>b.
          map_err IoWrite (tree_insert ops VOTE_KEY b (meta s)))) of
       Inl e \<Rightarrow> (Inl e, s)
     | Inr m \<Rightarrow> (map_err IoWrite (tree_flush ops m), s\<lparr>meta := m\<rparr>))"

definition read_vote ::
  "('t, 'e) tree_ops \<Rightarrow> ('m, 'v, 'e) codec \<Rightarrow> 't sled_log_storage \<Rightarrow> 'e storage_error + 'v option" where
  "read_vote ops c s =
    and_then (map_err IoRead (tree_open ops (meta s))) (\<lambda>_.
    and_then (map_err IoRead (tree_get ops VOTE_KEY (meta s))) (\<lambda>p.
    case p of None \<Rightarrow> Inr None
    | Some v \<Rightarrow> and_then (map_err IoRead (from_slice_vote c v)) (Inr \<circ> Some)))"

definition append_entries ::
  "('t, 'e) tree_ops \<Rightarrow> ('m, 'v, 'e) codec \<Rightarrow> 'm entry list \<Rightarrow> 't sled_log_storage
    \<Rightarrow> ('e storage_error + unit) \<times> 't sled_log_storage" where
  "append_entries ops c es s =
    (case and_then (map_err IoRead (tree_open ops (logs s))) (\<lambda>_.
          and_then (collect_results (map (\<lambda>e. and_then (encode_entry c e)
            (\<lambda>b. Inr (idx_key (log_index (entry_log_id e)), b))) es)) (\<lambda>batch.
          map_err IoWrite (tree_apply_batch ops batch (logs s)))) of
       Inl e \<Rightarrow> (Inl e, s)
     | Inr t \<Rightarrow> (map_err IoWrite (tree_flush ops t), s\<lparr>logs := t\<rparr>))"

text \<open>The keys of a scan; items that could not be read are skipped.\<close>

definition readable_keys :: "('e + bytes \<times> bytes) list \<Rightarrow> bytes list" where
  "readable_keys items =
    List.map_filter (\<lambda>r. case r of Inl e \<Rightarrow> None | Inr (k, v) \<Rightarrow> Some k) items"

fun remove_keys ::
  "('t, 'e) tree_ops \<Rightarrow> bytes list \<Rightarrow> 't \<Rightarrow> ('e storage_error + unit) \<times> 't" where
  "remove_keys ops [] t = (Inr (), t)"
| "remove_keys ops (k # ks) t =
    (case tree_remove ops k t of
       Inl e \<Rightarrow> (Inl (IoWrite e), t)
     | Inr t' \<Rightarrow> remove_keys ops ks t')"

definition truncate_since ::
  "('t, 'e) tree_ops \<Rightarrow> log_id \<Rightarrow> 't sled_log_storage
    \<Rightarrow> ('e storage_error + unit) \<times> 't sled_log_storage" where
  "truncate_since ops l s =
    (case tree_open ops (logs s) of
       Inl e \<Rightarrow> (Inl (IoRead e), s)
     | Inr _ \<Rightarrow>
        (case remove_keys ops
                (readable_keys (tree_range ops (Included (idx_key (log_index l))) Unbounded (logs s)))
                (logs s) of
           (Inl e, t) \<Rightarrow> (Inl e, s\<lparr>logs := t\<rparr>)
         | (Inr _, t) \<Rightarrow> (map_err IoWrite (tree_flush ops t), s\<lparr>logs := t\<rparr>)))"

definition purge_upto ::
  "('t, 'e) tree_ops \<Rightarrow> ('m, 'v, 'e) codec \<Rightarrow> log_id \<Rightarrow> 't sled_log_storage
    \<Rightarrow> ('e storage_error + unit) \<times> 't sled_log_storage" where
  "purge_upto ops c l s =
    (case and_then (tree_open ops (logs s)) (\<lambda>_. tree_open ops (meta s)) of
       Inl e \<Rightarrow> (Inl (IoRead e), s)
     | Inr _ \<Rightarrow>
        (case remove_keys ops
                (readable_keys (tree_range ops Unbounded (Included (idx_key (log_index l))) (logs s)))
                (logs s) of
           (Inl e, t) \<Rightarrow> (Inl e, s\<lparr>logs := t\<rparr>)
         | (Inr _, t) \<Rightarrow>
            (case and_then (map_err IoWrite (to_vec_log_id c l)) (\<lambda>b.
                  map_err IoWrite (tree_insert ops PURGED_KEY b (meta s))) of
               Inl e \<Rightarrow> (Inl e, s\<lparr>logs := t\<rparr>)
             | Inr m \<Rightarrow>
                (and_then (map_err IoWrite (tree_flush ops t)) (\<lambda>_. map_err IoWrite (tree_flush ops m)),
                 s\<lparr>logs := t, meta := m\<rparr>))))"


section \<open>The abstract log\<close>

text \<open>
  The specification: a finite map from indices to entries, the last purged log
  id and the vote.
\<close>

datatype ('m, 'v) log_op =
    Append "'m entry list"
  | Truncate log_id
  | Purge log_id
  | Vote 'v

type_synonym ('m, 'v) abstract_log = "(u64 \<rightharpoonup> 'm entry) \<times> log_id option \<times> 'v option"

fun abs_step :: "('m, 'v) log_op \<Rightarrow> ('m, 'v) abstract_log \<Rightarrow> ('m, 'v) abstract_log" where
  "abs_step (Append es) (L, p, v) =
    (L ++ map_of (rev (map (\<lambda>e. (log_index (entry_log_id e), e)) es)), p, v)"
| "abs_step (Truncate l) (L, p, v) = (L |` {i. i < log_index l}, p, v)"
| "abs_step (Purge l) (L, p, v) = (L |` {i. log_index l < i}, Some l, v)"
| "abs_step (Vote w) (L, p, v) = (L, p, Some w)"

fun run_op ::
  "('t, 'e) tree_ops \<Rightarrow> ('m, 'v, 'e) codec \<Rightarrow> ('m, 'v) log_op \<Rightarrow> 't sled_log_storage
    \<Rightarrow> ('e storage_error + unit) \<times> 't sled_log_storage" where
  "run_op ops c (Append es) s = append_entries ops c es s"
| "run_op ops c (Truncate l) s = truncate_since ops l s"
| "run_op ops c (Purge l) s = purge_upto ops c l s"
| "run_op ops c (Vote v) s = save_vote ops c v s"

fun run_ops ::
  "('t, 'e) tree_ops \<Rightarrow> ('m, 'v, 'e) codec \<Rightarrow> ('m, 'v) log_op list \<Rightarrow> 't sled_log_storage
    \<Rightarrow> ('e storage_error + unit) \<times> 't sled_log_storage" where
  "run_ops ops c [] s = (Inr (), s)"
| "run_ops ops c (x # xs) s =
    (case run_op ops c x s of
       (Inl e, s') \<Rightarrow> (Inl e, s')
     | (Inr _, s') \<Rightarrow> run_ops ops c xs s')"

definition read_back :: "('b \<Rightarrow> 'e + 'a) \<Rightarrow> 'b option \<Rightarrow> 'a option" where
  "read_back dec b = (case b of None \<Rightarrow> None | Some x \<Rightarrow> (case dec x of Inl _ \<Rightarrow> None | Inr y \<Rightarrow> Some y))"

definition abs_store ::
  "('t \<Rightarrow> bytes \<rightharpoonup> bytes) \<Rightarrow> ('m, 'v, 'e) codec \<Rightarrow> 't sled_log_storage \<Rightarrow> ('m, 'v) abstract_log" where
  "abs_store contents c s =
    (\<lambda>i. read_back (from_slice_entry c) (contents (logs s) (idx_key i)),
     read_back (from_slice_log_id c) (contents (meta s) PURGED_KEY),
     read_back (from_slice_vote c) (contents (meta s) VOTE_KEY))"

text \<open>Every key of the log tree is the index of the entry stored under it.\<close>

definition store_wf ::
  "('t \<Rightarrow> bytes \<rightharpoonup> bytes) \<Rightarrow> ('m, 'v, 'e) codec \<Rightarrow> 't sled_log_storage \<Rightarrow> bool" where
  "store_wf contents c s \<longleftrightarrow>
    (\<forall>k b. contents (logs s) k = Some b \<longrightarrow>
      (\<exists>e. from_slice_entry c b = Inr e \<and> k = idx_key (log_index (entry_log_id e))))"

fun above :: "'a::linorder bound \<Rightarrow> 'a \<Rightarrow> bool" where
  "above (Included a) k \<longleftrightarrow> a \<le> k"
| "above (Excluded a) k \<longleftrightarrow> a < k"
| "above Unbounded k \<longleftrightarrow> True"

fun below :: "'a::linorder bound \<Rightarrow> 'a \<Rightarrow> bool" where
  "below (Included a) k \<longleftrightarrow> k \<le> a"
| "below (Excluded a) k \<longleftrightarrow> k < a"
| "below Unbounded k \<longleftrightarrow> True"

text \<open>
  The laws of the database tree: an ordered map from byte strings to byte
  strings whose successful writes take effect, and whose scans meet no fault.
\<close>

locale sled_tree =
  fixes ops :: "('t, 'e) tree_ops"
    and contents :: "'t \<Rightarrow> bytes \<rightharpoonup> bytes"
  assumes insert_law: "tree_insert ops k v t = Inr t' \<Longrightarrow> contents t' = (contents t)(k \<mapsto> v)"
    and remove_law: "tree_remove ops k t = Inr t' \<Longrightarrow> contents t' = (contents t)(k := None)"
    and batch_law: "tree_apply_batch ops kvs t = Inr t' \<Longrightarrow> contents t' = contents t ++ map_of (rev kvs)"
    and range_law: "\<exists>kvs. tree_range ops lo hi t = map Inr kvs \<and> sorted_wrt (<) (map fst kvs)
      \<and> set kvs = {(k, v). contents t k = Some v \<and> above lo k \<and> below hi k}"

locale entry_codec =
  fixes c :: "('m, 'v, 'e) codec"
  assumes entry_law: "to_vec_entry c x = Inr b \<Longrightarrow> from_slice_entry c b = Inr x"
    and vote_law: "to_vec_vote c v = Inr b \<Longrightarrow> from_slice_vote c b = Inr v"
    and log_id_law: "to_vec_log_id c l = Inr b \<Longrightarrow> from_slice_log_id c b = Inr l"

locale log_store = sled_tree ops contents + entry_codec c
  for ops :: "('t, 'e) tree_ops" and contents and c :: "('m, 'v, 'e) codec"


section \<open>Lemmas\<close>

lemma unat_256: "unat (i :: u64) < 256 ^ 8"
  using unsigned_less [of i, where 'a = nat] by simp

lemma idx_key_less [simp]: "idx_key i < idx_key j \<longleftrightarrow> i < j"
  by (simp add: idx_key_def be_bytes_less [OF unat_256 unat_256] word_less_nat_alt)

lemma idx_key_inj [simp]: "idx_key i = idx_key j \<longleftrightarrow> i = j"
  by (simp add: idx_key_def be_bytes_inj [OF unat_256 unat_256] word_unat_eq_iff [symmetric])

lemma idx_key_le [simp]: "idx_key i \<le> idx_key j \<longleftrightarrow> i \<le> j"
  by (simp add: le_less)

lemma bounds_idx_key [simp]:
  "above (to_key_bound lo) (idx_key i) = above lo i"
  "below (to_key_bound hi) (idx_key i) = below hi i"
  by (cases lo; simp) (cases hi; simp)

lemma readable_keys_Inr [simp]: "readable_keys (map Inr kvs) = map fst kvs"
  by (induction kvs) (auto simp: readable_keys_def)

lemma purged_vote_keys [simp]: "PURGED_KEY \<noteq> VOTE_KEY" "VOTE_KEY \<noteq> PURGED_KEY"
  by (simp_all add: PURGED_KEY_def VOTE_KEY_def)

context sled_tree
begin

lemma remove_keys_law:
  "remove_keys ops ks t = (Inr (), t') \<Longrightarrow> contents t' = contents t |` (- set ks)"
proof (induction ks arbitrary: t)
  case (Cons k ks)
  then obtain t1 where t1: "tree_remove ops k t = Inr t1" "remove_keys ops ks t1 = (Inr (), t')"
    by (auto split: sum.splits)
  have "contents t' = (contents t)(k := None) |` (- set ks)"
    by (simp only: Cons.IH [OF t1(2)] remove_law [OF t1(1)])
  then show ?case by (auto simp: restrict_map_def fun_eq_iff)
qed (simp add: restrict_map_def fun_eq_iff)

lemma remove_range_law:
  assumes "remove_keys ops (readable_keys (tree_range ops lo hi t)) t = (Inr (), t')"
  shows "contents t' = contents t |` {k. \<not> (above lo k \<and> below hi k)}"
proof -
  obtain kvs where kvs: "tree_range ops lo hi t = map Inr kvs"
    "set kvs = {(k, v). contents t k = Some v \<and> above lo k \<and> below hi k}"
    using range_law [of lo hi t] by auto
  have "contents t' = contents t |` (- fst ` set kvs)"
    using remove_keys_law [OF assms] by (simp add: kvs(1))
  moreover have "k \<in> fst ` set kvs \<longleftrightarrow> contents t k \<noteq> None \<and> above lo k \<and> below hi k" for k
    unfolding kvs(2) by force
  ultimately show ?thesis by (auto simp: restrict_map_def fun_eq_iff)
qed

end

text \<open>The entry an index maps to, and the encoded batch that stores it.\<close>

definition indexed :: "'m entry list \<Rightarrow> (u64 \<times> 'm entry) list" where
  "indexed es = map (\<lambda>e. (log_index (entry_log_id e), e)) es"

definition encodes :: "('m, 'v, 'e) codec \<Rightarrow> 'm entry \<Rightarrow> bytes \<times> bytes \<Rightarrow> bool" where
  "encodes c e kb \<longleftrightarrow> fst kb = idx_key (log_index (entry_log_id e)) \<and> to_vec_entry c e = Inr (snd kb)"

lemma collect_encoded:
  assumes "collect_results (map (\<lambda>e. and_then (encode_entry c e)
    (\<lambda>b. Inr (idx_key (log_index (entry_log_id e)), b))) es) = Inr batch"
  shows "list_all2 (encodes c) es batch"
proof -
  have "map (\<lambda>e. and_then (encode_entry c e)
    (\<lambda>b. Inr (idx_key (log_index (entry_log_id e)), b))) es = map Inr batch"
    using assms by (simp add: collect_results_Inr)
  then show ?thesis
  proof (induction es arbitrary: batch)
    case (Cons e es)
    then show ?case
      by (cases batch) (auto simp: encodes_def encode_entry_def and_then_Inr)
  qed simp
qed

context log_store
begin

lemma encoded_lookup:
  assumes "list_all2 (encodes c) es bs"
  shows "read_back (from_slice_entry c) (map_of bs (idx_key i)) = map_of (indexed es) i
    \<and> (map_of bs (idx_key i) = None \<longleftrightarrow> map_of (indexed es) i = None)"
  using assms
  by (induction rule: list_all2_induct)
    (auto simp: encodes_def indexed_def read_back_def dest: entry_law)

lemma encoded_keys:
  assumes "list_all2 (encodes c) es bs" "map_of bs k = Some b"
  shows "\<exists>e. from_slice_entry c b = Inr e \<and> k = idx_key (log_index (entry_log_id e))"
  using assms
  by (induction rule: list_all2_induct) (auto simp: encodes_def dest: entry_law split: if_splits)

lemma append_law:
  assumes "append_entries ops c es s = (Inr (), s')"
  shows "\<exists>bs. list_all2 (encodes c) (rev es) bs
    \<and> contents (logs s') = contents (logs s) ++ map_of bs \<and> meta s' = meta s"
proof -
  obtain batch t where
    "collect_results (map (\<lambda>e. and_then (encode_entry c e)
      (\<lambda>b. Inr (idx_key (log_index (entry_log_id e)), b))) es) = Inr batch"
    and t: "tree_apply_batch ops batch (logs s) = Inr t" "s' = s\<lparr>logs := t\<rparr>"
    using assms by (auto simp: append_entries_def and_then_Inr split: sum.splits)
  then have "list_all2 (encodes c) (rev es) (rev batch)"
    by (simp add: collect_encoded)
  then show ?thesis using batch_law [OF t(1)] t(2) by auto
qed

lemma append_sim:
  assumes "append_entries ops c es s = (Inr (), s')"
  shows "abs_store contents c s' = abs_step (Append es) (abs_store contents c s)"
proof -
  obtain bs where bs: "list_all2 (encodes c) (rev es) bs"
    "contents (logs s') = contents (logs s) ++ map_of bs" "meta s' = meta s"
    using append_law [OF assms] by auto
  have "read_back (from_slice_entry c) (contents (logs s') (idx_key i))
    = ((\<lambda>i. read_back (from_slice_entry c) (contents (logs s) (idx_key i)))
        ++ map_of (indexed (rev es))) i" for i
    using encoded_lookup [OF bs(1), of i]
    by (auto simp: bs(2) map_add_def split: option.splits)
  then show ?thesis
    by (simp add: abs_store_def bs(3) fun_eq_iff indexed_def rev_map)
qed

lemma append_wf:
  assumes "append_entries ops c es s = (Inr (), s')" "store_wf contents c s"
  shows "store_wf contents c s'"
  using append_law [OF assms(1)] assms(2) encoded_keys
  by (fastforce simp: store_wf_def map_add_Some_iff)

lemma truncate_law:
  assumes "truncate_since ops l s = (Inr (), s')"
  shows "contents (logs s') = contents (logs s) |` {k. k < idx_key (log_index l)} \<and> meta s' = meta s"
  using assms
  by (auto simp: truncate_since_def not_le dest: remove_range_law split: sum.splits prod.splits)

lemma purge_law:
  assumes "purge_upto ops c l s = (Inr (), s')"
  shows "contents (logs s') = contents (logs s) |` {k. idx_key (log_index l) < k}
    \<and> (\<exists>b. to_vec_log_id c l = Inr b \<and> contents (meta s') = (contents (meta s))(PURGED_KEY \<mapsto> b))"
  using assms
  by (auto simp: purge_upto_def and_then_Inr not_le
      dest!: remove_range_law insert_law split: sum.splits prod.splits)

lemma vote_law_store:
  assumes "save_vote ops c v s = (Inr (), s')"
  shows "logs s' = logs s
    \<and> (\<exists>b. to_vec_vote c v = Inr b \<and> contents (meta s') = (contents (meta s))(VOTE_KEY \<mapsto> b))"
  using assms by (auto simp: save_vote_def and_then_Inr dest!: insert_law split: sum.splits)

lemma run_op_sim:
  assumes "run_op ops c x s = (Inr (), s')"
  shows "abs_store contents c s' = abs_step x (abs_store contents c s)"
proof (cases x)
  case (Append es)
  then show ?thesis using assms append_sim by simp
next
  case (Truncate l)
  then show ?thesis using truncate_law [of l s s'] assms
    by (auto simp: abs_store_def restrict_map_def read_back_def fun_eq_iff)
next
  case (Purge l)
  then obtain b where "to_vec_log_id c l = Inr b"
    "contents (meta s') = (contents (meta s))(PURGED_KEY \<mapsto> b)"
    "contents (logs s') = contents (logs s) |` {k. idx_key (log_index l) < k}"
    using purge_law [of l s s'] assms by auto
  then show ?thesis using Purge
    by (auto simp: abs_store_def restrict_map_def read_back_def fun_eq_iff dest: log_id_law)
next
  case (Vote v)
  then obtain b where "to_vec_vote c v = Inr b"
    "contents (meta s') = (contents (meta s))(VOTE_KEY \<mapsto> b)" "logs s' = logs s"
    using vote_law_store [of v s s'] assms by auto
  then show ?thesis using Vote by (auto simp: abs_store_def read_back_def dest: vote_law)
qed

lemma store_wf_restrict:
  "store_wf contents c s \<Longrightarrow> contents (logs s') = contents (logs s) |` A \<Longrightarrow> store_wf contents c s'"
  by (auto simp: store_wf_def restrict_map_def)

lemma run_op_wf:
  "run_op ops c x s = (Inr (), s') \<Longrightarrow> store_wf contents c s \<Longrightarrow> store_wf contents c s'"
proof (cases x)
  case (Vote v)
  then show "run_op ops c x s = (Inr (), s') \<Longrightarrow> store_wf contents c s \<Longrightarrow> store_wf contents c s'"
    using vote_law_store [of v s s'] by (simp add: store_wf_def)
qed (auto dest: append_wf truncate_law purge_law intro: store_wf_restrict)

lemma run_ops_sim:
  "run_ops ops c xs s = (Inr (), s') \<Longrightarrow>
    abs_store contents c s' = fold abs_step xs (abs_store contents c s)
    \<and> (store_wf contents c s \<longrightarrow> store_wf contents c s')"
proof (induction xs arbitrary: s)
  case (Cons x xs)
  then obtain s1 where s1: "run_op ops c x s = (Inr (), s1)" "run_ops ops c xs s1 = (Inr (), s')"
    by (auto split: sum.splits prod.splits)
  then show ?case using Cons.IH [OF s1(2)] run_op_sim [OF s1(1)] run_op_wf [OF s1(1)] by simp
qed simp

lemma get_entries_range_law:
  assumes "get_entries_range ops c lo hi s = Inr es" "store_wf contents c s"
  shows "sorted_wrt (<) (map (\<lambda>e. log_index (entry_log_id e)) es)
    \<and> set es = {e. \<exists>i. above lo i \<and> below hi i \<and> fst (abs_store contents c s) i = Some e}"
proof -
  obtain kvs where kvs: "tree_range ops (to_key_bound lo) (to_key_bound hi) (logs s) = map Inr kvs"
    "sorted_wrt (<) (map fst kvs)"
    "set kvs = {(k, v). contents (logs s) k = Some v
      \<and> above (to_key_bound lo) k \<and> below (to_key_bound hi) k}"
    using range_law [of "to_key_bound lo" "to_key_bound hi" "logs s"] by auto
  have dec: "map (\<lambda>kv. from_slice_entry c (snd kv)) kvs = map Inr es"
  proof -
    have "map (\<lambda>kv. decode_entry c (snd kv)) kvs = map Inr es"
      using assms(1)
      by (simp add: get_entries_range_def and_then_Inr kvs(1) collect_results_Inr comp_def
          case_prod_beta)
    then show ?thesis
      by (induction kvs arbitrary: es) (auto simp: decode_entry_def Cons_eq_map_conv)
  qed
  have keys: "map fst kvs = map (\<lambda>e. idx_key (log_index (entry_log_id e))) es"
  proof (rule nth_equalityI)
    show len: "length (map fst kvs) = length (map (\<lambda>e. idx_key (log_index (entry_log_id e))) es)"
      using dec by (metis length_map)
    fix j assume j: "j < length (map fst kvs)"
    have "from_slice_entry c (snd (kvs ! j)) = Inr (es ! j)"
      using arg_cong [OF dec, of "\<lambda>l. l ! j"] j len by simp
    moreover have "contents (logs s) (fst (kvs ! j)) = Some (snd (kvs ! j))"
      using nth_mem [of j kvs] j unfolding kvs(3) by auto
    ultimately show "map fst kvs ! j = map (\<lambda>e. idx_key (log_index (entry_log_id e))) es ! j"
      using assms(2) j len unfolding store_wf_def by fastforce
  qed
  show ?thesis
  proof
    show "sorted_wrt (<) (map (\<lambda>e. log_index (entry_log_id e)) es)"
      using kvs(2) unfolding keys by (simp add: sorted_wrt_map)
    have "e \<in> set es \<longleftrightarrow> (\<exists>k v. (k, v) \<in> set kvs \<and> from_slice_entry c v = Inr e)" for e
      using arg_cong [OF dec, of "\<lambda>l. Inr e \<in> set l"] by force
    moreover have "fst (abs_store contents c s) i = Some e \<longleftrightarrow>
      (\<exists>v. contents (logs s) (idx_key i) = Some v \<and> from_slice_entry c v = Inr e)" for i e
      by (auto simp: abs_store_def read_back_def split: option.splits sum.splits)
    moreover have "(\<exists>k v. (k, v) \<in> set kvs \<and> from_slice_entry c v = Inr e) \<longleftrightarrow>
      (\<exists>i v. above lo i \<and> below hi i \<and> contents (logs s) (idx_key i) = Some v
        \<and> from_slice_entry c v = Inr e)" for e
      using assms(2) unfolding kvs(3) store_wf_def by fastforce
    ultimately show "set es =
      {e. \<exists>i. above lo i \<and> below hi i \<and> fst (abs_store contents c s) i = Some e}"
      by blast
  qed
qed

end

text \<open>
  A scan that fails is not an error of the truncation: unreadable entries stay in
  the log and the truncation is reported as done.
\<close>

lemma truncate_ignores_scan_errors:
  assumes "tree_open ops (logs s) = Inr ()" "tree_flush ops (logs s) = Inr ()"
    and "tree_range ops (Included (idx_key (log_index l))) Unbounded (logs s) = map Inl errs"
  shows "truncate_since ops l s = (Inr (), s)"
proof -
  have "readable_keys (map Inl errs) = []"
    by (induction errs) (auto simp: readable_keys_def)
  then show ?thesis using assms by (simp add: truncate_since_def)
qed

text \<open>
  An instance of the interfaces: a tree kept as an association list, scanned in
  key order, and a codec for blank entries of the zero leader.
\<close>

definition scan :: "bytes bound \<Rightarrow> bytes bound \<Rightarrow> (bytes, bytes) hashmap \<Rightarrow> (bytes \<times> bytes) list" where
  "scan lo hi t =
    map (\<lambda>k. (k, the (map_of t k))) (filter (\<lambda>k. above lo k \<and> below hi k) (sort (remdups (map fst t))))"

definition list_tree :: "((bytes, bytes) hashmap, string) tree_ops" where
  "list_tree =
    \<lparr>tree_open = (\<lambda>t. Inr ()),
     tree_get = (\<lambda>k t. Inr (map_of t k)),
     tree_insert = (\<lambda>k v t. Inr (AList.update k v t)),
     tree_remove = (\<lambda>k t. Inr (AList.delete k t)),
     tree_apply_batch = (\<lambda>kvs t. Inr (rev kvs @ t)),
     tree_range = (\<lambda>lo hi t. map Inr (scan lo hi t)),
     tree_last = (\<lambda>t. Inr (case scan Unbounded Unbounded t of [] \<Rightarrow> None | x # xs \<Rightarrow> Some (last (x # xs)))),
     tree_flush = (\<lambda>t. Inr ())\<rparr>"

definition blank_at :: "u64 \<Rightarrow> 'm entry" where
  "blank_at i = \<lparr>entry_log_id = \<lparr>leader_id = (0, 0), log_index = i\<rparr>, entry_payload = Blank\<rparr>"

definition zero_leader_id :: "u64 \<Rightarrow> log_id" where
  "zero_leader_id i = \<lparr>leader_id = (0, 0), log_index = i\<rparr>"

definition index_codec :: "(unit, bytes, string) codec" where
  "index_codec =
    \<lparr>to_vec_entry = (\<lambda>e. if e = blank_at (log_index (entry_log_id e))
       then Inr (be_bytes 8 (unat (log_index (entry_log_id e)))) else Inl ''entry''),
     from_slice_entry = (\<lambda>b. Inr (blank_at (of_nat (from_be_bytes b)))),
     to_vec_vote = Inr,
     from_slice_vote = Inr,
     to_vec_log_id = (\<lambda>l. if l = zero_leader_id (log_index l)
       then Inr (be_bytes 8 (unat (log_index l))) else Inl ''log id''),
     from_slice_log_id = (\<lambda>b. Inr (zero_leader_id (of_nat (from_be_bytes b))))\<rparr>"

lemma of_nat_be_bytes [simp]: "of_nat (from_be_bytes (be_bytes 8 (unat (i :: u64)))) = i"
  using unat_256 [of i] by (simp add: from_be_bytes_be_bytes)

lemma of_nat_idx_key [simp]: "of_nat (from_be_bytes (idx_key i)) = i"
  by (simp add: idx_key_def)

lemma list_tree_simps [simp]:
  "tree_open list_tree t = Inr ()" "tree_flush list_tree t = Inr ()"
  "tree_insert list_tree k v t = Inr (AList.update k v t)"
  "tree_remove list_tree k t = Inr (AList.delete k t)"
  by (simp_all add: list_tree_def)

lemma index_codec_simps [simp]:
  "to_vec_vote index_codec v = Inr v"
  "to_vec_log_id index_codec (zero_leader_id i) = Inr (idx_key i)"
  by (simp_all add: index_codec_def zero_leader_id_def idx_key_def)

lemma remove_keys_list_tree: "remove_keys list_tree ks t = (Inr (), fold AList.delete ks t)"
  by (induction ks arbitrary: t) auto

lemma append_list_tree:
  "append_entries list_tree index_codec (map blank_at is) s =
    (Inr (), s\<lparr>logs := rev (map (\<lambda>i. (idx_key i, idx_key i)) is) @ logs s\<rparr>)"
proof -
  have "collect_results (map (\<lambda>e. and_then (encode_entry index_codec e)
      (\<lambda>b. Inr (idx_key (log_index (entry_log_id e)), b))) (map blank_at is))
    = Inr (map (\<lambda>i. (idx_key i, idx_key i)) is)"
    by (induction "is") (auto simp: encode_entry_def index_codec_def blank_at_def idx_key_def)
  then show ?thesis by (simp add: append_entries_def list_tree_def)
qed

interpretation list_store: log_store list_tree map_of index_codec
proof unfold_locales
  fix lo hi and t :: "(bytes, bytes) hashmap"
  have "set (scan lo hi t) = {(k, v). map_of t k = Some v \<and> above lo k \<and> below hi k}"
    by (force simp: scan_def dom_map_of_conv_image_fst [symmetric])
  moreover have "sorted_wrt (<) (map fst (scan lo hi t))"
    by (auto simp: scan_def comp_def strict_sorted_iff intro!: sorted_wrt_filter)
  ultimately show "\<exists>kvs. tree_range list_tree lo hi t = map Inr kvs \<and> sorted_wrt (<) (map fst kvs)
      \<and> set kvs = {(k, v). map_of t k = Some v \<and> above lo k \<and> below hi k}"
    by (intro exI [of _ "scan lo hi t"]) (simp add: list_tree_def)
qed (auto simp: list_tree_def index_codec_def update_conv' delete_conv' split: if_splits)


section \<open>Properties\<close>



text \<open>Reading a range of the log after any such sequence on an empty store
  gives exactly the stored entries of the range, in strictly increasing order of
  their indices.\<close>

theorem read_range_in_order:
  assumes "log_store ops contents c"
    and "contents (logs s) = Map.empty"
    and "run_ops ops c xs s = (Inr (), s')"
    and "get_entries_range ops c lo hi s' = Inr es"
  shows "sorted_wrt (<) (map (\<lambda>e. log_index (entry_log_id e)) es)
    \<and> set es = {e. \<exists>i. above lo i \<and> below hi i \<and> fst (fold abs_step xs (abs_store contents c s)) i = Some e}"
proof -
  have "store_wf contents c s" using assms(2) by (simp add: store_wf_def)
  then have "store_wf contents c s'"
    "abs_store contents c s' = fold abs_step xs (abs_store contents c s)"
    using log_store.run_ops_sim [OF assms(1,3)] by auto
  then show ?thesis using log_store.get_entries_range_law [OF assms(1,4)] by simp
qed

theorem read_range_in_order_witness:
  "let xs = [Append [blank_at 256, blank_at 3]];
       s = snd (run_ops list_tree index_codec xs \<lparr>logs = [], meta = []\<rparr>);
       es = [blank_at 3, blank_at 256]
   in get_entries_range list_tree index_codec Unbounded (Included 256) s = Inr es
      \<and> set es = {e. \<exists>i. below (Included 256) i
          \<and> fst (fold abs_step xs (abs_store map_of index_codec \<lparr>logs = [], meta = []\<rparr>)) i = Some e}"
proof -
  let ?xs = "[Append [blank_at 256, blank_at 3]]"
  let ?s = "\<lparr>logs = [(idx_key 3, idx_key 3), (idx_key 256, idx_key 256)], meta = []\<rparr>"
  have run: "run_ops list_tree index_codec ?xs \<lparr>logs = [], meta = []\<rparr> = (Inr (), ?s)"
    using append_list_tree [of "[256, 3]"] by simp
  have read: "get_entries_range list_tree index_codec Unbounded (Included 256) ?s
      = Inr [blank_at 3, blank_at 256]"
    by (simp add: get_entries_range_def list_tree_def scan_def decode_entry_def index_codec_def)
  show ?thesis
    using read_range_in_order [OF list_store.log_store_axioms _ run read, THEN conjunct2] read
    unfolding Let_def run snd_conv by simp
qed

end
