(* ===== verification/Quorum_Lease.thy ===== *)
theory Quorum_Lease
  imports Prelude
begin

text \<open>
  The quorum lease that lets a proxy route (\<open>raft/lease.rs\<close>).  Instants are
  milliseconds since the lease was created; \<open>renewed\<close> is an unsigned 64-bit value
  and wraps.  A tick of the renewal task gets from its environment the voters the
  consensus library reports and the voters whose probe succeeded.
\<close>

section \<open>Definitions\<close>

record quorum_lease =
  renewed :: nat
  duration :: nat

definition new_lease :: "nat \<Rightarrow> quorum_lease" where
  "new_lease d = \<lparr>renewed = 0, duration = d\<rparr>"

definition millis_plus_one :: "nat \<Rightarrow> nat" where
  "millis_plus_one ms = (ms + 1) mod 2 ^ 64"

definition renew :: "nat \<Rightarrow> quorum_lease \<Rightarrow> quorum_lease" where
  "renew at l = l\<lparr>renewed := max (renewed l) (millis_plus_one at)\<rparr>"

definition is_held :: "nat \<Rightarrow> quorum_lease \<Rightarrow> bool" where
  "is_held now l \<longleftrightarrow> renewed l \<noteq> 0 \<and> millis_plus_one now - renewed l < duration l mod 2 ^ 64"

definition is_majority :: "nat \<Rightarrow> nat \<Rightarrow> bool" where
  "is_majority reached voters \<longleftrightarrow> voters div 2 < reached"

text \<open>
  One tick: when it started, this instance's id, the voters, and for each voter
  whether it has an address, a channel to it could be made and the probe answered.
\<close>

record tick =
  started :: nat
  self :: u64
  voters :: "u64 list"
  has_addr :: "u64 \<Rightarrow> bool"
  channel_ok :: "u64 \<Rightarrow> bool"
  probe_ok :: "u64 \<Rightarrow> bool"

definition probed :: "tick \<Rightarrow> u64 list" where
  "probed t = filter (\<lambda>v. has_addr t v \<and> channel_ok t v) (filter (\<lambda>v. v \<noteq> self t) (voters t))"

definition reached :: "tick \<Rightarrow> nat" where
  "reached t = 1 + length (filter (probe_ok t) (probed t))"

definition renewal_tick :: "tick \<Rightarrow> quorum_lease \<Rightarrow> quorum_lease" where
  "renewal_tick t l =
    (if self t \<in> set (voters t) then
       if is_majority (reached t) (length (voters t)) then renew (started t) l else l
     else l)"

text \<open>The voters a tick heard from, itself included.\<close>

definition heard :: "tick \<Rightarrow> u64 set" where
  "heard t = insert (self t) {v \<in> set (voters t). has_addr t v \<and> channel_ok t v \<and> probe_ok t v}"

definition grants :: "tick \<Rightarrow> bool" where
  "grants t \<longleftrightarrow> self t \<in> set (voters t) \<and> is_majority (reached t) (length (voters t))"


section \<open>Lemmas\<close>

lemma duration_renewal [simp]: "duration (renewal_tick t l) = duration l"
  by (simp add: renewal_tick_def renew_def)

lemma renewed_renewal: "renewed (renewal_tick t l) =
    (if grants t then max (renewed l) (millis_plus_one (started t)) else renewed l)"
  by (simp add: renewal_tick_def renew_def grants_def)

lemma renewed_fold:
  "renewed (fold renewal_tick ts l) = renewed l
    \<or> (\<exists>t \<in> set ts. grants t \<and> renewed (fold renewal_tick ts l) = millis_plus_one (started t))"
proof (induction ts arbitrary: l)
  case (Cons t ts)
  show ?case using Cons.IH [of "renewal_tick t l"]
    by (auto simp: renewed_renewal max_def split: if_splits)
qed simp

lemma duration_fold [simp]: "duration (fold renewal_tick ts l) = duration l"
  by (induction ts arbitrary: l) auto

lemma reached_card:
  assumes "distinct (voters t)" "self t \<in> set (voters t)"
  shows "reached t = card (heard t)"
proof -
  let ?xs = "filter (probe_ok t) (probed t)"
  have d: "distinct ?xs" "self t \<notin> set ?xs" using assms by (auto simp: probed_def)
  have "card (insert (self t) (set ?xs)) = 1 + length ?xs"
    using card_insert_disjoint [OF finite_set d(2)] distinct_card [OF d(1)] by linarith
  moreover have "insert (self t) (set ?xs) = heard t"
    by (auto simp: probed_def heard_def)
  ultimately show ?thesis by (simp add: reached_def)
qed

lemma majorities_meet:
  assumes "finite V" "A \<subseteq> V" "B \<subseteq> V" "is_majority (card A) (card V)" "is_majority (card B) (card V)"
  shows "A \<inter> B \<noteq> {}"
proof
  assume "A \<inter> B = {}"
  then have "card A + card B = card (A \<union> B)"
    using assms(1-3) by (metis card_Un_disjoint finite_subset)
  also have "\<dots> \<le> card V" using assms(1-3) by (simp add: card_mono)
  finally show False using assms(4,5) by (simp add: is_majority_def)
qed


section \<open>Properties\<close>

text \<open>C25.  While a lease is held, some tick that started less than the lease
  duration ago heard from a majority of the voters; so an instance cut off from
  the majority stops holding the lease within its duration.\<close>

theorem lease_backed_by_recent_majority:
  assumes "is_held now (fold renewal_tick ts (new_lease d))"
    and "now < 2 ^ 64 - 1" "\<forall>t \<in> set ts. started t \<le> now"
  shows "\<exists>t \<in> set ts. self t \<in> set (voters t)
    \<and> is_majority (reached t) (length (voters t)) \<and> now < started t + d"
proof -
  let ?l = "fold renewal_tick ts (new_lease d)"
  have held: "renewed ?l \<noteq> 0" "millis_plus_one now - renewed ?l < d mod 2 ^ 64"
    using assms(1) by (auto simp: is_held_def new_lease_def)
  have "renewed (new_lease d) = 0" by (simp add: new_lease_def)
  then obtain t where t: "t \<in> set ts" "grants t" "renewed ?l = millis_plus_one (started t)"
    using renewed_fold [of ts "new_lease d"] held(1) by auto
  have "started t \<le> now" using assms(3) t(1) by simp
  then have "now - started t < d mod 2 ^ 64"
    using held(2) assms(2) by (simp add: t(3) millis_plus_one_def)
  then have "now < started t + d"
    using mod_less_eq_dividend [of d "2 ^ 64"] by linarith
  then show ?thesis using t by (auto simp: grants_def)
qed

theorem lease_backed_by_recent_majority_witness:
  "let t = \<lparr>started = 40, self = 1, voters = [1, 2, 3], has_addr = (\<lambda>_. True),
            channel_ok = (\<lambda>_. True), probe_ok = (\<lambda>v. v = 3)\<rparr>
   in is_held 45 (fold renewal_tick [t] (new_lease 10)) \<and> (45::nat) < started t + 10"
proof -
  let ?t = "\<lparr>started = 40, self = 1, voters = [1, 2, 3], has_addr = (\<lambda>_. True),
    channel_ok = (\<lambda>_. True), probe_ok = (\<lambda>v. v = 3)\<rparr> :: tick"
  have "is_held 45 (fold renewal_tick [?t] (new_lease 10))"
    by (simp add: is_held_def new_lease_def renewal_tick_def is_majority_def reached_def probed_def
          renew_def millis_plus_one_def)
  from this lease_backed_by_recent_majority [OF this] show ?thesis by simp
qed

text \<open>Two instances that renewed their leases against the same voters heard
  from a common voter.\<close>

theorem lease_majorities_intersect:
  assumes "renewal_tick t l \<noteq> l" "renewal_tick t' l' \<noteq> l'"
    and "set (voters t) = set (voters t')" "distinct (voters t)" "distinct (voters t')"
  shows "heard t \<inter> heard t' \<noteq> {}"
proof (rule majorities_meet [of "set (voters t)"])
  have g: "grants t" "grants t'"
    using assms(1,2) by (auto simp: renewal_tick_def grants_def split: if_splits)
  then show "heard t \<subseteq> set (voters t)" "heard t' \<subseteq> set (voters t)"
    using assms(3) by (auto simp: heard_def grants_def)
  show "is_majority (card (heard t)) (card (set (voters t)))"
    using g(1) assms(4) by (simp add: grants_def distinct_card reached_card [symmetric])
  have "card (set (voters t)) = length (voters t')" using assms(3,5) by (metis distinct_card)
  then show "is_majority (card (heard t')) (card (set (voters t)))"
    using g(2) assms(5) by (simp add: grants_def reached_card [symmetric])
qed simp

theorem lease_majorities_intersect_witness:
  "let t = (\<lambda>me other. \<lparr>started = 40, self = me, voters = [1, 2, 3], has_addr = (\<lambda>_. True),
            channel_ok = (\<lambda>_. True), probe_ok = (\<lambda>v. v = other)\<rparr>)
   in heard (t 1 3) \<inter> heard (t 2 3) \<noteq> {}"
  unfolding Let_def
  by (rule lease_majorities_intersect [where l = "new_lease 9" and l' = "new_lease 9"])
    (simp_all add: new_lease_def renewal_tick_def is_majority_def reached_def probed_def
      renew_def millis_plus_one_def)

end
