(* ===== verification/Effects.thy ===== *)
theory Effects
  imports State_Machine "HOL-Library.State_Monad"
begin

text \<open>
  The calls the cluster code makes to the outside: the agents beside each
  Postgres (\<open>proto/agent.proto\<close>, \<open>agent_clients.rs\<close>), writes to the Raft log, SQL on
  the primary, clocks, and the state other tasks share.  An environment answers
  each call from a state of its own; it is a parameter of every definition, so a
  theorem holds for every behaviour of the agents and every failure.  The calls
  and answers are recorded in a trace.
\<close>

section \<open>Messages\<close>

record replica_status =
  application_name :: string
  rs_flush_lsn :: u64
  rs_replay_lsn :: u64
  rs_state :: string

record status_response =
  is_in_recovery :: bool
  received_lsn :: u64
  replayed_lsn :: u64
  sent_lsn :: u64
  timeline :: u32
  postgres_running :: bool
  replicas :: "replica_status list"
  st_replication_conninfo :: string
  st_parameters :: "(string, string) hashmap"
  st_lost_slots :: "string list"
  st_has_data :: bool
  st_backup_config_version :: string
  st_proxy_auth_version :: string

record seed_request =
  sr_primary_host :: string
  sr_primary_port :: nat
  sr_user :: string
  sr_password :: string
  sr_slot_name :: string
  sr_application_name :: string
  sr_force :: bool

datatype call =
    Connect string string
  | Evict string
  | GetStatus string
  | Promote string
  | Demote string string string
  | StopPostgres string string
  | SeedRpc string seed_request
  | RewindRpc string seed_request
  | RestoreRpc string bool seed_request "(string, string) hashmap"
  | SetParameters string "(string, string) hashmap"
  | SetProxyAuth string string string string
  | ConfigureBackups string "(string, string) hashmap" string
  | Heartbeat string
  | ClientWrite topology_command
  | PgConnect string
  | EnsureSlot string
  | Sleep nat
  | BeginDrain
  | EndDrain
  | UnixSeconds
  | InstantMs
  | CurrentTopology
  | TryBeginOp
  | OpInProgress
  | EndOp
  | SpawnSeed string
  | SpawnRejoin string
  | DetachRpc string
  | DropSlot string string
  | IsLeader

datatype answer =
    Done
  | Failed string
  | TimedOut
  | StatusIs status_response
  | Replied bool string
  | Seconds int
  | Millis nat
  | TopologyIs cluster_topology
  | Flag bool

type_synonym trace = "(call \<times> answer) list"
type_synonym 'e world = "'e \<times> trace"
type_synonym 'e environment = "'e \<Rightarrow> call \<Rightarrow> answer \<times> 'e"


section \<open>Programs\<close>

definition invoke :: "'e environment \<Rightarrow> call \<Rightarrow> ('e world, answer) state" where
  "invoke env c = State (\<lambda>(e, tr). let (a, e') = env e c in (a, (e', tr @ [(c, a)])))"

text \<open>Readings of an answer as the type the call returns.\<close>

fun as_ok :: "answer \<Rightarrow> string + unit" where
  "as_ok Done = Inr ()"
| "as_ok (Failed e) = Inl e"
| "as_ok _ = Inl ''no answer''"

fun as_status :: "answer \<Rightarrow> string + status_response" where
  "as_status (StatusIs s) = Inr s"
| "as_status (Failed e) = Inl e"
| "as_status _ = Inl ''no answer''"

text \<open>A reply with a \<open>success\<close> flag and an \<open>error\<close> text.\<close>

fun as_reply :: "answer \<Rightarrow> string + bool \<times> string" where
  "as_reply (Replied ok err) = Inr (ok, err)"
| "as_reply (Failed e) = Inl e"
| "as_reply _ = Inl ''no answer''"

fun as_seconds :: "answer \<Rightarrow> int" where
  "as_seconds (Seconds s) = s"
| "as_seconds _ = 0"

fun as_millis :: "answer \<Rightarrow> nat" where
  "as_millis (Millis m) = m"
| "as_millis _ = 0"

fun as_flag :: "answer \<Rightarrow> bool" where
  "as_flag (Flag b) = b"
| "as_flag _ = False"

fun as_topology :: "answer \<Rightarrow> cluster_topology" where
  "as_topology (TopologyIs t) = t"
| "as_topology _ = default_topology"

abbreviation ok :: "'a \<Rightarrow> ('s, string + 'a) state" where
  "ok x \<equiv> State_Monad.return (Inr x)"

abbreviation fail :: "string \<Rightarrow> ('s, string + 'a) state" where
  "fail e \<equiv> State_Monad.return (Inl e)"

abbreviation skip :: "('s, unit) state" where
  "skip \<equiv> State_Monad.return ()"

text \<open>The question mark operator on a program that returns a result.\<close>

definition try_bind ::
  "('s, string + 'a) state \<Rightarrow> ('a \<Rightarrow> ('s, string + 'b) state) \<Rightarrow> ('s, string + 'b) state" where
  "try_bind m f = State_Monad.bind m (\<lambda>r. case r of Inl e \<Rightarrow> fail e | Inr x \<Rightarrow> f x)"

definition call_ok :: "'e environment \<Rightarrow> call \<Rightarrow> ('e world, string + unit) state" where
  "call_ok env c = do { a \<leftarrow> invoke env c; State_Monad.return (as_ok a) }"

definition call_status :: "'e environment \<Rightarrow> string \<Rightarrow> ('e world, string + status_response) state" where
  "call_status env n = do { a \<leftarrow> invoke env (GetStatus n); State_Monad.return (as_status a) }"

definition call_reply :: "'e environment \<Rightarrow> call \<Rightarrow> ('e world, string + bool \<times> string) state" where
  "call_reply env c = do { a \<leftarrow> invoke env c; State_Monad.return (as_reply a) }"

fun for_each :: "('a \<Rightarrow> ('s, unit) state) \<Rightarrow> 'a list \<Rightarrow> ('s, unit) state" where
  "for_each f [] = State_Monad.return ()"
| "for_each f (x # xs) = do { f x; for_each f xs }"


section \<open>Weakest preconditions\<close>

definition wp :: "('s, 'a) state \<Rightarrow> ('a \<Rightarrow> 's \<Rightarrow> bool) \<Rightarrow> 's \<Rightarrow> bool" where
  "wp m Q s = (case run_state m s of (a, s') \<Rightarrow> Q a s')"

named_theorems wp_rules \<open>weakest preconditions of the program constructs\<close>

lemma wp_return [wp_rules]: "wp (State_Monad.return x) Q s = Q x s"
  by (simp add: wp_def)

lemma wp_bind [wp_rules]: "wp (State_Monad.bind m f) Q s = wp m (\<lambda>a. wp (f a) Q) s"
  by (simp add: wp_def split: prod.splits)

lemma wp_if [wp_rules]: "wp (if b then m else n) Q s = (if b then wp m Q s else wp n Q s)"
  by simp

lemma wp_try_bind [wp_rules]:
  "wp (try_bind m f) Q s = wp m (\<lambda>r. case r of Inl e \<Rightarrow> Q (Inl e) | Inr x \<Rightarrow> wp (f x) Q) s"
  by (simp add: try_bind_def wp_bind wp_return sum.case_distrib [of "\<lambda>m. wp m Q"] cong: sum.case_cong)
    (auto simp: wp_def split: sum.splits prod.splits)

lemma wp_mono: "wp m P s \<Longrightarrow> (\<And>a s'. P a s' \<Longrightarrow> Q a s') \<Longrightarrow> wp m Q s"
  by (auto simp: wp_def split: prod.splits)

lemma wp_invoke:
  "wp (invoke env c) Q (e, tr) = (case env e c of (a, e') \<Rightarrow> Q a (e', tr @ [(c, a)]))"
  by (simp add: wp_def invoke_def split: prod.splits)

lemma wp_invokeI [intro]:
  "(\<And>a e'. env e c = (a, e') \<Longrightarrow> Q a (e', tr @ [(c, a)])) \<Longrightarrow> wp (invoke env c) Q (e, tr)"
  by (simp add: wp_invoke split: prod.splits)


section \<open>Emitted traces\<close>

text \<open>
  \<open>emits m R\<close>: from every state, \<open>m\<close> appends to the trace a list \<open>new\<close> of calls with
  \<open>R r new\<close>, where \<open>r\<close> is what it returns.
\<close>

definition emits :: "('e world, 'a) state \<Rightarrow> ('a \<Rightarrow> trace \<Rightarrow> bool) \<Rightarrow> bool" where
  "emits m R \<longleftrightarrow> (\<forall>e tr. wp m (\<lambda>r w. \<exists>new. snd w = tr @ new \<and> R r new) (e, tr))"

lemma emits_return: "R x [] \<Longrightarrow> emits (State_Monad.return x) R"
  by (simp add: emits_def wp_return)

lemma emits_invoke: "(\<And>a. R a [(c, a)]) \<Longrightarrow> emits (invoke env c) R"
  by (simp add: emits_def wp_invoke split: prod.splits)

lemma emits_mono:
  assumes "emits m R" "\<And>r new. R r new \<Longrightarrow> R' r new"
  shows "emits m R'"
  unfolding emits_def
proof (intro allI)
  fix e tr
  have "wp m (\<lambda>r w. \<exists>new. snd w = tr @ new \<and> R r new) (e, tr)"
    using assms(1) by (simp add: emits_def)
  then show "wp m (\<lambda>r w. \<exists>new. snd w = tr @ new \<and> R' r new) (e, tr)"
    by (rule wp_mono) (use assms(2) in auto)
qed

lemma emits_bind:
  assumes "emits m R" "\<And>a n. R a n \<Longrightarrow> emits (f a) (\<lambda>r n'. R' r (n @ n'))"
  shows "emits (State_Monad.bind m f) R'"
  unfolding emits_def wp_bind
proof (intro allI)
  fix e tr
  have "wp m (\<lambda>r w. \<exists>new. snd w = tr @ new \<and> R r new) (e, tr)"
    using assms(1) by (simp add: emits_def)
  then show "wp m (\<lambda>a. wp (f a) (\<lambda>r w. \<exists>new. snd w = tr @ new \<and> R' r new)) (e, tr)"
  proof (rule wp_mono)
    fix a and w :: "'a world"
    assume "\<exists>new. snd w = tr @ new \<and> R a new"
    then obtain n where n: "snd w = tr @ n" "R a n" by blast
    have "wp (f a) (\<lambda>r w'. \<exists>new. snd w' = (tr @ n) @ new \<and> R' r (n @ new)) (fst w, tr @ n)"
      using assms(2) [OF n(2)] unfolding emits_def by blast
    then show "wp (f a) (\<lambda>r w'. \<exists>new. snd w' = tr @ new \<and> R' r new) w"
      unfolding n(1) [symmetric] prod.collapse
      by (rule wp_mono) (use n(1) in auto)
  qed
qed

lemma emits_try_bind:
  assumes "emits m R" "\<And>x n. R (Inl x) n \<Longrightarrow> R' (Inl x) n"
    and "\<And>x n. R (Inr x) n \<Longrightarrow> emits (f x) (\<lambda>r n'. R' r (n @ n'))"
  shows "emits (try_bind m f) R'"
  unfolding try_bind_def
proof (rule emits_bind [OF assms(1)])
  fix r n assume r: "R r n"
  show "emits (case r of Inl e \<Rightarrow> fail e | Inr x \<Rightarrow> f x) (\<lambda>r n'. R' r (n @ n'))"
  proof (cases r)
    case (Inl x)
    then have "R' (Inl x) (n @ [])" using assms(2) r by simp
    then have "emits (fail x) (\<lambda>r n'. R' r (n @ n'))" by (rule emits_return)
    then show ?thesis by (simp add: Inl)
  next
    case (Inr x)
    then show ?thesis using assms(3) [of x n] r by simp
  qed
qed

lemma emits_map_answer:
  "(\<And>a. R (g a) [(c, a)]) \<Longrightarrow> emits (do { a \<leftarrow> invoke env c; State_Monad.return (g a) }) R"
  by (simp add: emits_def wp_bind wp_invoke wp_return split: prod.splits)

lemma emits_call_ok: "(\<And>a. R (as_ok a) [(c, a)]) \<Longrightarrow> emits (call_ok env c) R"
  unfolding call_ok_def by (rule emits_map_answer)

lemma emits_call_reply: "(\<And>a. R (as_reply a) [(c, a)]) \<Longrightarrow> emits (call_reply env c) R"
  unfolding call_reply_def by (rule emits_map_answer)

lemma emits_call_status: "(\<And>a. R (as_status a) [(GetStatus n, a)]) \<Longrightarrow> emits (call_status env n) R"
  unfolding call_status_def by (rule emits_map_answer)

lemma as_status_Inr [simp]: "as_status a = Inr s \<longleftrightarrow> a = StatusIs s"
  by (cases a) auto

lemma as_reply_Inr [simp]: "as_reply a = Inr r \<longleftrightarrow> a = Replied (fst r) (snd r)"
  by (cases a) auto

lemma as_ok_Inr [simp]: "as_ok a = Inr u \<longleftrightarrow> a = Done"
  by (cases a) auto

text \<open>Traces and programs all of whose calls satisfy \<open>P\<close>.\<close>

definition calls :: "(call \<Rightarrow> bool) \<Rightarrow> trace \<Rightarrow> bool" where
  "calls P tr \<longleftrightarrow> (\<forall>x \<in> set tr. P (fst x))"

lemma calls_simps [simp]:
  "calls P []" "calls P (x # tr) \<longleftrightarrow> P (fst x) \<and> calls P tr"
  "calls P (tr @ tr') \<longleftrightarrow> calls P tr \<and> calls P tr'"
  by (auto simp: calls_def)

lemma calls_mono: "calls P tr \<Longrightarrow> (\<And>c. P c \<Longrightarrow> Q c) \<Longrightarrow> calls Q tr"
  by (auto simp: calls_def)

lemma calls_mem: "calls P tr \<Longrightarrow> (c, a) \<in> set tr \<Longrightarrow> P c"
  by (auto simp: calls_def)

definition emits_only :: "('e world, 'a) state \<Rightarrow> (call \<Rightarrow> bool) \<Rightarrow> bool" where
  "emits_only m P \<longleftrightarrow> emits m (\<lambda>_ n. calls P n)"

lemma emits_only_emits: "emits_only m P \<Longrightarrow> emits m (\<lambda>_ n. calls P n)"
  by (simp add: emits_only_def)

lemma emits_only_return: "emits_only (State_Monad.return x) P"
  unfolding emits_only_def by (rule emits_return) simp

lemma emits_only_bind:
  assumes "emits_only m P" "\<And>a. emits_only (f a) P"
  shows "emits_only (State_Monad.bind m f) P"
  unfolding emits_only_def
proof (rule emits_bind [OF emits_only_emits [OF assms(1)]])
  fix a and n :: trace assume n: "calls P n"
  show "emits (f a) (\<lambda>_ n'. calls P (n @ n'))"
    by (rule emits_mono [OF emits_only_emits [OF assms(2)]]) (use n in auto)
qed

lemma emits_only_case_sum:
  "(\<And>x. emits_only (f x) P) \<Longrightarrow> (\<And>x. emits_only (g x) P) \<Longrightarrow>
    emits_only (case r of Inl x \<Rightarrow> f x | Inr x \<Rightarrow> g x) P"
  by (cases r) auto

lemma emits_only_try_bind:
  "emits_only m P \<Longrightarrow> (\<And>a. emits_only (f a) P) \<Longrightarrow> emits_only (try_bind m f) P"
  unfolding try_bind_def
  by (rule emits_only_bind, assumption, rule emits_only_case_sum, rule emits_only_return, blast)

lemma emits_only_invoke: "P c \<Longrightarrow> emits_only (invoke env c) P"
  unfolding emits_only_def by (rule emits_invoke) simp

lemma emits_only_call_ok: "P c \<Longrightarrow> emits_only (call_ok env c) P"
  unfolding emits_only_def by (rule emits_call_ok) simp

lemma emits_only_call_reply: "P c \<Longrightarrow> emits_only (call_reply env c) P"
  unfolding emits_only_def by (rule emits_call_reply) simp

lemma emits_only_call_status: "P (GetStatus n) \<Longrightarrow> emits_only (call_status env n) P"
  unfolding emits_only_def by (rule emits_call_status) simp

lemma emits_only_for_each: "(\<And>x. x \<in> set xs \<Longrightarrow> emits_only (f x) P) \<Longrightarrow> emits_only (for_each f xs) P"
  by (induction xs) (auto intro!: emits_only_return emits_only_bind)

lemma emits_only_if:
  "emits_only m P \<Longrightarrow> emits_only n P \<Longrightarrow> emits_only (if b then m else n) P"
  by simp

lemma emits_only_case_prod:
  "(\<And>x y. emits_only (f x y) P) \<Longrightarrow> emits_only (case p of (x, y) \<Rightarrow> f x y) P"
  by (cases p) auto

lemma emits_only_case_option:
  "emits_only m P \<Longrightarrow> (\<And>x. emits_only (f x) P) \<Longrightarrow> emits_only (case r of None \<Rightarrow> m | Some x \<Rightarrow> f x) P"
  by (cases r) auto

lemmas emits_only_rules =
  emits_only_return emits_only_bind emits_only_try_bind emits_only_invoke emits_only_call_ok
  emits_only_call_reply emits_only_call_status emits_only_for_each emits_only_if
  emits_only_case_sum emits_only_case_prod emits_only_case_option

text \<open>Every call that satisfies \<open>P\<close> comes after a prefix that satisfies \<open>Q\<close>.\<close>

fun preceded :: "(call \<Rightarrow> bool) \<Rightarrow> (trace \<Rightarrow> bool) \<Rightarrow> trace \<Rightarrow> bool" where
  "preceded P Q [] \<longleftrightarrow> True"
| "preceded P Q (x # xs) \<longleftrightarrow> (P (fst x) \<longrightarrow> Q []) \<and> preceded P (\<lambda>b. Q (x # b)) xs"

lemma preceded_append [simp]:
  "preceded P Q (xs @ ys) \<longleftrightarrow> preceded P Q xs \<and> preceded P (\<lambda>b. Q (xs @ b)) ys"
  by (induction xs arbitrary: Q) auto

lemma precededD:
  "preceded P Q tr \<Longrightarrow> tr = before @ (c, a) # later \<Longrightarrow> P c \<Longrightarrow> Q before"
  by simp

lemma preceded_mono:
  "preceded P Q tr \<Longrightarrow> (\<And>b. Q b \<Longrightarrow> Q' b) \<Longrightarrow> preceded P Q' tr"
  by (induction tr arbitrary: Q Q') auto

lemma preceded_never: "calls (\<lambda>c. \<not> P c) tr \<Longrightarrow> preceded P Q tr"
  by (induction tr arbitrary: Q) auto

lemma preceded_always: "(\<And>b. Q b) \<Longrightarrow> preceded P Q tr"
  by (induction tr arbitrary: Q) auto

lemma emits_trace: "emits m R \<Longrightarrow> run_state m (e, []) = (r, (e', tr)) \<Longrightarrow> R r tr"
  unfolding emits_def wp_def by (auto dest!: spec [of _ e] spec [of _ "[]"])

end
