(* ===== verification/Failover.thy ===== *)
theory Failover
  imports Effects
begin

text \<open>
  Automatic failover (\<open>failover/\<close>): choosing the candidate from the live positions
  of the standbys, promoting it and verifying the promotion, recording the new
  primary, creating slots and repointing the other replicas; and the plan that
  seeds, restores or rejoins a node.  Calls that run concurrently are made one
  after the other in iteration order; logging and metrics are left out.
\<close>

section \<open>Candidate\<close>

definition eligible :: "cluster_topology \<Rightarrow> string \<Rightarrow> string \<times> node_role \<Rightarrow> (string \<times> string) option" where
  "eligible t failed = (\<lambda>(n, role).
     if n = failed \<or> role \<noteq> Replica then None
     else (case hm_get (node_configs t) n of
             None \<Rightarrow> None
           | Some cfg \<Rightarrow> if is_external cfg then None else Some (n, agent_addr cfg)))"

definition check_position :: "'e environment \<Rightarrow> string \<Rightarrow> string \<Rightarrow> ('e world, (string \<times> u64) option) state" where
  "check_position env n addr = do {
     c \<leftarrow> invoke env (Connect n addr);
     (case as_ok c of
        Inl _ \<Rightarrow> do { invoke env (Evict n); State_Monad.return None }
      | Inr _ \<Rightarrow> do {
          s \<leftarrow> invoke env (GetStatus n);
          (case as_status s of
             Inl _ \<Rightarrow> do { invoke env (Evict n); State_Monad.return None }
           | Inr st \<Rightarrow> State_Monad.return
               (if postgres_running st \<and> is_in_recovery st
                then Some (n, max (received_lsn st) (replayed_lsn st)) else None)) }) }"

fun collect_positions ::
  "'e environment \<Rightarrow> (string \<times> string) list \<Rightarrow> ('e world, (string \<times> u64) list) state" where
  "collect_positions env [] = State_Monad.return []"
| "collect_positions env ((n, addr) # rest) = do {
     p \<leftarrow> check_position env n addr;
     ps \<leftarrow> collect_positions env rest;
     State_Monad.return (case p of None \<Rightarrow> ps | Some x \<Rightarrow> x # ps) }"

definition live_positions ::
  "'e environment \<Rightarrow> cluster_topology \<Rightarrow> string \<Rightarrow> ('e world, (string \<times> u64) list) state" where
  "live_positions env t failed =
    collect_positions env (List.map_filter (eligible t failed) (node_roles t))"

definition position_key :: "cluster_topology \<Rightarrow> string \<times> u64 \<Rightarrow> u64 \<times> u32" where
  "position_key t = (\<lambda>(n, lsn).
     (lsn, case hm_get (node_configs t) n of None \<Rightarrow> 0 | Some c \<Rightarrow> priority c))"

definition rank_positions :: "cluster_topology \<Rightarrow> (string \<times> u64) list \<Rightarrow> (string \<times> u64) option" where
  "rank_positions t positions = max_by_key (position_key t) positions"

definition strict_standbys :: "cluster_topology \<Rightarrow> string \<Rightarrow> string list" where
  "strict_standbys t failed =
    map fst (filter (\<lambda>(n, cfg). n \<noteq> failed \<and> \<not> is_external cfg) (node_configs t))"

definition pick_live_candidate ::
  "'e environment \<Rightarrow> cluster_topology \<Rightarrow> string \<Rightarrow> ('e world, (string \<times> u64) option) state" where
  "pick_live_candidate env t failed = do {
     positions \<leftarrow> live_positions env t failed;
     State_Monad.return
       (if replication_mode t = SyncStrict \<and> length positions < length (strict_standbys t failed)
        then None else rank_positions t positions) }"


section \<open>Promotion\<close>

definition promote_node :: "'e environment \<Rightarrow> string \<Rightarrow> string \<Rightarrow> ('e world, string + unit) state" where
  "promote_node env n addr =
    try_bind (call_ok env (Connect n addr)) (\<lambda>_.
    try_bind (call_reply env (Promote n)) (\<lambda>(success, err).
      if success then ok () else fail (''promote failed for '' @ n @ '': '' @ err)))"

text \<open>\<open>left\<close> counts the attempts that remain of \<open>max_attempts\<close>.\<close>

definition pause :: "'e environment \<Rightarrow> nat \<Rightarrow> nat \<Rightarrow> ('e world, answer) state" where
  "pause env left interval = (if 0 < left then invoke env (Sleep interval) else State_Monad.return Done)"

fun verify_attempts ::
  "'e environment \<Rightarrow> string \<Rightarrow> string \<Rightarrow> nat \<Rightarrow> nat \<Rightarrow> nat \<Rightarrow> ('e world, string + unit) state" where
  "verify_attempts env n addr max_attempts interval 0 =
    fail (''node '' @ n @ '' did not become primary after '' @ show_radix 10 max_attempts @ '' attempts'')"
| "verify_attempts env n addr max_attempts interval (Suc left) =
    try_bind (call_ok env (Connect n addr)) (\<lambda>_. do {
      s \<leftarrow> call_status env n;
      (case s of
         Inr st \<Rightarrow>
           if \<not> is_in_recovery st \<and> postgres_running st then ok ()
           else do {
             pause env left interval;
             verify_attempts env n addr max_attempts interval left }
       | Inl _ \<Rightarrow> do {
           invoke env (Evict n);
           pause env left interval;
           verify_attempts env n addr max_attempts interval left }) })"

definition verify_promotion ::
  "'e environment \<Rightarrow> string \<Rightarrow> string \<Rightarrow> nat \<Rightarrow> nat \<Rightarrow> ('e world, string + unit) state" where
  "verify_promotion env n addr max_attempts interval =
    verify_attempts env n addr max_attempts interval max_attempts"


section \<open>Slots and repointing\<close>

definition ensure_slots_for_replicas ::
  "'e environment \<Rightarrow> string \<Rightarrow> string list \<Rightarrow> string \<Rightarrow> ('e world, unit) state" where
  "ensure_slots_for_replicas env url ids slot_prefix = do {
     c \<leftarrow> invoke env (PgConnect url);
     (case as_ok c of
        Inl _ \<Rightarrow> skip
      | Inr _ \<Rightarrow> for_each (\<lambda>n. do { invoke env (EnsureSlot (slot_prefix @ n)); skip }) ids) }"

fun repoint_replicas ::
  "'e environment \<Rightarrow> (string \<times> string) list \<Rightarrow> string \<Rightarrow> string \<Rightarrow> ('e world, (string \<times> string) list) state" where
  "repoint_replicas env [] info slot_prefix = State_Monad.return []"
| "repoint_replicas env ((n, addr) # rest) info slot_prefix = do {
     c \<leftarrow> call_ok env (Connect n addr);
     errs \<leftarrow> (case c of
        Inl e \<Rightarrow> do { invoke env (Evict n); State_Monad.return [(n, e)] }
      | Inr _ \<Rightarrow> do {
          r \<leftarrow> call_reply env (Demote n info (slot_prefix @ n));
          (case r of
             Inr (success, err) \<Rightarrow> State_Monad.return (if success then [] else [(n, ''demote RPC failed: '' @ err)])
           | Inl e \<Rightarrow> do { invoke env (Evict n); State_Monad.return [(n, e)] }) });
     rest_errs \<leftarrow> repoint_replicas env rest info slot_prefix;
     State_Monad.return (errs @ rest_errs) }"

definition build_failover_event ::
  "'e environment \<Rightarrow> string \<Rightarrow> string \<Rightarrow> nat \<Rightarrow> string \<Rightarrow> bool \<Rightarrow> ('e world, failover_event) state" where
  "build_failover_event env old new started why degraded = do {
     now \<leftarrow> invoke env UnixSeconds;
     ms \<leftarrow> invoke env InstantMs;
     State_Monad.return \<lparr>old_primary = old, new_primary = new, triggered_at = as_seconds now,
       duration_ms = of_nat (as_millis ms - started), reason = why, ran_degraded = degraded\<rparr> }"

definition record_event :: "failover_event \<Rightarrow> topology_command" where
  "record_event e = RecordFailover (old_primary e) (new_primary e) (triggered_at e) (duration_ms e)
     (reason e) (ran_degraded e)"

text \<open>The replicas to repoint: configured nodes with no role, unknown ones and replicas.\<close>

definition to_repoint :: "cluster_topology \<Rightarrow> string \<Rightarrow> string \<Rightarrow> (string \<times> string) list" where
  "to_repoint t failed cand =
    map (\<lambda>(n, cfg). (n, agent_addr cfg))
      (filter (\<lambda>(n, cfg). hm_get (node_roles t) n \<in> {Some Replica, Some Unknown, None})
        (filter (\<lambda>(n, cfg). n \<noteq> failed \<and> n \<noteq> cand) (node_configs t)))"

definition primary_url :: "string \<Rightarrow> string \<Rightarrow> string \<Rightarrow> string" where
  "primary_url user password addr = ''postgres://'' @ user @ '':'' @ password @ ''@'' @ addr @ ''/postgres''"


section \<open>Failover\<close>

definition after_promotion ::
  "'e environment \<Rightarrow> cluster_topology \<Rightarrow> string \<Rightarrow> string \<Rightarrow> string \<Rightarrow> string \<Rightarrow> string \<Rightarrow> node_config
    \<Rightarrow> nat \<Rightarrow> ('e world, unit) state" where
  "after_promotion env t failed repl_user repl_password slot_prefix cand cfg started = do {
     ev \<leftarrow> build_failover_event env failed cand started ''health_check_failure'' (sync_degraded t);
     invoke env (ClientWrite (record_event ev));
     (if to_repoint t failed cand \<noteq> [] then do {
        ensure_slots_for_replicas env (primary_url repl_user repl_password (postgres_addr cfg))
          (map fst (to_repoint t failed cand)) slot_prefix;
        repoint_replicas env (to_repoint t failed cand) (conninfo cfg repl_user repl_password) slot_prefix;
        skip }
      else skip) }"

definition trigger_failover ::
  "'e environment \<Rightarrow> cluster_topology \<Rightarrow> string \<Rightarrow> string \<Rightarrow> string \<Rightarrow> string \<Rightarrow> ('e world, unit) state" where
  "trigger_failover env t failed repl_user repl_password slot_prefix = do {
     started \<leftarrow> invoke env InstantMs;
     pick \<leftarrow> pick_live_candidate env t failed;
     (case pick of
        None \<Rightarrow> skip
      | Some (cand, at_lsn) \<Rightarrow>
         (case hm_get (node_configs t) cand of
            None \<Rightarrow> skip
          | Some cfg \<Rightarrow> do {
              p \<leftarrow> promote_node env cand (agent_addr cfg);
              (case p of
                 Inl _ \<Rightarrow> skip
               | Inr _ \<Rightarrow> do {
                   v \<leftarrow> verify_promotion env cand (agent_addr cfg) 3 500;
                   (case v of
                      Inl _ \<Rightarrow> skip
                    | Inr _ \<Rightarrow> do {
                        invoke env (ClientWrite (SetPrimary cand at_lsn 1));
                        after_promotion env t failed repl_user repl_password slot_prefix cand cfg
                          (as_millis started) }) }) })) }"


section \<open>Seeding\<close>

record seed_plan =
  sp_node_id :: string
  sp_agent_addr :: string
  sp_primary_host :: string
  sp_primary_port :: nat
  sp_primary_addr :: string
  sp_user :: string
  sp_password :: string
  sp_slot_name :: string

definition new_seed_plan ::
  "cluster_topology \<Rightarrow> string \<Rightarrow> string \<Rightarrow> string \<Rightarrow> string \<Rightarrow> string + seed_plan" where
  "new_seed_plan t n user password slot_prefix =
    (if n = primary_node_id t then Inl (n @ '' is the primary'')
     else and_then (ok_or (hm_get (node_configs t) n) (''node '' @ n @ '' not found'')) (\<lambda>node.
          and_then (ok_or (primary_postgres_addr t) ''the cluster has no primary'') (\<lambda>addr.
          and_then (ok_or (rsplit_once (CHR '':'') addr) (''primary address '' @ addr @ '' has no port'')) (\<lambda>(host, port).
          and_then (ok_or (from_str_radix 10 (2 ^ 32) port) ''invalid port'') (\<lambda>p.
          Inr \<lparr>sp_node_id = n, sp_agent_addr = agent_addr node, sp_primary_host = host,
               sp_primary_port = p, sp_primary_addr = addr, sp_user = user, sp_password = password,
               sp_slot_name = slot_prefix @ n\<rparr>)))))"

definition ensure_slot :: "'e environment \<Rightarrow> seed_plan \<Rightarrow> ('e world, string + unit) state" where
  "ensure_slot env p =
    try_bind (call_ok env (PgConnect (primary_url (sp_user p) (sp_password p) (sp_primary_addr p)))) (\<lambda>_.
      call_ok env (EnsureSlot (sp_slot_name p)))"

definition plan_request :: "seed_plan \<Rightarrow> bool \<Rightarrow> seed_request" where
  "plan_request p force =
    \<lparr>sr_primary_host = sp_primary_host p, sr_primary_port = sp_primary_port p, sr_user = sp_user p,
     sr_password = sp_password p, sr_slot_name = sp_slot_name p,
     sr_application_name = sp_node_id p, sr_force = force\<rparr>"

definition run_plan :: "'e environment \<Rightarrow> seed_plan \<Rightarrow> bool \<Rightarrow> ('e world, string + unit) state" where
  "run_plan env p force =
    try_bind (ensure_slot env p) (\<lambda>_.
    try_bind (call_ok env (Connect (sp_node_id p) (sp_agent_addr p))) (\<lambda>_.
    try_bind (call_reply env (SeedRpc (sp_node_id p) (plan_request p force))) (\<lambda>(success, err).
      if success then ok () else fail err)))"

definition run_from_backup ::
  "'e environment \<Rightarrow> seed_plan \<Rightarrow> (string, string) hashmap \<Rightarrow> bool \<Rightarrow> ('e world, string + unit) state" where
  "run_from_backup env p settings force =
    try_bind (ensure_slot env p) (\<lambda>_.
    try_bind (call_ok env (Connect (sp_node_id p) (sp_agent_addr p))) (\<lambda>_.
    try_bind (call_reply env (RestoreRpc (sp_node_id p) force (plan_request p False) settings))
      (\<lambda>(success, err). if success then ok () else fail err)))"

definition rejoin :: "'e environment \<Rightarrow> seed_plan \<Rightarrow> ('e world, string + unit) state" where
  "rejoin env p =
    try_bind (ensure_slot env p) (\<lambda>_.
    try_bind (call_ok env (Connect (sp_node_id p) (sp_agent_addr p))) (\<lambda>_.
    try_bind (call_reply env (RewindRpc (sp_node_id p) (plan_request p False))) (\<lambda>(success, err).
      if success then ok () else run_plan env p True)))"


section \<open>Lemmas\<close>

subsection \<open>Positions\<close>

text \<open>In the trace, the standby \<open>n\<close> answered with position \<open>l\<close>.\<close>

definition reports :: "trace \<Rightarrow> string \<Rightarrow> u64 \<Rightarrow> bool" where
  "reports tr n l \<longleftrightarrow> (\<exists>s. (GetStatus n, StatusIs s) \<in> set tr \<and> postgres_running s
     \<and> is_in_recovery s \<and> l = max (received_lsn s) (replayed_lsn s))"

lemma reports_append [simp]: "reports (a @ b) n l \<longleftrightarrow> reports a n l \<or> reports b n l"
  by (auto simp: reports_def)

lemma reports_Nil [simp]: "\<not> reports [] n l"
  by (simp add: reports_def)

lemma reports_Cons: "reports (x # xs) n l \<longleftrightarrow> reports [x] n l \<or> reports xs n l"
  by (auto simp: reports_def)

lemma reports_other: "(\<And>n. fst x \<noteq> GetStatus n) \<Longrightarrow> \<not> reports [x] n l"
  by (cases x) (auto simp: reports_def)

fun probe_call :: "call \<Rightarrow> bool" where
  "probe_call (Connect _ _) = True"
| "probe_call (Evict _) = True"
| "probe_call (GetStatus _) = True"
| "probe_call _ = False"

lemma emits_check_position:
  "emits (check_position env n addr) (\<lambda>r new. calls probe_call new
     \<and> (\<forall>m l. reports new m l \<longleftrightarrow> r = Some (m, l)) \<and> (\<forall>m l. r = Some (m, l) \<longrightarrow> m = n))"
  unfolding emits_def check_position_def wp_bind
  by (auto simp: wp_rules wp_invoke reports_def split: prod.splits sum.splits)

definition positions_spec :: "string list \<Rightarrow> (string \<times> u64) list \<Rightarrow> trace \<Rightarrow> bool" where
  "positions_spec names ps new \<longleftrightarrow> calls probe_call new
     \<and> (\<forall>m l. reports new m l \<longleftrightarrow> (m, l) \<in> set ps)
     \<and> set (map fst ps) \<subseteq> set names \<and> (distinct names \<longrightarrow> distinct (map fst ps))"

lemma emits_collect_positions:
  "emits (collect_positions env ns) (positions_spec (map fst ns))"
proof (induction ns)
  case Nil
  show ?case by (simp add: emits_return positions_spec_def)
next
  case (Cons a ns)
  obtain n addr where a: "a = (n, addr)" by (cases a)
  show ?case
    unfolding a collect_positions.simps
  proof (rule emits_bind [OF emits_check_position], rule emits_bind [OF Cons.IH], rule emits_return)
    fix p ps and new1 new2 :: trace
    assume "calls probe_call new1 \<and> (\<forall>m l. reports new1 m l \<longleftrightarrow> p = Some (m, l))
        \<and> (\<forall>m l. p = Some (m, l) \<longrightarrow> m = n)"
      and "positions_spec (map fst ns) ps new2"
    then show "positions_spec (map fst ((n, addr) # ns)) (case p of None \<Rightarrow> ps | Some x \<Rightarrow> x # ps)
        (new1 @ new2 @ [])"
      by (auto simp: positions_spec_def split: option.splits)
  qed
qed

text \<open>The nodes asked, as a list.\<close>

abbreviation asked :: "cluster_topology \<Rightarrow> string \<Rightarrow> (string \<times> string) list" where
  "asked t failed \<equiv> List.map_filter (eligible t failed) (node_roles t)"

lemma eligible_Some:
  "eligible t failed r = Some (n, addr) \<longleftrightarrow> r = (n, Replica) \<and> n \<noteq> failed
    \<and> (\<exists>cfg. hm_get (node_configs t) n = Some cfg \<and> \<not> is_external cfg \<and> addr = agent_addr cfg)"
  by (cases r) (auto simp: eligible_def split: option.splits)

lemma asked_mem:
  assumes "hm_wf (node_roles t)" "n \<in> fst ` set (asked t failed)"
  shows "n \<noteq> failed \<and> hm_get (node_roles t) n = Some Replica
    \<and> (\<exists>cfg. hm_get (node_configs t) n = Some cfg \<and> \<not> is_external cfg)"
  using assms(2) hm_mem_get [OF assms(1)] by (auto simp: set_map_filter eligible_Some)

lemma distinct_map_filter_fst:
  assumes "distinct (map fst rs)" "\<And>r y. f r = Some y \<Longrightarrow> fst y = fst r"
  shows "distinct (map fst (List.map_filter f rs))"
  using assms(1)
proof (induction rs)
  case (Cons r rs)
  have "fst y \<in> fst ` set rs" if y: "y \<in> set (List.map_filter f rs)" for y
  proof -
    obtain r where "r \<in> set rs" "f r = Some y" using y unfolding set_map_filter by blast
    then show ?thesis using assms(2) by fastforce
  qed
  then show ?case using Cons assms(2) [of r]
    by (auto simp: map_filter_simps split: option.splits)
qed (simp add: map_filter_simps)

lemma distinct_asked:
  assumes "hm_wf (node_roles t)"
  shows "distinct (map fst (asked t failed))"
  by (rule distinct_map_filter_fst) (use assms in \<open>auto simp: hm_wf_def eligible_Some\<close>)

subsection \<open>The choice\<close>

text \<open>
  What a trace of answers says of the chosen node: it answered, no answer ranks
  above its own, it is a configured replica other than the failed node and not
  external, and in the strict mode every standby answered.
\<close>

definition well_chosen :: "cluster_topology \<Rightarrow> string \<Rightarrow> trace \<Rightarrow> string \<Rightarrow> u64 \<Rightarrow> bool" where
  "well_chosen t failed tr n l \<longleftrightarrow>
     reports tr n l
   \<and> (\<forall>m l'. reports tr m l' \<longrightarrow> position_key t (m, l') \<le> position_key t (n, l))
   \<and> n \<noteq> failed \<and> hm_get (node_roles t) n = Some Replica
   \<and> (\<exists>cfg. hm_get (node_configs t) n = Some cfg \<and> \<not> is_external cfg)
   \<and> (replication_mode t = SyncStrict \<longrightarrow>
        (\<forall>m \<in> set (strict_standbys t failed). \<exists>l'. reports tr m l'))"

lemma set_strict_standbys:
  assumes "hm_wf (node_configs t)"
  shows "set (strict_standbys t failed) = {n. n \<noteq> failed
    \<and> (\<exists>cfg. hm_get (node_configs t) n = Some cfg \<and> \<not> is_external cfg)}"
  using hm_mem_get [OF assms] by (force simp: strict_standbys_def)

lemma distinct_strict_standbys:
  assumes "hm_wf (node_configs t)"
  shows "distinct (strict_standbys t failed)"
  using assms by (simp add: strict_standbys_def hm_wf_def distinct_map_filter)

lemma emits_pick_live_candidate:
  assumes "hm_wf (node_roles t)" "hm_wf (node_configs t)"
  shows "emits (pick_live_candidate env t failed) (\<lambda>r new. calls probe_call new
     \<and> (\<forall>n l. r = Some (n, l) \<longrightarrow> well_chosen t failed new n l))"
  unfolding pick_live_candidate_def live_positions_def
proof (rule emits_bind [OF emits_collect_positions], rule emits_return)
  fix ps and new :: trace
  assume "positions_spec (map fst (asked t failed)) ps new"
  then have ps: "calls probe_call new" "\<And>m l. reports new m l \<longleftrightarrow> (m, l) \<in> set ps"
    "fst ` set ps \<subseteq> fst ` set (asked t failed)" "distinct (map fst ps)"
    using distinct_asked [OF assms(1)] by (auto simp: positions_spec_def)
  have "well_chosen t failed new n l"
    if r: "rank_positions t ps = Some (n, l)"
      and len: "replication_mode t = SyncStrict \<Longrightarrow> length (strict_standbys t failed) \<le> length ps" for n l
  proof -
    have mem: "(n, l) \<in> set ps" and best: "\<And>y. y \<in> set ps \<Longrightarrow> position_key t y \<le> position_key t (n, l)"
      using last_max.pick_mem [OF r [unfolded rank_positions_def]]
        last_max.pick_le [OF r [unfolded rank_positions_def]] by simp_all
    have sub: "fst ` set ps \<subseteq> set (strict_standbys t failed)"
      using ps(3) asked_mem [OF assms(1)] set_strict_standbys [OF assms(2)] by blast
    have eq: "fst ` set ps = set (strict_standbys t failed)" if "replication_mode t = SyncStrict"
    proof (rule card_subset_eq [OF _ sub])
      show "card (fst ` set ps) = card (set (strict_standbys t failed))"
        using len [OF that] card_mono [OF _ sub] distinct_card [OF ps(4)]
          distinct_card [OF distinct_strict_standbys [OF assms(2)]] by simp
    qed simp
    have strict: "\<exists>l'. reports new m l'"
      if "replication_mode t = SyncStrict" "m \<in> set (strict_standbys t failed)" for m
    proof -
      have "m \<in> fst ` set ps" using eq [OF that(1)] that(2) by simp
      then show ?thesis unfolding ps(2) by auto
    qed
    have "n \<in> fst ` set (asked t failed)" using mem ps(3) by force
    from asked_mem [OF assms(1) this] show ?thesis
      using mem best strict unfolding well_chosen_def ps(2) by simp
  qed
  then show "calls probe_call (new @ [])
    \<and> (\<forall>n l. (if replication_mode t = SyncStrict \<and> length ps < length (strict_standbys t failed)
        then None else rank_positions t ps) = Some (n, l) \<longrightarrow> well_chosen t failed (new @ []) n l)"
    using ps(1) by auto
qed

subsection \<open>The failover\<close>

lemma emits_promote_node:
  "emits (promote_node env n addr) (\<lambda>r new. calls (\<lambda>c. c \<in> {Connect n addr, Promote n}) new
     \<and> (r = Inr () \<longrightarrow> (\<exists>us msg. new = us @ [(Promote n, Replied True msg)] \<and> (\<forall>m l. \<not> reports us m l))))"
  unfolding emits_def promote_node_def call_ok_def call_reply_def
  by (auto simp: wp_rules wp_invoke reports_def split: prod.splits sum.splits)

definition now_primary :: "trace \<Rightarrow> string \<Rightarrow> bool" where
  "now_primary tr n \<longleftrightarrow>
    (\<exists>s. (GetStatus n, StatusIs s) \<in> set tr \<and> \<not> is_in_recovery s \<and> postgres_running s)"

definition verify_call :: "string \<Rightarrow> string \<Rightarrow> nat \<Rightarrow> call \<Rightarrow> bool" where
  "verify_call n addr interval c \<longleftrightarrow> c \<in> {Connect n addr, GetStatus n, Evict n, Sleep interval}"

definition verify_spec :: "string \<Rightarrow> string \<Rightarrow> nat \<Rightarrow> string + unit \<Rightarrow> trace \<Rightarrow> bool" where
  "verify_spec n addr interval r new \<longleftrightarrow>
     calls (verify_call n addr interval) new \<and> (r = Inr () \<longrightarrow> now_primary new n)"

lemma verify_spec_more:
  "verify_spec n addr interval r new \<Longrightarrow> calls (verify_call n addr interval) pre
    \<Longrightarrow> verify_spec n addr interval r (pre @ new)"
  by (auto simp: verify_spec_def now_primary_def)

lemma emits_pause: "emits (pause env left interval) (\<lambda>_ new. calls (verify_call n addr interval) new)"
  unfolding pause_def by (auto intro!: emits_invoke emits_return simp: verify_call_def)

lemma emits_verify_attempts:
  "emits (verify_attempts env n addr max_attempts interval left) (verify_spec n addr interval)"
proof (induction left)
  case 0
  show ?case by (simp add: emits_return verify_spec_def)
next
  case (Suc left)
  let ?spec = "verify_spec n addr interval"
  have again: "emits (do { pause env left interval; verify_attempts env n addr max_attempts interval left })
      (\<lambda>r new. ?spec r (pre @ new))" if pre: "calls (verify_call n addr interval) pre" for pre
  proof (rule emits_bind [OF emits_pause])
    fix a :: answer and new assume "calls (verify_call n addr interval) new"
    then show "emits (verify_attempts env n addr max_attempts interval left) (\<lambda>r n'. ?spec r (pre @ new @ n'))"
      using pre verify_spec_more [of n addr interval _ _ "pre @ new"] by (auto intro: emits_mono [OF Suc.IH])
  qed
  have evict: "emits (do { invoke env (Evict n); pause env left interval;
      verify_attempts env n addr max_attempts interval left }) (\<lambda>r new. ?spec r (pre @ new))"
    if pre: "calls (verify_call n addr interval) pre" for pre
  proof (rule emits_bind [where R = "\<lambda>a new. new = [(Evict n, a)]"])
    fix a :: answer and new :: trace assume "new = [(Evict n, a)]"
    then show "emits (do { pause env left interval; verify_attempts env n addr max_attempts interval left })
      (\<lambda>r n'. ?spec r (pre @ new @ n'))"
      using again [of "pre @ new"] pre by (simp add: verify_call_def)
  qed (simp add: emits_invoke)
  show ?case
    unfolding verify_attempts.simps
    apply (rule emits_try_bind [where R = "\<lambda>r new. \<exists>a. new = [(Connect n addr, a)]"])
      apply (rule emits_call_ok, simp)
     apply (auto simp: verify_spec_def verify_call_def)[1]
    apply (rule emits_bind [where R = "\<lambda>r new. \<exists>a. r = as_status a \<and> new = [(GetStatus n, a)]"])
     apply (rule emits_call_status, blast)
    subgoal premises prems for x new s new'
    proof -
      have pre: "calls (verify_call n addr interval) (new @ new')"
        using prems by (auto simp: verify_call_def)
      show ?thesis
      proof (cases s)
        case (Inl e)
        then show ?thesis using evict [OF pre] by simp
      next
        case (Inr st)
        have "?spec (Inr ()) (new @ new')" if "\<not> is_in_recovery st \<and> postgres_running st"
          using prems pre that Inr by (auto simp: verify_spec_def now_primary_def dest: sym)
        then show ?thesis using again [OF pre] Inr by (simp add: emits_return)
      qed
    qed
    done
qed

text \<open>No call of these programs makes a node primary or promotes one.\<close>

fun quiet :: "call \<Rightarrow> bool" where
  "quiet (ClientWrite (SetPrimary _ _ _)) = False"
| "quiet (Promote _) = False"
| "quiet _ = True"

lemma emits_repoint: "emits_only (repoint_replicas env ns info slot_prefix) quiet"
  by (induction env ns info slot_prefix rule: repoint_replicas.induct)
    (auto intro!: emits_only_rules)

lemma emits_after_promotion:
  "emits_only (after_promotion env t failed u p sp cand cfg started) quiet"
  unfolding after_promotion_def build_failover_event_def ensure_slots_for_replicas_def record_event_def
  by (intro emits_only_rules emits_repoint) auto

text \<open>
  What justifies making \<open>n\<close> primary at position \<open>l\<close>: before that, the positions
  were asked, the best was chosen, the agent confirmed the promotion, and a
  status taken after it shows Postgres running and out of recovery.
\<close>

definition justified :: "cluster_topology \<Rightarrow> string \<Rightarrow> trace \<Rightarrow> string \<Rightarrow> u64 \<Rightarrow> bool" where
  "justified t failed before n l \<longleftrightarrow>
    (\<exists>us msg vs. before = us @ (Promote n, Replied True msg) # vs
       \<and> well_chosen t failed us n l \<and> now_primary vs n)"

definition failover_spec :: "cluster_topology \<Rightarrow> string \<Rightarrow> trace \<Rightarrow> bool" where
  "failover_spec t failed tr \<longleftrightarrow>
    (\<forall>before n l k a later. tr = before @ (ClientWrite (SetPrimary n l k), a) # later \<longrightarrow>
       justified t failed before n l)"

lemma failover_spec_quiet:
  "calls (\<lambda>c. \<forall>n l k. c \<noteq> ClientWrite (SetPrimary n l k)) tr \<Longrightarrow> failover_spec t failed tr"
  by (auto simp: failover_spec_def)

lemma quiet_no_write: "quiet c \<Longrightarrow> c \<noteq> ClientWrite (SetPrimary n l k)"
  by auto

lemma failover_spec_once:
  assumes "calls (\<lambda>c. \<forall>n l k. c \<noteq> ClientWrite (SetPrimary n l k)) before"
    and "calls quiet later" "justified t failed before n l"
  shows "failover_spec t failed (before @ (ClientWrite (SetPrimary n l k), a) # later)"
  unfolding failover_spec_def
proof (intro allI impI)
  fix before' n' l' k' a' later'
  assume eq: "before @ (ClientWrite (SetPrimary n l k), a) # later
    = before' @ (ClientWrite (SetPrimary n' l' k'), a') # later'"
  have "(ClientWrite (SetPrimary n' l' k'), a') \<notin> set before \<union> set later"
    using calls_mem [OF assms(1)] calls_mem [OF assms(2)] by fastforce
  then have "before' = before \<and> n' = n \<and> l' = l"
    using eq by (auto simp: append_eq_append_conv2 append_eq_Cons_conv Cons_eq_append_conv)
  then show "justified t failed before' n' l'" using assms(3) by simp
qed

lemma well_chosen_cong:
  "(\<And>m l. reports tr m l = reports tr' m l) \<Longrightarrow> well_chosen t failed tr n l = well_chosen t failed tr' n l"
  by (simp add: well_chosen_def)

abbreviation no_write :: "trace \<Rightarrow> bool" where
  "no_write \<equiv> calls (\<lambda>c. \<forall>n l k. c \<noteq> ClientWrite (SetPrimary n l k))"

lemma emits_write_primary:
  assumes "no_write before" "justified t failed before cand l"
  shows "emits (do {
      invoke env (ClientWrite (SetPrimary cand l k));
      after_promotion env t failed u p sp cand cfg started })
    (\<lambda>_ new. failover_spec t failed (before @ new))"
proof (rule emits_bind [where R = "\<lambda>a new. new = [(ClientWrite (SetPrimary cand l k), a)]"])
  fix a :: answer and new assume "new = [(ClientWrite (SetPrimary cand l k), a)]"
  then show "emits (after_promotion env t failed u p sp cand cfg started)
      (\<lambda>_ n'. failover_spec t failed (before @ new @ n'))"
    using failover_spec_once [OF assms(1) _ assms(2)]
    by (auto intro: emits_mono [OF emits_only_emits [OF emits_after_promotion]])
qed (simp add: emits_invoke)

lemma emits_verified:
  assumes "no_write us" "well_chosen t failed us cand l"
  shows "emits (do {
      v \<leftarrow> verify_promotion env cand addr 3 500;
      (case v of
         Inl _ \<Rightarrow> skip
       | Inr _ \<Rightarrow> do {
           invoke env (ClientWrite (SetPrimary cand l k));
           after_promotion env t failed u p sp cand cfg started }) })
    (\<lambda>_ new. failover_spec t failed (us @ (Promote cand, Replied True msg) # new))"
  unfolding verify_promotion_def
proof (rule emits_bind [OF emits_verify_attempts])
  fix v and new :: trace assume v: "verify_spec cand addr 500 v new"
  let ?before = "us @ (Promote cand, Replied True msg) # new"
  have nw: "no_write new"
    using v unfolding verify_spec_def by (auto elim!: calls_mono simp: verify_call_def)
  show "emits (case v of
         Inl _ \<Rightarrow> skip
       | Inr _ \<Rightarrow> do {
           invoke env (ClientWrite (SetPrimary cand l k));
           after_promotion env t failed u p sp cand cfg started })
      (\<lambda>_ n'. failover_spec t failed (us @ (Promote cand, Replied True msg) # new @ n'))"
  proof (cases v)
    case (Inl e)
    then show ?thesis using assms(1) nw by (auto intro!: emits_return failover_spec_quiet)
  next
    case (Inr x)
    have "justified t failed ?before cand l"
      using assms(2) v Inr by (auto simp: justified_def verify_spec_def)
    then show ?thesis using emits_write_primary [of ?before] assms(1) nw Inr by simp
  qed
qed

lemma emits_promoted:
  assumes "no_write pre" "well_chosen t failed pre cand l"
  shows "emits (do {
      r \<leftarrow> promote_node env cand addr;
      (case r of
         Inl _ \<Rightarrow> skip
       | Inr _ \<Rightarrow> do {
           v \<leftarrow> verify_promotion env cand addr 3 500;
           (case v of
              Inl _ \<Rightarrow> skip
            | Inr _ \<Rightarrow> do {
                invoke env (ClientWrite (SetPrimary cand l k));
                after_promotion env t failed u p sp cand cfg started }) }) })
    (\<lambda>_ new. failover_spec t failed (pre @ new))"
proof (rule emits_bind [OF emits_promote_node], goal_cases)
  case (1 r new)
  have nw: "no_write new" using 1 by (auto elim!: calls_mono)
  show ?case
  proof (cases r)
    case (Inl e)
    then show ?thesis using assms(1) nw by (auto intro!: emits_return failover_spec_quiet)
  next
    case (Inr x)
    then obtain us msg where us: "new = us @ [(Promote cand, Replied True msg)]"
      "\<And>m l. \<not> reports us m l" using 1 by auto
    have "well_chosen t failed (pre @ us) cand l"
      using assms(2) us(2) well_chosen_cong [of "pre @ us" pre] by simp
    then show ?thesis
      using emits_verified [of "pre @ us" t failed cand l env addr k u p sp cfg started msg]
        assms(1) nw us(1) Inr by simp
  qed
qed

lemma emits_trigger_failover:
  assumes "hm_wf (node_roles t)" "hm_wf (node_configs t)"
  shows "emits (trigger_failover env t failed u p sp) (\<lambda>_ new. failover_spec t failed new)"
  unfolding trigger_failover_def
proof (rule emits_bind [where R = "\<lambda>a new. new = [(InstantMs, a)]"],
    simp add: emits_invoke, rule emits_bind [OF emits_pick_live_candidate [OF assms]], goal_cases)
  case (1 a new r new')
  have nw: "no_write (new @ new')" using 1 by (auto elim!: calls_mono)
  have wc: "well_chosen t failed (new @ new') n l" if "r = Some (n, l)" for n l
    using 1 that well_chosen_cong [of "new @ new'" new' t failed n l]
    by (simp add: reports_def)
  show ?case
  proof (cases "r = None \<or> hm_get (node_configs t) (fst (the r)) = None")
    case True
    then show ?thesis using nw
      by (auto intro!: emits_return failover_spec_quiet split: option.splits)
  next
    case False
    then obtain cand l cfg where r: "r = Some (cand, l)" "hm_get (node_configs t) cand = Some cfg"
      by auto
    then show ?thesis using emits_promoted [OF nw wc [OF r(1)]] by simp
  qed
qed

subsection \<open>The one promotion\<close>

definition promote_spec :: "cluster_topology \<Rightarrow> string \<Rightarrow> trace \<Rightarrow> bool" where
  "promote_spec t failed tr \<longleftrightarrow>
    (\<forall>before n a later. tr = before @ (Promote n, a) # later \<longrightarrow>
       (\<exists>l. well_chosen t failed before n l) \<and> calls (\<lambda>c. \<forall>m. c \<noteq> Promote m) (before @ later))"

abbreviation no_promote :: "trace \<Rightarrow> bool" where
  "no_promote \<equiv> calls (\<lambda>c. \<forall>m. c \<noteq> Promote m)"

lemma promote_spec_none: "no_promote tr \<Longrightarrow> promote_spec t failed tr"
  by (auto simp: promote_spec_def)

lemma promote_spec_once:
  assumes "no_promote before" "no_promote later" "well_chosen t failed before n l"
  shows "promote_spec t failed (before @ (Promote n, a) # later)"
  unfolding promote_spec_def
proof (intro allI impI)
  fix before' n' a' later'
  assume eq: "before @ (Promote n, a) # later = before' @ (Promote n', a') # later'"
  have "(Promote n', a') \<notin> set before \<union> set later"
    using calls_mem [OF assms(1)] calls_mem [OF assms(2)] by fastforce
  then have "before' = before \<and> n' = n \<and> later' = later"
    using eq by (auto simp: append_eq_append_conv2 append_eq_Cons_conv Cons_eq_append_conv)
  then show "(\<exists>l. well_chosen t failed before' n' l) \<and> no_promote (before' @ later')"
    using assms by auto
qed

lemma emits_only_mono:
  "emits_only m P \<Longrightarrow> (\<And>c. P c \<Longrightarrow> Q c) \<Longrightarrow> emits_only m Q"
  unfolding emits_only_def by (erule emits_mono) (auto elim: calls_mono)

lemma verify_no_promote: "emits_only (verify_attempts env n addr m i left) (\<lambda>c. \<forall>m. c \<noteq> Promote m)"
  unfolding emits_only_def
  by (rule emits_mono [OF emits_verify_attempts])
    (auto simp: verify_spec_def verify_call_def elim!: calls_mono)

lemma emits_promote_call:
  "emits (promote_node env n addr) (\<lambda>r new. no_promote new
     \<or> (\<exists>us a. new = us @ [(Promote n, a)] \<and> no_promote us \<and> (\<forall>m l. \<not> reports us m l)))"
  unfolding emits_def promote_node_def call_ok_def call_reply_def
  by (auto simp: wp_rules wp_invoke reports_def split: prod.splits sum.splits)

lemma emits_one_promotion:
  assumes "no_promote pre" "well_chosen t failed pre cand l"
  shows "emits (do {
      r \<leftarrow> promote_node env cand addr;
      (case r of
         Inl _ \<Rightarrow> skip
       | Inr _ \<Rightarrow> do {
           v \<leftarrow> verify_promotion env cand addr 3 500;
           (case v of
              Inl _ \<Rightarrow> skip
            | Inr _ \<Rightarrow> do {
                invoke env (ClientWrite (SetPrimary cand l k));
                after_promotion env t failed u p sp cand cfg started }) }) })
    (\<lambda>_ new. promote_spec t failed (pre @ new))"
proof (rule emits_bind [OF emits_promote_call], goal_cases)
  case (1 r new)
  have "emits_only (after_promotion env t failed u p sp cand cfg started) (\<lambda>c. \<forall>m. c \<noteq> Promote m)"
    by (rule emits_only_mono [OF emits_after_promotion]) auto
  then have tail: "emits_only (case r of
         Inl _ \<Rightarrow> skip
       | Inr _ \<Rightarrow> do {
           v \<leftarrow> verify_promotion env cand addr 3 500;
           (case v of
              Inl _ \<Rightarrow> skip
            | Inr _ \<Rightarrow> do {
                invoke env (ClientWrite (SetPrimary cand l k));
                after_promotion env t failed u p sp cand cfg started }) })
      (\<lambda>c. \<forall>m. c \<noteq> Promote m)"
    unfolding verify_promotion_def
    by (intro emits_only_rules verify_no_promote) auto
  show ?case
  proof (rule emits_mono [OF emits_only_emits [OF tail]])
    fix new' :: trace assume "no_promote new'"
    then show "promote_spec t failed (pre @ new @ new')"
      using 1 assms promote_spec_once [of "pre @ us" new' t failed cand l for us]
        well_chosen_cong [of "pre @ us" pre t failed cand l for us]
      by (auto intro: promote_spec_none)
  qed
qed

lemma emits_trigger_promotes:
  assumes "hm_wf (node_roles t)" "hm_wf (node_configs t)"
  shows "emits (trigger_failover env t failed u p sp) (\<lambda>_ new. promote_spec t failed new)"
  unfolding trigger_failover_def
proof (rule emits_bind [where R = "\<lambda>a new. new = [(InstantMs, a)]"],
    simp add: emits_invoke, rule emits_bind [OF emits_pick_live_candidate [OF assms]], goal_cases)
  case (1 a new r new')
  have np: "no_promote (new @ new')" using 1 by (auto elim!: calls_mono)
  have wc: "well_chosen t failed (new @ new') n l" if "r = Some (n, l)" for n l
    using 1 that well_chosen_cong [of "new @ new'" new' t failed n l]
    by (simp add: reports_def)
  show ?case
  proof (cases "r = None \<or> hm_get (node_configs t) (fst (the r)) = None")
    case True
    then show ?thesis using np
      by (auto intro!: emits_return promote_spec_none split: option.splits)
  next
    case False
    then obtain cand l cfg where r: "r = Some (cand, l)" "hm_get (node_configs t) cand = Some cfg"
      by auto
    then show ?thesis using emits_one_promotion [OF np wc [OF r(1)]] by simp
  qed
qed

lemma emits_only_any:
  assumes "emits m R" shows "emits_only m (\<lambda>_. True)"
  unfolding emits_only_def by (rule emits_mono [OF assms]) (simp add: calls_def)

lemma trigger_failover_appends:
  "emits_only (trigger_failover env t failed u p sp) (\<lambda>_. True)"
  unfolding trigger_failover_def pick_live_candidate_def live_positions_def verify_promotion_def
  by (intro emits_only_rules emits_only_any [OF emits_collect_positions]
      emits_only_any [OF emits_promote_node] emits_only_any [OF emits_verify_attempts]
      emits_only_any [OF emits_only_emits [OF emits_after_promotion]]) simp_all


section \<open>Properties\<close>

text \<open>A cluster of a failed primary and two replicas, for the concrete runs.\<close>

definition demo_config :: "string \<Rightarrow> u32 \<Rightarrow> node_config" where
  "demo_config n prio =
    \<lparr>node_id = n, agent_addr = n @ '':7001'', postgres_addr = n @ '':5432'', priority = prio, tags = []\<rparr>"

definition demo_topology :: cluster_topology where
  "demo_topology = default_topology
     \<lparr>primary_node_id := ''a'',
      node_roles := [(''a'', Offline), (''b'', Replica), (''c'', Replica)],
      node_configs := [(''a'', demo_config ''a'' 1), (''b'', demo_config ''b'' 1), (''c'', demo_config ''c'' 2)],
      replication_mode := SyncStrict\<rparr>"

definition demo_status :: "bool \<Rightarrow> u64 \<Rightarrow> status_response" where
  "demo_status recovering lsn =
    \<lparr>is_in_recovery = recovering, received_lsn = lsn, replayed_lsn = 0, sent_lsn = 0, timeline = 1,
     postgres_running = True, replicas = [], st_replication_conninfo = [], st_parameters = [],
     st_lost_slots = [], st_has_data = True, st_backup_config_version = [], st_proxy_auth_version = []\<rparr>"

text \<open>The environment's state is the list of promoted nodes.\<close>

fun demo_env :: "string list environment" where
  "demo_env ps (GetStatus n) = (StatusIs (demo_status (n \<notin> set ps) (if n = ''b'' then 9 else 7)), ps)"
| "demo_env ps (Promote n) = (Replied True [], n # ps)"
| "demo_env ps (Demote n i s) = (Replied True [], ps)"
| "demo_env ps _ = (Done, ps)"

definition demo_trace :: trace where
  "demo_trace = snd (snd (run_state (trigger_failover demo_env demo_topology ''a'' ''u'' ''p'' ''s_'') ([], [])))"

lemma demo_wf: "hm_wf (node_roles demo_topology)" "hm_wf (node_configs demo_topology)"
  by (simp_all add: demo_topology_def default_topology_def hm_wf_def)

lemma demo_run:
  "\<exists>e'. run_state (trigger_failover demo_env demo_topology ''a'' ''u'' ''p'' ''s_'') ([], []) = ((), (e', demo_trace))"
  by (rule exI [of _ "fst (snd (run_state
        (trigger_failover demo_env demo_topology ''a'' ''u'' ''p'' ''s_'') ([], [])))"])
    (simp add: demo_trace_def prod_eq_iff)

lemma demo_trace_prefix:
  "take 10 demo_trace =
    [(InstantMs, Done), (Connect ''b'' ''b:7001'', Done), (GetStatus ''b'', StatusIs (demo_status True 9)),
     (Connect ''c'' ''c:7001'', Done), (GetStatus ''c'', StatusIs (demo_status True 7)),
     (Connect ''b'' ''b:7001'', Done), (Promote ''b'', Replied True []),
     (Connect ''b'' ''b:7001'', Done), (GetStatus ''b'', StatusIs (demo_status False 9)),
     (ClientWrite (SetPrimary ''b'' 9 1), Done)]"
  by code_simp

lemma demo_trace_split:
  "demo_trace = take 9 demo_trace @ (ClientWrite (SetPrimary ''b'' 9 1), Done) # drop 10 demo_trace"
  "demo_trace = take 6 demo_trace @ (Promote ''b'', Replied True []) # drop 7 demo_trace"
proof -
  have "length (take 10 demo_trace) = 10" unfolding demo_trace_prefix by simp
  then have len: "9 < length demo_trace" "6 < length demo_trace" by simp_all
  have "demo_trace ! 9 = take 10 demo_trace ! 9" "demo_trace ! 6 = take 10 demo_trace ! 6" by simp_all
  then have nth: "demo_trace ! 9 = (ClientWrite (SetPrimary ''b'' 9 1), Done)"
    "demo_trace ! 6 = (Promote ''b'', Replied True [])"
    unfolding demo_trace_prefix by simp_all
  show "demo_trace = take 9 demo_trace @ (ClientWrite (SetPrimary ''b'' 9 1), Done) # drop 10 demo_trace"
    by (rule trans [OF id_take_nth_drop [OF len(1)]]) (simp add: nth)
  show "demo_trace = take 6 demo_trace @ (Promote ''b'', Replied True []) # drop 7 demo_trace"
    by (rule trans [OF id_take_nth_drop [OF len(2)]]) (simp add: nth)
qed



text \<open>C4.  A failover promotes at most one node, and only one that the positions
  reported before the promotion single out; in the strict mode that means every
  standby had answered.\<close>

theorem promotes_only_the_chosen_node:
  assumes "hm_wf (node_roles t)" "hm_wf (node_configs t)"
    and "run_state (trigger_failover env t failed user password slot_prefix) (e, []) = (r, (e', tr))"
    and "tr = before @ (Promote n, a) # later"
  shows "(\<exists>l. well_chosen t failed before n l) \<and> (\<forall>m b. (Promote m, b) \<notin> set (before @ later))"
proof -
  have "(\<exists>l. well_chosen t failed before n l) \<and> no_promote (before @ later)"
    using emits_trace [OF emits_trigger_promotes [OF assms(1,2)] assms(3)] assms(4)
    unfolding promote_spec_def by blast
  moreover from this have "(Promote m, b) \<notin> set (before @ later)" for m b
    using calls_mem [of "\<lambda>c. \<forall>m. c \<noteq> Promote m" "before @ later" "Promote m" b] by blast
  ultimately show ?thesis by blast
qed

theorem promotes_only_the_chosen_node_witness:
  "demo_trace = take 6 demo_trace @ (Promote ''b'', Replied True []) # drop 7 demo_trace
     \<and> (\<exists>l. well_chosen demo_topology ''a'' (take 6 demo_trace) ''b'' l)"
proof -
  obtain e' where run: "run_state (trigger_failover demo_env demo_topology ''a'' ''u'' ''p'' ''s_'') ([], [])
    = ((), (e', demo_trace))" using demo_run by blast
  show ?thesis using promotes_only_the_chosen_node [OF demo_wf run demo_trace_split(2)] demo_trace_split(2) by blast
qed

end
