(* ===== verification/Monitor.thy ===== *)
theory Monitor
  imports Failover
begin

text \<open>
  The node monitor of the Raft leader (\<open>node_monitor/\<close>): the failure counters, the
  timer of the synchronous fallback, the sightings of stale primaries, the health
  check of one node, the reconciliation of the primary's replication settings,
  and one pass over all nodes with the automatic failover it may start.  Health
  checks run one after the other in iteration order; metrics are left out.
\<close>

section \<open>Failure counters\<close>

record failure_record =
  count :: u32
  first_seen :: nat
  last_seen :: nat

type_synonym failure_tracker = "(string, failure_record) hashmap"

definition record_failure :: "nat \<Rightarrow> string \<Rightarrow> failure_tracker \<Rightarrow> failure_tracker" where
  "record_failure now n tr =
    (let r = hm_get_or tr n \<lparr>count = 0, first_seen = now, last_seen = now\<rparr>
     in hm_insert n (r\<lparr>count := count r + 1, last_seen := now\<rparr>) tr)"

definition record_success :: "string \<Rightarrow> failure_tracker \<Rightarrow> failure_tracker" where
  "record_success n tr = hm_remove n tr"

definition failure_count :: "failure_tracker \<Rightarrow> string \<Rightarrow> u32" where
  "failure_count tr n = (case hm_get tr n of None \<Rightarrow> 0 | Some r \<Rightarrow> count r)"

definition is_failed :: "failure_tracker \<Rightarrow> string \<Rightarrow> u32 \<Rightarrow> bool" where
  "is_failed tr n threshold \<longleftrightarrow> threshold \<le> failure_count tr n"


section \<open>The synchronous fallback\<close>

datatype fallback = Stay | Degrade | Restore

text \<open>The timer is \<open>no_standby_since\<close>, in milliseconds.\<close>

definition degrade_step ::
  "cluster_topology \<Rightarrow> bool \<Rightarrow> nat \<Rightarrow> nat \<Rightarrow> nat option \<Rightarrow> fallback \<times> nat option" where
  "degrade_step t standby_streaming timeout now since =
    (if replication_mode t \<noteq> Sync \<or> standby_streaming then
       (if replication_mode t = Sync \<and> sync_degraded t \<and> standby_streaming then Restore else Stay, None)
     else if sync_degraded t then (Stay, since)
     else (let s = (case since of None \<Rightarrow> now | Some s \<Rightarrow> s)
           in if timeout \<le> now - s then (Degrade, None) else (Stay, Some s)))"


section \<open>Stale primaries\<close>

record stale_primaries =
  sightings :: "(string, u32) hashmap"
  last_attempt :: "(string, nat) hashmap"

definition sighted ::
  "string \<Rightarrow> u32 \<Rightarrow> nat \<Rightarrow> nat \<Rightarrow> stale_primaries \<Rightarrow> bool \<times> stale_primaries" where
  "sighted n needed cooldown now sp =
    (let c = hm_get_or (sightings sp) n 0 + 1;
         sp1 = sp\<lparr>sightings := hm_insert n c (sightings sp)\<rparr>
     in if c < needed then (False, sp1)
        else (let cooled = (case hm_get (last_attempt sp1) n of None \<Rightarrow> True | Some l \<Rightarrow> cooldown \<le> now - l)
              in (cooled, if cooled then sp1\<lparr>last_attempt := hm_insert n now (last_attempt sp1)\<rparr> else sp1)))"

definition cleared :: "string \<Rightarrow> stale_primaries \<Rightarrow> stale_primaries" where
  "cleared n sp = sp\<lparr>sightings := hm_remove n (sightings sp)\<rparr>"


section \<open>Health check\<close>

record health_check_result =
  hc_node_id :: string
  reachable :: bool
  in_recovery :: bool
  flush_lsn :: u64
  replay_lsn :: u64
  hc_timeline :: u32
  pg_running :: bool
  replication_conninfo :: string
  streaming_standbys :: "string list"
  parameters :: "(string, string) hashmap"
  lost_slots :: "string list"
  has_data :: bool
  backup_config_version :: string
  proxy_auth_version :: string

definition unreachable_result :: "string \<Rightarrow> health_check_result" where
  "unreachable_result n =
    \<lparr>hc_node_id = n, reachable = False, in_recovery = False, flush_lsn = 0, replay_lsn = 0,
     hc_timeline = 0, pg_running = False, replication_conninfo = [], streaming_standbys = [],
     parameters = [], lost_slots = [], has_data = True, backup_config_version = [],
     proxy_auth_version = []\<rparr>"

definition status_result :: "string \<Rightarrow> status_response \<Rightarrow> health_check_result" where
  "status_result n st =
    \<lparr>hc_node_id = n, reachable = True, in_recovery = is_in_recovery st,
     flush_lsn = (if is_in_recovery st then received_lsn st else sent_lsn st),
     replay_lsn = replayed_lsn st, hc_timeline = timeline st, pg_running = postgres_running st,
     replication_conninfo = st_replication_conninfo st,
     streaming_standbys = map application_name (filter (\<lambda>r. rs_state r = ''streaming'') (replicas st)),
     parameters = st_parameters st, lost_slots = st_lost_slots st, has_data = st_has_data st,
     backup_config_version = st_backup_config_version st,
     proxy_auth_version = st_proxy_auth_version st\<rparr>"

text \<open>\<open>check_node\<close> and \<open>query_node\<close>: an error and a timeout both evict the channel.\<close>

definition check_node :: "'e environment \<Rightarrow> string \<Rightarrow> string \<Rightarrow> ('e world, health_check_result) state" where
  "check_node env n addr = do {
     c \<leftarrow> call_ok env (Connect n addr);
     (case c of
        Inl _ \<Rightarrow> do { invoke env (Evict n); State_Monad.return (unreachable_result n) }
      | Inr _ \<Rightarrow> do {
          s \<leftarrow> call_status env n;
          (case s of
             Inr st \<Rightarrow> State_Monad.return (status_result n st)
           | Inl _ \<Rightarrow> do { invoke env (Evict n); State_Monad.return (unreachable_result n) }) }) }"


section \<open>Reconciliation\<close>

text \<open>
  The configuration of the monitor.  \<open>auth_version\<close> is the fingerprint of the
  proxy's credentials and \<open>backup_settings\<close> the backup settings with theirs.
\<close>

record monitor_config =
  failures_before_failover :: u32
  sync_degrade_timeout_seconds :: nat
  max_slot_wal_keep_size_mb :: nat
  slot_prefix :: string
  repl_user :: string
  repl_password :: string
  auth_user :: string
  auth_password :: string
  auth_version :: string
  backup_settings :: "((string, string) hashmap \<times> string) option"

definition REJOIN_COOLDOWN :: nat where
  "REJOIN_COOLDOWN = 60000"

definition lost_nodes :: "string list \<Rightarrow> string \<Rightarrow> string list" where
  "lost_nodes slots prefix = List.map_filter (strip_prefix prefix) slots"

definition ensure_proxy_auth ::
  "'e environment \<Rightarrow> monitor_config \<Rightarrow> cluster_topology \<Rightarrow> health_check_result \<Rightarrow> ('e world, unit) state" where
  "ensure_proxy_auth env cfg t primary =
    (if proxy_auth_version primary = auth_version cfg then skip
     else (case hm_get (node_configs t) (primary_node_id t) of
             None \<Rightarrow> skip
           | Some nc \<Rightarrow> do {
               c \<leftarrow> call_ok env (Connect (primary_node_id t) (agent_addr nc));
               (case c of
                  Inl _ \<Rightarrow> skip
                | Inr _ \<Rightarrow> do {
                    call_reply env (SetProxyAuth (primary_node_id t) (auth_user cfg) (auth_password cfg)
                      (auth_version cfg));
                    skip }) }))"

definition apply_parameters ::
  "'e environment \<Rightarrow> cluster_topology \<Rightarrow> (string, string) hashmap \<Rightarrow> ('e world, bool) state" where
  "apply_parameters env t params =
    (case hm_get (node_configs t) (primary_node_id t) of
       None \<Rightarrow> State_Monad.return False
     | Some nc \<Rightarrow> do {
         c \<leftarrow> call_ok env (Connect (primary_node_id t) (agent_addr nc));
         (case c of
            Inl _ \<Rightarrow> State_Monad.return False
          | Inr _ \<Rightarrow> do {
              r \<leftarrow> call_reply env (SetParameters (primary_node_id t) params);
              State_Monad.return (case r of Inr (success, err) \<Rightarrow> success | Inl _ \<Rightarrow> False) }) })"

definition write_needs_reseed :: "'e environment \<Rightarrow> string \<Rightarrow> bool \<Rightarrow> ('e world, unit) state" where
  "write_needs_reseed env n b = do { invoke env (ClientWrite (SetNeedsReseed n b)); skip }"

definition track_reseeds ::
  "'e environment \<Rightarrow> monitor_config \<Rightarrow> cluster_topology \<Rightarrow> health_check_result \<Rightarrow> ('e world, unit) state" where
  "track_reseeds env cfg t primary =
    (let lost = lost_nodes (lost_slots primary) (slot_prefix cfg) in do {
       for_each (\<lambda>n. if hm_get (node_configs t) n \<noteq> None \<and> n \<notin> needs_reseed t
                     then write_needs_reseed env n True else skip) lost;
       for_each (\<lambda>n. if n \<notin> set lost \<and> n \<in> set (streaming_standbys primary)
                     then write_needs_reseed env n False else skip)
         (sorted_list_of_set (needs_reseed t)) })"

definition standby_streaming :: "cluster_topology \<Rightarrow> health_check_result \<Rightarrow> bool" where
  "standby_streaming t primary \<longleftrightarrow>
    list_ex (\<lambda>name. hm_get (node_configs t) name \<noteq> None) (streaming_standbys primary)"

text \<open>The settings that differ from what the primary reports.\<close>

definition desired_parameters ::
  "monitor_config \<Rightarrow> health_check_result \<Rightarrow> string \<Rightarrow> (string, string) hashmap" where
  "desired_parameters cfg primary names =
    filter (\<lambda>(name, v). hm_get (parameters primary) name \<noteq> Some v)
      [(''synchronous_standby_names'', names),
       (''max_slot_wal_keep_size'', show_radix 10 (max_slot_wal_keep_size_mb cfg))]"

definition settle_parameters ::
  "'e environment \<Rightarrow> monitor_config \<Rightarrow> cluster_topology \<Rightarrow> health_check_result \<Rightarrow> fallback \<Rightarrow> string
    \<Rightarrow> ('e world, unit) state" where
  "settle_parameters env cfg t primary fb names =
    (let desired = desired_parameters cfg primary names in do {
       applied \<leftarrow> (if desired \<noteq> [] then apply_parameters env t desired else State_Monad.return True);
       (if \<not> applied then skip
        else do {
          (if fb = Restore then do { invoke env (ClientWrite (SetSyncDegraded False)); skip } else skip);
          track_reseeds env cfg t primary }) })"

definition reconcile_replication ::
  "'e environment \<Rightarrow> monitor_config \<Rightarrow> cluster_topology \<Rightarrow> health_check_result \<Rightarrow> nat option
    \<Rightarrow> ('e world, nat option) state" where
  "reconcile_replication env cfg t primary timer = do {
     ensure_proxy_auth env cfg t primary;
     now \<leftarrow> invoke env InstantMs;
     (let (fb, timer') = degrade_step t (standby_streaming t primary)
            (sync_degrade_timeout_seconds cfg * 1000) (as_millis now) timer
      in case fb of
           Stay \<Rightarrow> do {
             settle_parameters env cfg t primary fb (synchronous_standby_names t);
             State_Monad.return timer' }
         | Restore \<Rightarrow> do {
             settle_parameters env cfg t primary fb (standby_names t);
             State_Monad.return timer' }
         | Degrade \<Rightarrow> do {
             w \<leftarrow> call_ok env (ClientWrite (SetSyncDegraded True));
             (case w of
                Inl _ \<Rightarrow> State_Monad.return timer'
              | Inr _ \<Rightarrow> do {
                  settle_parameters env cfg t primary fb [];
                  State_Monad.return timer' }) }) }"


section \<open>One pass\<close>

record monitor_state =
  tracker :: failure_tracker
  degrade_timer :: "nat option"
  stale :: stale_primaries
  unseeded :: stale_primaries

definition is_stale_primary ::
  "'e environment \<Rightarrow> string \<Rightarrow> health_check_result \<Rightarrow> ('e world, bool) state" where
  "is_stale_primary env n r = do {
     topo \<leftarrow> invoke env CurrentTopology;
     (let primary = primary_node_id (as_topology topo)
      in if \<not> in_recovery r \<and> primary \<noteq> [] \<and> primary \<noteq> n then do {
           b \<leftarrow> invoke env OpInProgress;
           State_Monad.return (\<not> as_flag b) }
         else State_Monad.return False) }"

definition push_backup_settings ::
  "'e environment \<Rightarrow> monitor_config \<Rightarrow> string \<Rightarrow> string \<Rightarrow> health_check_result \<Rightarrow> ('e world, unit) state" where
  "push_backup_settings env cfg n addr r =
    (case backup_settings cfg of
       None \<Rightarrow> skip
     | Some (settings, ver) \<Rightarrow>
        if backup_config_version r = ver then skip
        else do {
          c \<leftarrow> call_ok env (Connect n addr);
          (case c of
             Inl _ \<Rightarrow> skip
           | Inr _ \<Rightarrow> do { call_reply env (ConfigureBackups n settings ver); skip }) })"

text \<open>The spawned tasks themselves are \<open>run_plan\<close> and \<open>rejoin\<close>.\<close>

definition spawn_seed :: "'e environment \<Rightarrow> monitor_config \<Rightarrow> string \<Rightarrow> ('e world, unit) state" where
  "spawn_seed env cfg n = do {
     topo \<leftarrow> invoke env CurrentTopology;
     (case new_seed_plan (as_topology topo) n (repl_user cfg) (repl_password cfg) (slot_prefix cfg) of
        Inl _ \<Rightarrow> skip
      | Inr plan \<Rightarrow> do { invoke env (SpawnSeed n); skip }) }"

definition spawn_rejoin :: "'e environment \<Rightarrow> monitor_config \<Rightarrow> string \<Rightarrow> ('e world, unit) state" where
  "spawn_rejoin env cfg n = do {
     topo \<leftarrow> invoke env CurrentTopology;
     (case new_seed_plan (as_topology topo) n (repl_user cfg) (repl_password cfg) (slot_prefix cfg) of
        Inl _ \<Rightarrow> skip
      | Inr plan \<Rightarrow> do { invoke env (SpawnRejoin n); skip }) }"

text \<open>A recovered replica whose receiver does not follow the primary is repointed.\<close>

definition repoint_recovered ::
  "'e environment \<Rightarrow> monitor_config \<Rightarrow> cluster_topology \<Rightarrow> node_config \<Rightarrow> health_check_result
    \<Rightarrow> ('e world, unit) state" where
  "repoint_recovered env cfg t nc r =
    (if in_recovery r \<and> primary_node_id t \<noteq> [] then
       (case hm_get (node_configs t) (primary_node_id t) of
          None \<Rightarrow> skip
        | Some p \<Rightarrow>
           if is_target_of p (replication_conninfo r) then skip
           else do {
             c \<leftarrow> call_ok env (Connect (hc_node_id r) (agent_addr nc));
             (case c of
                Inl _ \<Rightarrow> skip
              | Inr _ \<Rightarrow> do {
                  call_reply env (Demote (hc_node_id r) (conninfo p (repl_user cfg) (repl_password cfg))
                    (slot_prefix cfg @ hc_node_id r));
                  skip }) })
     else skip)"

definition process_healthy ::
  "'e environment \<Rightarrow> monitor_config \<Rightarrow> cluster_topology \<Rightarrow> node_config \<Rightarrow> health_check_result
    \<Rightarrow> monitor_state \<Rightarrow> ('e world, monitor_state) state" where
  "process_healthy env cfg t nc r st =
    (let n = hc_node_id r; st1 = st\<lparr>tracker := record_success n (tracker st)\<rparr> in do {
       is_stale \<leftarrow> is_stale_primary env n r;
       (if is_stale then do {
          now \<leftarrow> invoke env InstantMs;
          (let (act, sp) = sighted n (failures_before_failover cfg) REJOIN_COOLDOWN (as_millis now) (stale st1)
           in do {
             (if act then spawn_rejoin env cfg n else skip);
             State_Monad.return (st1\<lparr>stale := sp\<rparr>) }) }
        else do {
          push_backup_settings env cfg n (agent_addr nc) r;
          (if n = primary_node_id t \<and> hm_get (node_roles t) n = Some Offline \<and> \<not> in_recovery r
           then do { invoke env (ClientWrite (SetPrimary n (flush_lsn r) (hc_timeline r))); skip } else skip);
          (if hm_get (node_roles t) n \<in> {Some Offline, Some Unknown, Some Maintenance}
              \<and> n \<noteq> primary_node_id t
           then do {
             invoke env (ClientWrite (MarkReplica n (flush_lsn r)));
             repoint_recovered env cfg t nc r }
           else skip);
          invoke env (ClientWrite (UpdateFlushLsn n (flush_lsn r) (replay_lsn r)));
          State_Monad.return (st1\<lparr>stale := cleared n (stale st1)\<rparr>) }) })"

definition process_failed ::
  "'e environment \<Rightarrow> monitor_config \<Rightarrow> cluster_topology \<Rightarrow> health_check_result \<Rightarrow> monitor_state
    \<Rightarrow> ('e world, monitor_state) state" where
  "process_failed env cfg t r st =
    (let n = hc_node_id r in
     if hm_get (node_roles t) n = Some Maintenance then State_Monad.return st
     else do {
       now \<leftarrow> invoke env InstantMs;
       (let st1 = st\<lparr>tracker := record_failure (as_millis now) n (tracker st)\<rparr>
        in if is_failed (tracker st1) n (failures_before_failover cfg) \<and> n = primary_node_id t then do {
             got \<leftarrow> invoke env TryBeginOp;
             (if \<not> as_flag got then State_Monad.return st1
              else do {
                w \<leftarrow> call_ok env (ClientWrite (MarkOffline n));
                (case w of
                   Inl _ \<Rightarrow> do { invoke env EndOp; State_Monad.return st1 }
                 | Inr _ \<Rightarrow> do {
                     trigger_failover env t n (repl_user cfg) (repl_password cfg) (slot_prefix cfg);
                     invoke env EndOp;
                     State_Monad.return (st1\<lparr>tracker := record_success n (tracker st1)\<rparr>) }) }) }
           else State_Monad.return st1) })"

definition process_result ::
  "'e environment \<Rightarrow> monitor_config \<Rightarrow> cluster_topology \<Rightarrow> health_check_result \<Rightarrow> monitor_state
    \<Rightarrow> ('e world, monitor_state) state" where
  "process_result env cfg t r st =
    (case hm_get (node_configs t) (hc_node_id r) of
       None \<Rightarrow> State_Monad.return st
     | Some nc \<Rightarrow>
        if reachable r \<and> \<not> has_data r \<and> hc_node_id r \<noteq> primary_node_id t then do {
          now \<leftarrow> invoke env InstantMs;
          (let (act, sp) = sighted (hc_node_id r) (failures_before_failover cfg) REJOIN_COOLDOWN
                 (as_millis now) (unseeded st)
           in do {
             (if act then spawn_seed env cfg (hc_node_id r) else skip);
             State_Monad.return (st\<lparr>unseeded := sp\<rparr>) }) }
        else if reachable r \<and> pg_running r then process_healthy env cfg t nc r st
        else process_failed env cfg t r st)"

fun check_all :: "'e environment \<Rightarrow> (string, node_config) hashmap \<Rightarrow> ('e world, health_check_result list) state" where
  "check_all env [] = State_Monad.return []"
| "check_all env ((n, nc) # rest) = do {
     r \<leftarrow> check_node env n (agent_addr nc);
     rs \<leftarrow> check_all env rest;
     State_Monad.return (r # rs) }"

fun process_all ::
  "'e environment \<Rightarrow> monitor_config \<Rightarrow> cluster_topology \<Rightarrow> health_check_result list \<Rightarrow> monitor_state
    \<Rightarrow> ('e world, monitor_state) state" where
  "process_all env cfg t [] st = State_Monad.return st"
| "process_all env cfg t (r # rs) st = do {
     st' \<leftarrow> process_result env cfg t r st;
     process_all env cfg t rs st' }"

definition poll_all_nodes ::
  "'e environment \<Rightarrow> monitor_config \<Rightarrow> cluster_topology \<Rightarrow> monitor_state \<Rightarrow> ('e world, monitor_state) state" where
  "poll_all_nodes env cfg t st = do {
     results \<leftarrow> check_all env (node_configs t);
     timer \<leftarrow> (case find (\<lambda>r. hc_node_id r = primary_node_id t \<and> reachable r \<and> pg_running r \<and> \<not> in_recovery r)
                  results of
                 None \<Rightarrow> State_Monad.return (degrade_timer st)
               | Some primary \<Rightarrow> reconcile_replication env cfg t primary (degrade_timer st));
     process_all env cfg t results (st\<lparr>degrade_timer := timer\<rparr>) }"

text \<open>
  One tick of the loop: only the Raft leader that holds the quorum lease polls.
  The periodic audit of orphaned slots is SQL on the primary and is left out.
\<close>

definition monitor_tick ::
  "'e environment \<Rightarrow> monitor_config \<Rightarrow> u64 option \<Rightarrow> u64 \<Rightarrow> bool \<Rightarrow> cluster_topology \<Rightarrow> monitor_state
    \<Rightarrow> ('e world, monitor_state) state" where
  "monitor_tick env cfg leader my_id quorum_held t st =
    (case leader of
       None \<Rightarrow> State_Monad.return st
     | Some l \<Rightarrow>
        if l \<noteq> my_id then State_Monad.return st
        else if \<not> quorum_held then State_Monad.return st
        else poll_all_nodes env cfg t st)"

text \<open>The heartbeat task: one round over the configured nodes.\<close>

definition send_heartbeat :: "'e environment \<Rightarrow> string \<Rightarrow> string \<Rightarrow> ('e world, unit) state" where
  "send_heartbeat env n addr = do {
     c \<leftarrow> call_ok env (Connect n addr);
     (case c of
        Inl _ \<Rightarrow> do { invoke env (Evict n); skip }
      | Inr _ \<Rightarrow> do {
          h \<leftarrow> call_ok env (Heartbeat n);
          (case h of
             Inl _ \<Rightarrow> do { invoke env (Evict n); skip }
           | Inr _ \<Rightarrow> skip) }) }"

definition heartbeat_round ::
  "'e environment \<Rightarrow> u64 option \<Rightarrow> u64 \<Rightarrow> bool \<Rightarrow> cluster_topology \<Rightarrow> ('e world, unit) state" where
  "heartbeat_round env leader my_id quorum_held t =
    (if leader \<noteq> Some my_id \<or> \<not> quorum_held then skip
     else for_each (\<lambda>(n, nc). send_heartbeat env n (agent_addr nc)) (node_configs t))"


section \<open>Lemmas\<close>

subsection \<open>Counters and timers\<close>

text \<open>A health-check outcome: node, success, time.\<close>

type_synonym outcome = "string \<times> bool \<times> nat"

fun record_outcome :: "outcome \<Rightarrow> failure_tracker \<Rightarrow> failure_tracker" where
  "record_outcome (n, good, now) tr = (if good then record_success n tr else record_failure now n tr)"

text \<open>The reference: the failures of \<open>n\<close> since its last success.\<close>

definition consecutive_failures :: "outcome list \<Rightarrow> string \<Rightarrow> nat" where
  "consecutive_failures os n =
    length (filter (\<lambda>(m, good, now). m = n) (takeWhile (\<lambda>(m, good, now). \<not> (m = n \<and> good)) (rev os)))"

lemma failure_count_record:
  "failure_count (record_outcome (m, good, now) tr) n =
    (if m = n then if good then 0 else failure_count tr n + 1 else failure_count tr n)"
  by (auto simp: failure_count_def record_success_def record_failure_def hm_get_or_def hm_simps Let_def
      split: option.splits)

text \<open>A tick of the fallback timer: topology, whether a standby streams, time.\<close>

type_synonym degrade_tick = "cluster_topology \<times> bool \<times> nat"

fun run_timer :: "nat \<Rightarrow> degrade_tick list \<Rightarrow> nat option \<Rightarrow> nat option" where
  "run_timer timeout [] since = since"
| "run_timer timeout ((t, streaming, now) # ticks) since =
    run_timer timeout ticks (snd (degrade_step t streaming timeout now since))"

definition no_standby :: "degrade_tick \<Rightarrow> bool" where
  "no_standby x = (case x of (t, streaming, now) \<Rightarrow> replication_mode t = Sync \<and> \<not> streaming)"

definition since_backed :: "degrade_tick list \<Rightarrow> nat option \<Rightarrow> bool" where
  "since_backed ticks since \<longleftrightarrow> (\<forall>s. since = Some s \<longrightarrow>
    (\<exists>pre mid t str. ticks = pre @ (t, str, s) # mid \<and> list_all no_standby ((t, str, s) # mid)))"

lemma since_backed_None [simp]: "since_backed ticks None"
  by (simp add: since_backed_def)

lemma since_backedI:
  "ticks = pre @ (t, str, s) # mid \<Longrightarrow> list_all no_standby ((t, str, s) # mid) \<Longrightarrow>
    since_backed ticks (Some s)"
  unfolding since_backed_def by blast

lemma degrade_step_since:
  assumes "replication_mode t = Sync" "\<not> str"
  shows "snd (degrade_step t str timeout now since)
    \<in> {None, Some (case since of None \<Rightarrow> now | Some s \<Rightarrow> s)}"
  using assms by (auto simp: degrade_step_def Let_def split: option.splits)

lemma degrade_step_backed:
  assumes "since_backed ticks since"
  shows "since_backed (ticks @ [(t, str, now)]) (snd (degrade_step t str timeout now since))"
proof (cases "replication_mode t = Sync \<and> \<not> str")
  case False
  then show ?thesis by (auto simp: degrade_step_def)
next
  case True
  then have nb: "no_standby (t, str, now)" by (simp add: no_standby_def)
  have "since_backed (ticks @ [(t, str, now)]) (Some (case since of None \<Rightarrow> now | Some s \<Rightarrow> s))"
  proof (cases since)
    case None
    then show ?thesis using nb by (simp add: since_backedI [of _ ticks t str now "[]"])
  next
    case (Some s)
    then obtain pre mid t' str' where "ticks = pre @ (t', str', s) # mid"
      "list_all no_standby ((t', str', s) # mid)"
      using assms unfolding since_backed_def by blast
    then show ?thesis using nb Some
      by (simp add: since_backedI [of _ pre t' str' s "mid @ [(t, str, now)]"])
  qed
  then show ?thesis using degrade_step_since [of t str timeout now since] True by auto
qed

lemma run_timer_snoc:
  "run_timer timeout (ticks @ [(t, str, now)]) since
    = snd (degrade_step t str timeout now (run_timer timeout ticks since))"
  by (induction ticks arbitrary: since) auto

lemma run_timer_backed: "since_backed ticks (run_timer timeout ticks None)"
proof (induction ticks rule: rev_induct)
  case (snoc x ticks)
  then show ?case using degrade_step_backed by (cases x) (simp add: run_timer_snoc)
qed (simp add: since_backed_def)

text \<open>
  A streaming external standby counts as a standby for the fallback although it
  takes no part in synchronous commit: the timer never runs out while it streams.
\<close>

lemma external_standby_blocks_fallback:
  assumes "replication_mode t = Sync" "\<not> sync_degraded t" "x \<in> set (streaming_standbys primary)"
    and "hm_get (node_configs t) x = Some cfg" "is_external cfg" "hm_wf (node_configs t)"
  shows "degrade_step t (standby_streaming t primary) timeout now since = (Stay, None)
    \<and> x \<notin> set (standbys t)"
proof -
  have "standby_streaming t primary"
    using assms(3,4) by (auto simp: standby_streaming_def list_ex_iff)
  then show ?thesis using assms by (simp add: degrade_step_def set_standbys)
qed

text \<open>The times at which a node sighted at \<open>nows\<close>, with clearings in between, is acted on.\<close>

fun acted :: "string \<Rightarrow> u32 \<Rightarrow> nat \<Rightarrow> nat option list \<Rightarrow> stale_primaries \<Rightarrow> nat list" where
  "acted n needed cooldown [] sp = []"
| "acted n needed cooldown (None # evs) sp = acted n needed cooldown evs (cleared n sp)"
| "acted n needed cooldown (Some now # evs) sp =
    (let (act, sp') = sighted n needed cooldown now sp
     in (if act then [now] else []) @ acted n needed cooldown evs sp')"

lemma sighted_act:
  "sighted n needed cooldown now sp = (True, sp') \<Longrightarrow>
    hm_get (last_attempt sp') n = Some now
    \<and> (\<forall>l. hm_get (last_attempt sp) n = Some l \<longrightarrow> cooldown \<le> now - l)"
  by (auto simp: sighted_def Let_def hm_simps split: if_splits option.splits)

lemma sighted_no_act:
  "sighted n needed cooldown now sp = (False, sp') \<Longrightarrow> last_attempt sp' = last_attempt sp"
  by (auto simp: sighted_def Let_def split: if_splits)

lemma acted_spaced:
  "0 < cooldown \<Longrightarrow> sorted_wrt (\<lambda>a b. a + cooldown \<le> b) (acted n needed cooldown evs sp)
    \<and> (\<forall>l b. hm_get (last_attempt sp) n = Some l \<longrightarrow> b \<in> set (acted n needed cooldown evs sp) \<longrightarrow> l + cooldown \<le> b)"
proof (induction n needed cooldown evs sp rule: acted.induct)
  case (2 n needed cooldown evs sp)
  then show ?case by (simp add: cleared_def)
next
  case (3 n needed cooldown now evs sp)
  obtain act sp' where s: "sighted n needed cooldown now sp = (act, sp')" by force
  note IH = "3.IH" [OF s [symmetric] refl "3.prems"]
  show ?case
  proof (cases act)
    case True
    have a: "hm_get (last_attempt sp') n = Some now
      \<and> (\<forall>l. hm_get (last_attempt sp) n = Some l \<longrightarrow> cooldown \<le> now - l)"
      using sighted_act [of n needed cooldown now sp sp'] s True by simp
    have "l + cooldown \<le> now" if "hm_get (last_attempt sp) n = Some l" for l
      using a that "3.prems" by fastforce
    then show ?thesis using IH a s True by fastforce
  next
    case False
    then show ?thesis using IH s sighted_no_act [of n needed cooldown now sp sp'] by simp
  qed
qed simp

subsection \<open>Reconciliation\<close>

abbreviation ssn :: string where
  "ssn \<equiv> ''synchronous_standby_names''"

fun clears_names :: "call \<Rightarrow> bool" where
  "clears_names (SetParameters n ps) \<longleftrightarrow> hm_get ps ssn = Some []"
| "clears_names _ \<longleftrightarrow> False"

fun clears_flag :: "call \<Rightarrow> bool" where
  "clears_flag (ClientWrite (SetSyncDegraded b)) \<longleftrightarrow> \<not> b"
| "clears_flag _ \<longleftrightarrow> False"

text \<open>The primary waits for \<open>names\<close>: it reported them already, or confirmed them.\<close>

definition waits_for :: "health_check_result \<Rightarrow> string \<Rightarrow> trace \<Rightarrow> bool" where
  "waits_for primary names tr \<longleftrightarrow> hm_get (parameters primary) ssn = Some names
     \<or> (\<exists>n ps msg. (SetParameters n ps, Replied True msg) \<in> set tr \<and> hm_get ps ssn = Some names)"

lemma desired_ssn:
  "hm_get (desired_parameters cfg primary names) ssn =
    (if hm_get (parameters primary) ssn = Some names then None else Some names)"
  by (simp add: desired_parameters_def)

lemma emits_track_reseeds:
  "emits_only (track_reseeds env cfg t primary) (\<lambda>c. \<not> clears_names c \<and> \<not> clears_flag c)"
  unfolding track_reseeds_def write_needs_reseed_def Let_def
  by (intro emits_only_rules) auto

lemma emits_ensure_proxy_auth:
  "emits_only (ensure_proxy_auth env cfg t primary) (\<lambda>c. \<not> clears_names c \<and> \<not> clears_flag c)"
  unfolding ensure_proxy_auth_def by (intro emits_only_rules) auto

lemma emits_apply_parameters:
  "emits (apply_parameters env t params) (\<lambda>r new. calls (\<lambda>c. \<not> clears_flag c) new
     \<and> (hm_get params ssn \<noteq> Some [] \<longrightarrow> calls (\<lambda>c. \<not> clears_names c) new)
     \<and> (r \<longrightarrow> (\<exists>n msg. (SetParameters n params, Replied True msg) \<in> set new)))"
  unfolding emits_def apply_parameters_def call_ok_def call_reply_def
  by (auto simp: wp_rules wp_invoke split: option.splits prod.splits sum.splits)

definition settle_spec :: "health_check_result \<Rightarrow> fallback \<Rightarrow> string \<Rightarrow> trace \<Rightarrow> bool" where
  "settle_spec primary fb names new \<longleftrightarrow>
     (names \<noteq> [] \<longrightarrow> calls (\<lambda>c. \<not> clears_names c) new)
   \<and> preceded clears_flag (\<lambda>b. fb = Restore \<and> waits_for primary names b) new"

lemma emits_settle_parameters:
  "emits (settle_parameters env cfg t primary fb names) (\<lambda>_ new. settle_spec primary fb names new)"
proof -
  let ?d = "desired_parameters cfg primary names"
  have first: "emits (if ?d \<noteq> [] then apply_parameters env t ?d else State_Monad.return True)
    (\<lambda>r new. calls (\<lambda>c. \<not> clears_flag c) new \<and> (names \<noteq> [] \<longrightarrow> calls (\<lambda>c. \<not> clears_names c) new)
      \<and> (r \<longrightarrow> waits_for primary names new))"
  proof (cases "?d = []")
    case True
    then have "waits_for primary names []"
      using desired_ssn [of cfg primary names] by (simp add: waits_for_def split: if_splits)
    then show ?thesis using True by (simp add: emits_return)
  next
    case False
    show ?thesis using False
      by (simp, intro emits_mono [OF emits_apply_parameters])
        (use desired_ssn [of cfg primary names] in \<open>auto simp: waits_for_def split: if_splits\<close>)
  qed
  show ?thesis
    unfolding settle_parameters_def Let_def
  proof (rule emits_bind [OF first], goal_cases)
    case (1 r new)
    show ?case
    proof (cases r)
      case False
      then show ?thesis using 1 by (simp add: emits_return settle_spec_def preceded_never)
    next
      case True
      let ?wrt = "if fb = Restore then do { invoke env (ClientWrite (SetSyncDegraded False)); skip } else skip"
      have wr: "emits ?wrt
        (\<lambda>_ n. calls (\<lambda>c. \<not> clears_names c) n \<and> preceded clears_flag (\<lambda>b. fb = Restore) n)"
        unfolding emits_def by (auto simp: wp_rules wp_invoke split: prod.splits)
      have "emits (do { ?wrt; track_reseeds env cfg t primary })
        (\<lambda>_ n. settle_spec primary fb names (new @ n))"
      proof (rule emits_bind [OF wr], rule emits_mono [OF emits_only_emits [OF emits_track_reseeds]])
        fix n2 n3 :: trace
        assume n2: "calls (\<lambda>c. \<not> clears_names c) n2 \<and> preceded clears_flag (\<lambda>b. fb = Restore) n2"
          and n3: "calls (\<lambda>c. \<not> clears_names c \<and> \<not> clears_flag c) n3"
        have w: "waits_for primary names (new @ b)" for b
          using 1 True by (auto simp: waits_for_def)
        have "preceded clears_flag (\<lambda>b. fb = Restore \<and> waits_for primary names (new @ b)) n2"
          using n2 w by simp
        moreover have "preceded clears_flag Q n3" for Q
          using n3 by (intro preceded_never) (auto elim: calls_mono)
        moreover have "calls (\<lambda>c. \<not> clears_names c) n3"
          using n3 by (rule calls_mono) simp
        ultimately show "settle_spec primary fb names (new @ n2 @ n3)"
          using 1 n2 by (simp add: settle_spec_def preceded_never)
      qed
      then show ?thesis using True by simp
    qed
  qed
qed

text \<open>
  The order of the fallback: the standby list of a primary that commits
  synchronously is cleared only after the fallback was recorded, and the record is
  removed only once the primary waits for its standbys again.
\<close>

definition reconcile_spec :: "cluster_topology \<Rightarrow> health_check_result \<Rightarrow> trace \<Rightarrow> bool" where
  "reconcile_spec t primary new \<longleftrightarrow>
     (synchronous_standby_names t \<noteq> [] \<longrightarrow>
        preceded clears_names (\<lambda>b. (ClientWrite (SetSyncDegraded True), Done) \<in> set b) new)
   \<and> preceded clears_flag (waits_for primary (standby_names t)) new"

lemma reconcile_spec_quiet:
  assumes "calls (\<lambda>c. \<not> clears_names c \<and> \<not> clears_flag c) tr"
  shows "reconcile_spec t primary tr"
  unfolding reconcile_spec_def
  by (intro conjI impI preceded_never) (rule calls_mono [OF assms], simp)+

lemma degrade_step_Restore:
  "degrade_step t str timeout now since = (Restore, since') \<Longrightarrow> replication_mode t = Sync \<and> sync_degraded t"
  by (auto simp: degrade_step_def Let_def split: if_splits)

lemma settle_reconcile:
  assumes "settle_spec primary fb names new" "calls (\<lambda>c. \<not> clears_names c \<and> \<not> clears_flag c) pre"
    and "fb = Restore \<Longrightarrow> names = standby_names t \<and> synchronous_standby_names t = []"
    and "fb = Stay \<Longrightarrow> names = synchronous_standby_names t"
    and "fb = Degrade \<Longrightarrow> (ClientWrite (SetSyncDegraded True), Done) \<in> set pre"
  shows "reconcile_spec t primary (pre @ new)"
proof -
  have pre: "preceded clears_names Q pre" "preceded clears_flag Q' pre" for Q Q'
    using assms(2) by (auto intro!: preceded_never elim: calls_mono)
  have "preceded clears_names (\<lambda>b. (ClientWrite (SetSyncDegraded True), Done) \<in> set (pre @ b)) new"
    if "synchronous_standby_names t \<noteq> []"
    using that assms by (cases fb) (auto simp: settle_spec_def intro: preceded_never preceded_always)
  moreover have "preceded clears_flag (\<lambda>b. waits_for primary (standby_names t) (pre @ b)) new"
  proof (rule preceded_mono)
    show "preceded clears_flag (\<lambda>b. fb = Restore \<and> waits_for primary names b) new"
      using assms(1) by (simp add: settle_spec_def)
  qed (use assms(3) in \<open>auto simp: waits_for_def\<close>)
  ultimately show ?thesis using pre by (simp add: reconcile_spec_def)
qed

lemma emits_reconcile:
  "emits (reconcile_replication env cfg t primary timer) (\<lambda>_ new. reconcile_spec t primary new)"
  unfolding reconcile_replication_def
proof (rule emits_bind [OF emits_only_emits [OF emits_ensure_proxy_auth]],
    rule emits_bind [where R = "\<lambda>a n. n = [(InstantMs, a)]"], simp add: emits_invoke, goal_cases)
  case (1 u pre now new)
  obtain fb timer' where fb: "degrade_step t (standby_streaming t primary)
      (sync_degrade_timeout_seconds cfg * 1000) (as_millis now) timer = (fb, timer')" by force
  have pre: "calls (\<lambda>c. \<not> clears_names c \<and> \<not> clears_flag c) (pre @ new)" using 1 by simp
  have settle: "emits (do { settle_parameters env cfg t primary fb names; State_Monad.return timer' })
      (\<lambda>_ n. reconcile_spec t primary (pre' @ n))"
    if "\<And>n. settle_spec primary fb names n \<Longrightarrow> reconcile_spec t primary (pre' @ n)" for names pre'
    by (rule emits_bind [OF emits_settle_parameters], rule emits_return) (use that in simp)
  show ?case
  proof (cases fb)
    case Stay
    have "emits (do { settle_parameters env cfg t primary fb (synchronous_standby_names t);
        State_Monad.return timer' }) (\<lambda>_ n. reconcile_spec t primary ((pre @ new) @ n))"
      by (rule settle, rule settle_reconcile [OF _ pre], assumption) (use Stay in auto)
    then show ?thesis using fb Stay by simp
  next
    case Restore
    then have names: "synchronous_standby_names t = []"
      using degrade_step_Restore fb by (simp add: synchronous_standby_names_def)
    have "emits (do { settle_parameters env cfg t primary fb (standby_names t);
        State_Monad.return timer' }) (\<lambda>_ n. reconcile_spec t primary ((pre @ new) @ n))"
      by (rule settle, rule settle_reconcile [OF _ pre], assumption) (use Restore names in auto)
    then show ?thesis using fb Restore by simp
  next
    case Degrade
    let ?w = "\<lambda>a. [(ClientWrite (SetSyncDegraded True), a)]"
    have "emits (do { w \<leftarrow> call_ok env (ClientWrite (SetSyncDegraded True));
        (case w of Inl _ \<Rightarrow> State_Monad.return timer'
         | Inr _ \<Rightarrow> do { settle_parameters env cfg t primary Degrade []; State_Monad.return timer' }) })
      (\<lambda>_ n. reconcile_spec t primary ((pre @ new) @ n))"
    proof (rule emits_bind [where R = "\<lambda>w n. \<exists>a. w = as_ok a \<and> n = ?w a"],
        rule emits_call_ok, blast, goal_cases)
      case (1 w n)
      then obtain a where a: "w = as_ok a" "n = ?w a" by blast
      have pre': "calls (\<lambda>c. \<not> clears_names c \<and> \<not> clears_flag c) ((pre @ new) @ n)"
        using pre a by simp
      show ?case
      proof (cases w)
        case (Inl e)
        have "reconcile_spec t primary ((pre @ new) @ n)"
          using pre' by (rule reconcile_spec_quiet)
        then show ?thesis using Inl by (simp add: emits_return)
      next
        case (Inr x)
        then have rec: "(ClientWrite (SetSyncDegraded True), Done) \<in> set ((pre @ new) @ n)"
          using a by simp
        have "emits (do { settle_parameters env cfg t primary Degrade []; State_Monad.return timer' })
            (\<lambda>_ n'. reconcile_spec t primary (((pre @ new) @ n) @ n'))"
          by (rule settle [unfolded Degrade], rule settle_reconcile [OF _ pre'], assumption) (use Degrade rec in auto)
        then show ?thesis using Inr by simp
      qed
    qed
    then show ?thesis using fb Degrade by simp
  qed
qed

subsection \<open>Failover from the monitor\<close>

fun promotes :: "call \<Rightarrow> bool" where
  "promotes (Promote _) = True"
| "promotes _ = False"

text \<open>What must have happened before the monitor promotes a node.\<close>

definition failover_allowed ::
  "monitor_config \<Rightarrow> cluster_topology \<Rightarrow> health_check_result \<Rightarrow> monitor_state \<Rightarrow> trace \<Rightarrow> bool" where
  "failover_allowed cfg t r st before \<longleftrightarrow>
     hc_node_id r = primary_node_id t \<and> \<not> (reachable r \<and> pg_running r)
   \<and> (\<exists>now. is_failed (record_failure now (hc_node_id r) (tracker st)) (hc_node_id r) (failures_before_failover cfg))
   \<and> (TryBeginOp, Flag True) \<in> set before
   \<and> (ClientWrite (MarkOffline (primary_node_id t)), Done) \<in> set before"

lemma as_flag_True [simp]: "as_flag a \<longleftrightarrow> a = Flag True"
  by (cases a) auto

lemma process_healthy_quiet:
  "emits_only (process_healthy env cfg t nc r st) (\<lambda>c. \<not> promotes c \<and> c \<noteq> TryBeginOp)"
  unfolding process_healthy_def is_stale_primary_def push_backup_settings_def spawn_rejoin_def
    repoint_recovered_def Let_def
  by (intro emits_only_rules) auto

lemma emits_process_failed:
  assumes "\<not> (reachable r \<and> pg_running r)"
  shows "emits (process_failed env cfg t r st) (\<lambda>_ new. preceded promotes (failover_allowed cfg t r st) new
    \<and> ((TryBeginOp, Flag True) \<in> set new \<longrightarrow> fst (last new) = EndOp))"
proof (cases "hm_get (node_roles t) (hc_node_id r) = Some Maintenance")
  case True
  then show ?thesis by (simp add: process_failed_def emits_return)
next
  case False
  let ?n = "hc_node_id r"
  let ?th = "failures_before_failover cfg"
  let ?R = "\<lambda>new. preceded promotes (failover_allowed cfg t r st) new
    \<and> ((TryBeginOp, Flag True) \<in> set new \<longrightarrow> fst (last new) = EndOp)"
  have failover: "emits (do {
      trigger_failover env t ?n (repl_user cfg) (repl_password cfg) (slot_prefix cfg);
      invoke env EndOp; State_Monad.return x }) (\<lambda>_ new. ?R (pre @ new))"
    if "\<And>b. failover_allowed cfg t r st (pre @ b)" "calls (\<lambda>c. \<not> promotes c) pre" for pre x
  proof (rule emits_bind [OF emits_only_emits [OF trigger_failover_appends]],
      rule emits_bind [where R = "\<lambda>a n. n = [(EndOp, a)]"], simp add: emits_invoke, rule emits_return)
    fix a :: answer and n2 n3 :: trace assume "n3 = [(EndOp, a)]"
    then show "?R (pre @ n2 @ n3 @ [])"
      using that by (simp add: preceded_never preceded_always)
  qed
  have marked: "emits (do {
      w \<leftarrow> call_ok env (ClientWrite (MarkOffline ?n));
      (case w of
         Inl _ \<Rightarrow> do { invoke env EndOp; State_Monad.return x }
       | Inr _ \<Rightarrow> do {
           trigger_failover env t ?n (repl_user cfg) (repl_password cfg) (slot_prefix cfg);
           invoke env EndOp; State_Monad.return y }) }) (\<lambda>_ new. ?R ([(InstantMs, now)] @ [(TryBeginOp, Flag True)] @ new))"
    if n: "?n = primary_node_id t" "is_failed (record_failure (as_millis now) ?n (tracker st)) ?n ?th" for now x y
  proof (rule emits_bind [where R = "\<lambda>w n. \<exists>a. w = as_ok a \<and> n = [(ClientWrite (MarkOffline ?n), a)]"],
      rule emits_call_ok, blast, goal_cases)
    case (1 w new)
    then obtain a where a: "w = as_ok a" "new = [(ClientWrite (MarkOffline ?n), a)]" by blast
    let ?pre = "[(InstantMs, now), (TryBeginOp, Flag True)] @ new"
    show ?case
    proof (cases w)
      case (Inl e)
      have "emits (do { invoke env EndOp; State_Monad.return x }) (\<lambda>_ m. ?R (?pre @ m))"
        by (rule emits_bind [where R = "\<lambda>a n. n = [(EndOp, a)]"], simp add: emits_invoke, rule emits_return)
          (simp add: a)
      then show ?thesis using Inl by simp
    next
      case (Inr u)
      have "a = Done" using a(1) Inr as_ok_Inr [of a u] by simp
      then have "failover_allowed cfg t r st (?pre @ b)" for b
        using n assms a by (auto simp: failover_allowed_def)
      then have "emits (do {
          trigger_failover env t ?n (repl_user cfg) (repl_password cfg) (slot_prefix cfg);
          invoke env EndOp; State_Monad.return y }) (\<lambda>_ m. ?R (?pre @ m))"
        by (rule failover) (simp add: a)
      then show ?thesis using Inr by simp
    qed
  qed
  show ?thesis
    unfolding process_failed_def Let_def if_not_P [OF False]
  proof (rule emits_bind [where R = "\<lambda>a n. n = [(InstantMs, a)]"], simp add: emits_invoke, goal_cases)
    case (1 now new)
    let ?st = "st\<lparr>tracker := record_failure (as_millis now) ?n (tracker st)\<rparr>"
    show ?case
    proof (cases "is_failed (tracker ?st) ?n ?th \<and> ?n = primary_node_id t")
      case no: False
      then show ?thesis unfolding if_not_P [OF no] using 1 by (simp add: emits_return)
    next
      case yes: True
      show ?thesis
        unfolding if_P [OF yes]
      proof (rule emits_bind [where R = "\<lambda>a n. n = [(TryBeginOp, a)]"], simp add: emits_invoke, goal_cases)
        case (1 got new')
        show ?case
        proof (cases "as_flag got")
          case False
          then show ?thesis using 1 \<open>new = [(InstantMs, now)]\<close> by (simp add: emits_return)
        next
          case True
          then have got: "got = Flag True" by simp
          have n: "?n = primary_node_id t" "is_failed (record_failure (as_millis now) ?n (tracker st)) ?n ?th"
            using yes by auto
          show ?thesis
            unfolding \<open>new = [(InstantMs, now)]\<close> 1 got as_flag.simps not_True_eq_False if_False
            by (rule marked [OF n])
        qed
      qed
    qed
  qed
qed

lemma emits_process_result:
  "emits (process_result env cfg t r st) (\<lambda>_ new. preceded promotes (failover_allowed cfg t r st) new
    \<and> ((TryBeginOp, Flag True) \<in> set new \<longrightarrow> fst (last new) = EndOp))"
proof -
  have quiet: "emits m (\<lambda>_ new. preceded promotes (failover_allowed cfg t r st) new
    \<and> ((TryBeginOp, Flag True) \<in> set new \<longrightarrow> fst (last new) = EndOp))"
    if "emits_only m (\<lambda>c. \<not> promotes c \<and> c \<noteq> TryBeginOp)" for m :: "('a world, monitor_state) state"
  proof (rule emits_mono [OF emits_only_emits [OF that]])
    fix new :: trace assume c: "calls (\<lambda>c. \<not> promotes c \<and> c \<noteq> TryBeginOp) new"
    have "calls (\<lambda>c. \<not> promotes c) new" using c by (rule calls_mono) simp
    moreover have "(TryBeginOp, Flag True) \<notin> set new" using calls_mem [OF c] by blast
    ultimately show "preceded promotes (failover_allowed cfg t r st) new
      \<and> ((TryBeginOp, Flag True) \<in> set new \<longrightarrow> fst (last new) = EndOp)"
      by (simp add: preceded_never)
  qed
  show ?thesis
  proof (cases "hm_get (node_configs t) (hc_node_id r)")
    case None
    then show ?thesis by (simp add: process_result_def emits_return)
  next
    case (Some nc)
    consider (empty) "reachable r \<and> \<not> has_data r \<and> hc_node_id r \<noteq> primary_node_id t"
      | (healthy) "\<not> (reachable r \<and> \<not> has_data r \<and> hc_node_id r \<noteq> primary_node_id t)" "reachable r \<and> pg_running r"
      | (failed) "\<not> (reachable r \<and> \<not> has_data r \<and> hc_node_id r \<noteq> primary_node_id t)" "\<not> (reachable r \<and> pg_running r)"
      by blast
    then show ?thesis
    proof cases
      case empty
      then show ?thesis unfolding process_result_def Some option.case if_P [OF empty] spawn_seed_def Let_def
        by (intro quiet emits_only_rules) auto
    next
      case healthy
      then show ?thesis unfolding process_result_def Some option.case if_not_P [OF healthy(1)] if_P [OF healthy(2)]
        by (intro quiet process_healthy_quiet)
    next
      case failed
      show ?thesis unfolding process_result_def Some option.case if_not_P [OF failed(1)] if_not_P [OF failed(2)]
        by (rule emits_process_failed [OF failed(2)])
    qed
  qed
qed


section \<open>Properties\<close>

text \<open>Settings and environments of the concrete runs.\<close>

definition demo_monitor_config :: monitor_config where
  "demo_monitor_config =
    \<lparr>failures_before_failover = 1, sync_degrade_timeout_seconds = 1, max_slot_wal_keep_size_mb = 64,
     slot_prefix = ''s_'', repl_user = ''u'', repl_password = ''p'', auth_user = [], auth_password = [],
     auth_version = [], backup_settings = None\<rparr>"

definition demo_monitor_state :: monitor_state where
  "demo_monitor_state =
    \<lparr>tracker = [], degrade_timer = Some 0, stale = \<lparr>sightings = [], last_attempt = []\<rparr>,
     unseeded = \<lparr>sightings = [], last_attempt = []\<rparr>\<rparr>"

definition demo_sync_topology :: cluster_topology where
  "demo_sync_topology = demo_topology\<lparr>replication_mode := Sync\<rparr>"

definition monitor_env :: "string list environment" where
  "monitor_env ps c =
    (case c of TryBeginOp \<Rightarrow> (Flag True, ps) | InstantMs \<Rightarrow> (Millis 1200, ps)
     | SetParameters n ms \<Rightarrow> (Replied True [], ps) | _ \<Rightarrow> demo_env ps c)"

definition demo_primary :: health_check_result where
  "demo_primary = status_result ''a'' (demo_status False 9)"

definition demo_reconcile_trace :: trace where
  "demo_reconcile_trace =
    snd (snd (run_state (reconcile_replication monitor_env demo_monitor_config demo_sync_topology demo_primary (Some 0)) ([], [])))"

definition demo_poll_trace :: trace where
  "demo_poll_trace =
    snd (snd (run_state (process_result monitor_env demo_monitor_config demo_topology
      (unreachable_result ''a'') demo_monitor_state) ([], [])))"

lemma run_trace: "run_state m s = (fst (run_state m s), (fst (snd (run_state m s)), snd (snd (run_state m s))))"
  by simp

lemma demo_reconcile_trace_eq:
  "demo_reconcile_trace =
    [(InstantMs, Millis 1200), (ClientWrite (SetSyncDegraded True), Done), (Connect ''a'' ''a:7001'', Done)]
    @ (SetParameters ''a'' [(ssn, []), (''max_slot_wal_keep_size'', ''64'')], Replied True []) # []"
  by code_simp

lemma demo_poll_trace_nth:
  "map fst (take 10 demo_poll_trace) =
    [InstantMs, TryBeginOp, ClientWrite (MarkOffline ''a''), InstantMs, Connect ''b'' ''b:7001'', GetStatus ''b'',
     Connect ''c'' ''c:7001'', GetStatus ''c'', Connect ''b'' ''b:7001'', Promote ''b'']"
  "snd (last (take 10 demo_poll_trace)) = Replied True []"
  by code_simp+

lemma demo_poll_trace_split:
  "demo_poll_trace = take 9 demo_poll_trace @ (Promote ''b'', Replied True []) # drop 10 demo_poll_trace"
proof -
  have "length (map fst (take 10 demo_poll_trace)) = 10" unfolding demo_poll_trace_nth(1) by simp
  then have len: "9 < length demo_poll_trace" by simp
  then have l: "take 10 demo_poll_trace = take 9 demo_poll_trace @ [demo_poll_trace ! 9]"
    using take_Suc_conv_app_nth [OF len] by simp
  have "fst (demo_poll_trace ! 9) = Promote ''b''"
    using demo_poll_trace_nth(1) arg_cong [OF l, of "\<lambda>xs. last (map fst xs)"] by simp
  moreover have "snd (demo_poll_trace ! 9) = Replied True []"
    using demo_poll_trace_nth(2) unfolding l by simp
  ultimately have "demo_poll_trace ! 9 = (Promote ''b'', Replied True [])" by (simp add: prod_eq_iff)
  then show ?thesis by (intro trans [OF id_take_nth_drop [OF len]]) simp
qed

text \<open>The failure count of a node is the number of its failed checks since its
  last successful one, whatever the other nodes did in between (modulo the 32-bit
  width of the counter).\<close>

theorem failure_count_is_consecutive:
  "failure_count (fold record_outcome os []) n = of_nat (consecutive_failures os n)"
proof (induction os rule: rev_induct)
  case Nil
  show ?case by (simp add: failure_count_def consecutive_failures_def)
next
  case (snoc x os)
  obtain m good now where x: "x = (m, good, now)" by (cases x)
  show ?case using snoc
    by (auto simp: x failure_count_record consecutive_failures_def simp del: record_outcome.simps)
qed

text \<open>C20.  Synchronous replication falls back only after a full timeout without a
  standby: when the timer says to degrade, the mode is the synchronous one with no
  fallback in force, and at every tick since one at least the timeout ago no
  standby was streaming.\<close>

theorem degrade_only_after_timeout:
  assumes "degrade_step t streaming timeout now (run_timer timeout ticks None) = (Degrade, since')"
  shows "replication_mode t = Sync \<and> \<not> sync_degraded t \<and> \<not> streaming \<and>
    (\<exists>pre mid. ticks @ [(t, streaming, now)] = pre @ mid \<and> mid \<noteq> [] \<and> list_all no_standby mid
       \<and> timeout \<le> now - snd (snd (hd mid)))"
proof -
  let ?since = "run_timer timeout ticks None"
  have t: "replication_mode t = Sync" "\<not> sync_degraded t" "\<not> streaming"
    and timeout: "timeout \<le> now - (case ?since of None \<Rightarrow> now | Some s \<Rightarrow> s)"
    using assms by (auto simp: degrade_step_def Let_def split: if_splits)
  have nb: "no_standby (t, streaming, now)" using t by (simp add: no_standby_def)
  have "\<exists>pre mid. ticks @ [(t, streaming, now)] = pre @ mid \<and> mid \<noteq> [] \<and> list_all no_standby mid
       \<and> timeout \<le> now - snd (snd (hd mid))"
  proof (cases ?since)
    case None
    then show ?thesis using nb timeout by (intro exI [of _ ticks] exI [of _ "[(t, streaming, now)]"]) simp
  next
    case (Some s)
    then obtain pre mid t' str' where "ticks = pre @ (t', str', s) # mid"
      "list_all no_standby ((t', str', s) # mid)"
      using run_timer_backed [of ticks timeout] unfolding since_backed_def by blast
    then show ?thesis using nb timeout Some
      by (intro exI [of _ pre] exI [of _ "(t', str', s) # mid @ [(t, streaming, now)]"]) simp
  qed
  then show ?thesis using t by simp
qed

theorem degrade_only_after_timeout_witness:
  "let t = default_topology\<lparr>replication_mode := Sync\<rparr>
   in degrade_step t False 30 40 (run_timer 30 [(t, True, 5), (t, False, 10), (t, False, 25)] None) = (Degrade, None)
    \<and> (\<exists>pre mid. [(t, True, 5), (t, False, 10), (t, False, 25), (t, False, 40)] = pre @ mid \<and> mid \<noteq> []
        \<and> list_all no_standby mid \<and> 30 \<le> 40 - snd (snd (hd mid)))"
proof -
  let ?t = "default_topology\<lparr>replication_mode := Sync\<rparr>"
  have d: "degrade_step ?t False 30 40 (run_timer 30 [(?t, True, 5), (?t, False, 10), (?t, False, 25)] None) = (Degrade, None)"
    by (simp add: degrade_step_def default_topology_def Let_def)
  from d degrade_only_after_timeout [OF d] show ?thesis by (simp add: Let_def)
qed

text \<open>C19.  Whatever the environment answers, the monitor clears the standby list of a
  primary that commits synchronously only after the log accepted the record of the
  fallback, and removes that record only once the primary reported or confirmed
  that it waits for its standbys.\<close>

theorem fallback_recorded_first:
  assumes "run_state (reconcile_replication env cfg t primary timer) (e, []) = (r, (e', tr))"
    and "tr = before @ (c, a) # later"
  shows "(clears_names c \<and> synchronous_standby_names t \<noteq> [] \<longrightarrow>
            (ClientWrite (SetSyncDegraded True), Done) \<in> set before)
       \<and> (clears_flag c \<longrightarrow> waits_for primary (standby_names t) before)"
  using emits_trace [OF emits_reconcile assms(1)] assms(2)
  unfolding reconcile_spec_def by auto

theorem fallback_recorded_first_witness:
  "synchronous_standby_names demo_sync_topology \<noteq> []
    \<and> clears_names (fst (demo_reconcile_trace ! 3))
    \<and> (ClientWrite (SetSyncDegraded True), Done) \<in> set (take 3 demo_reconcile_trace)"
proof -
  have "synchronous_standby_names demo_sync_topology \<noteq> []"
    by (simp add: synchronous_standby_names_def demo_sync_topology_def demo_topology_def default_topology_def
          standby_names_def standbys_def demo_config_def is_external_def)
  then show ?thesis
    using fallback_recorded_first [OF run_trace demo_reconcile_trace_eq [unfolded demo_reconcile_trace_def]]
    unfolding demo_reconcile_trace_eq by simp
qed



text \<open>C27.  A stale primary is acted on at most once per cooldown.\<close>

theorem rejoins_are_spaced:
  assumes "0 < cooldown"
  shows "sorted_wrt (\<lambda>a b. a + cooldown \<le> b) (acted n needed cooldown events sp)"
  using acted_spaced [OF assms] by blast

theorem rejoins_are_spaced_witness:
  "let sp = \<lparr>sightings = [], last_attempt = []\<rparr>; events = [Some 1, Some 2, Some 3, Some 70, None, Some 80, Some 90]
   in acted ''n'' 2 50 events sp = [2, 70]
    \<and> sorted_wrt (\<lambda>a b. a + 50 \<le> b) (acted ''n'' 2 50 events sp)"
proof -
  have "acted ''n'' 2 50 [Some 1, Some 2, Some 3, Some 70, None, Some 80, Some 90]
      \<lparr>sightings = [], last_attempt = []\<rparr> = [2, 70]"
    by code_simp
  then show ?thesis
    using rejoins_are_spaced [of 50 "''n''" 2 "[Some 1, Some 2, Some 3, Some 70, None, Some 80, Some 90]"
        "\<lparr>sightings = [], last_attempt = []\<rparr>"] by (simp only: Let_def simp_thms)
qed

end
