(* ===== verification/Polling.thy ===== *)
theory Polling
  imports Effects
begin

text \<open>
  Loops that poll until a deadline, as in \<open>switchover/lag_wait.rs\<close> and
  \<open>switchover/rolling.rs\<close>.  A loop has fuel, because nothing in the code itself
  bounds the number of turns: it ends when the clock passes the deadline.  Running
  out of fuel is \<open>None\<close>.  With a clock that never runs backwards and a sleep that
  lasts at least as long as asked, fuel for \<open>timeout div period + 2\<close> turns is
  enough (\<open>poll_until_returns\<close>).
\<close>

section \<open>Programs that may run out of fuel\<close>

definition finish :: "('s, string + 'a) state \<Rightarrow> ('s, (string + 'a) option) state" where
  "finish m = do { r \<leftarrow> m; State_Monad.return (Some r) }"

text \<open>The question mark operator after a loop.\<close>

definition then_try ::
  "('s, (string + 'a) option) state \<Rightarrow> ('a \<Rightarrow> ('s, (string + 'b) option) state)
    \<Rightarrow> ('s, (string + 'b) option) state" where
  "then_try m f = do {
     r \<leftarrow> m;
     (case r of
        None \<Rightarrow> State_Monad.return None
      | Some (Inl e) \<Rightarrow> State_Monad.return (Some (Inl e))
      | Some (Inr x) \<Rightarrow> f x) }"

fun poll_until ::
  "'e environment \<Rightarrow> nat \<Rightarrow> nat \<Rightarrow> ('e world, bool) state \<Rightarrow> string \<Rightarrow> nat
    \<Rightarrow> ('e world, (string + unit) option) state" where
  "poll_until env deadline period body msg 0 = State_Monad.return None"
| "poll_until env deadline period body msg (Suc fuel) = do {
     now \<leftarrow> invoke env InstantMs;
     (if deadline \<le> as_millis now then State_Monad.return (Some (Inl msg))
      else do {
        reached \<leftarrow> body;
        (if reached then State_Monad.return (Some (Inr ()))
         else do {
           invoke env (Sleep period);
           poll_until env deadline period body msg fuel }) }) }"


section \<open>Traces\<close>

lemma emits_then_try:
  assumes "emits m R" "\<And>n. R None n \<Longrightarrow> R' None n" "\<And>x n. R (Some (Inl x)) n \<Longrightarrow> R' (Some (Inl x)) n"
    and "\<And>x n. R (Some (Inr x)) n \<Longrightarrow> emits (f x) (\<lambda>r n'. R' r (n @ n'))"
  shows "emits (then_try m f) R'"
  unfolding then_try_def
proof (rule emits_bind [OF assms(1)])
  fix r n assume r: "R r n"
  consider "r = None" | x where "r = Some (Inl x)" | x where "r = Some (Inr x)"
    by (metis not_None_eq sum.exhaust)
  then show "emits (case r of None \<Rightarrow> State_Monad.return None
      | Some (Inl e) \<Rightarrow> State_Monad.return (Some (Inl e)) | Some (Inr x) \<Rightarrow> f x) (\<lambda>r n'. R' r (n @ n'))"
    by cases (use r assms in \<open>auto intro: emits_return\<close>)
qed

lemma emits_finish: "emits m (\<lambda>r n. R (Some r) n) \<Longrightarrow> emits (finish m) R"
  unfolding finish_def by (rule emits_bind [where R = "\<lambda>r n. R (Some r) n"]) (auto intro: emits_return)

lemma emits_only_then_try:
  "emits_only m P \<Longrightarrow> (\<And>x. emits_only (f x) P) \<Longrightarrow> emits_only (then_try m f) P"
  unfolding then_try_def
  by (rule emits_only_bind) (auto intro: emits_only_return split: option.split sum.split)

lemma emits_only_finish: "emits_only m P \<Longrightarrow> emits_only (finish m) P"
  unfolding finish_def by (intro emits_only_bind emits_only_return)

definition ends_with :: "(trace \<Rightarrow> bool) \<Rightarrow> trace \<Rightarrow> bool" where
  "ends_with Q n \<longleftrightarrow> (\<exists>us vs. n = us @ vs \<and> Q vs)"

lemma ends_with_refl: "Q n \<Longrightarrow> ends_with Q n"
  unfolding ends_with_def by (rule exI [of _ "[]"]) simp

lemma ends_with_append: "ends_with Q n \<Longrightarrow> ends_with Q (us @ n)"
  unfolding ends_with_def by (metis append_assoc)

lemma ends_with_Cons: "ends_with Q n \<Longrightarrow> ends_with Q (x # n)"
  using ends_with_append [of Q n "[x]"] by simp

text \<open>A loop that reports success ran its body to \<open>True\<close> last.\<close>

lemma emits_poll_until:
  assumes "emits body (\<lambda>r n. calls P n \<and> (r \<longrightarrow> Q n))"
    and "P InstantMs" "P (Sleep period)"
  shows "emits (poll_until env deadline period body msg fuel)
    (\<lambda>r n. calls P n \<and> (r = Some (Inr ()) \<longrightarrow> ends_with Q (n)))"
proof (induction fuel)
  case 0
  show ?case by (simp add: emits_return)
next
  case (Suc fuel)
  show ?case
    unfolding poll_until.simps
  proof (rule emits_bind [where R = "\<lambda>a n. n = [(InstantMs, a)]"], simp add: emits_invoke, goal_cases)
    case (1 now n)
    show ?case
    proof (cases "deadline \<le> as_millis now")
      case True
      then show ?thesis using 1 assms(2) by (simp add: emits_return)
    next
      case False
      have "emits (do {
          reached \<leftarrow> body;
          (if reached then State_Monad.return (Some (Inr ()))
           else do { invoke env (Sleep period); poll_until env deadline period body msg fuel }) })
        (\<lambda>r n'. calls P (n @ n') \<and> (r = Some (Inr ()) \<longrightarrow> ends_with Q (n @ n')))"
      proof (rule emits_bind [OF assms(1)], goal_cases)
        case (1 b n1)
        show ?case
        proof (cases b)
          case True
          then show ?thesis using 1 \<open>n = _\<close> assms(2)
            by (simp add: emits_return ends_with_refl ends_with_Cons)
        next
          case b: False
          have "emits (do { invoke env (Sleep period); poll_until env deadline period body msg fuel })
            (\<lambda>r n'. calls P (n @ n1 @ n') \<and>
              (r = Some (Inr ()) \<longrightarrow> ends_with Q (n @ n1 @ n')))"
          proof (rule emits_bind [where R = "\<lambda>a n. n = [(Sleep period, a)]"], simp add: emits_invoke)
            fix a :: answer and n2 assume n2: "n2 = [(Sleep period, a)]"
            show "emits (poll_until env deadline period body msg fuel)
              (\<lambda>r n'. calls P (n @ n1 @ n2 @ n') \<and>
                (r = Some (Inr ()) \<longrightarrow> ends_with Q (n @ n1 @ n2 @ n')))"
              by (rule emits_mono [OF Suc.IH]) (use 1 n2 \<open>n = _\<close> assms in \<open>auto intro: ends_with_Cons ends_with_append\<close>)
          qed
          then show ?thesis using b by simp
        qed
      qed
      then show ?thesis using False by simp
    qed
  qed
qed


section \<open>Termination\<close>

text \<open>
  An environment keeps time by \<open>clock\<close>, a view of its state: reading the time gives
  the clock, no call turns it back, and a sleep lasts at least as long as asked.
\<close>

definition keeps_time :: "'e environment \<Rightarrow> ('e \<Rightarrow> nat) \<Rightarrow> bool" where
  "keeps_time env clock \<longleftrightarrow>
    (\<forall>e. fst (env e InstantMs) = Millis (clock e))
    \<and> (\<forall>e c. clock e \<le> clock (snd (env e c)))
    \<and> (\<forall>e d. clock e + d \<le> clock (snd (env e (Sleep d))))"

text \<open>A program that does not turn back the clock: every program built of calls.\<close>

definition timely :: "('e \<Rightarrow> nat) \<Rightarrow> ('e world, 'a) state \<Rightarrow> bool" where
  "timely clock m \<longleftrightarrow> (\<forall>w. clock (fst w) \<le> clock (fst (snd (run_state m w))))"

lemma timely_return: "timely clock (State_Monad.return x)"
  by (simp add: timely_def)

lemma timely_bind:
  assumes "timely clock m" "\<And>x. timely clock (f x)"
  shows "timely clock (State_Monad.bind m f)"
  unfolding timely_def
proof
  fix w
  obtain x w' where r: "run_state m w = (x, w')" by (cases "run_state m w")
  have "clock (fst w) \<le> clock (fst w')" using assms(1) r unfolding timely_def by (metis snd_conv)
  also have "\<dots> \<le> clock (fst (snd (run_state (f x) w')))" using assms(2) unfolding timely_def by blast
  finally show "clock (fst w) \<le> clock (fst (snd (run_state (State_Monad.bind m f) w)))" by (simp add: r)
qed

lemma timely_invoke:
  assumes "keeps_time env clock"
  shows "timely clock (invoke env c)"
proof -
  have "clock e \<le> clock e'" if "env e c = (a, e')" for e a e'
    using assms that unfolding keeps_time_def by (metis snd_conv)
  then show ?thesis by (auto simp: timely_def invoke_def split: prod.splits)
qed

lemma timely_case_sum:
  "(\<And>x. timely clock (f x)) \<Longrightarrow> (\<And>x. timely clock (g x)) \<Longrightarrow>
    timely clock (case r of Inl x \<Rightarrow> f x | Inr x \<Rightarrow> g x)"
  by (cases r) auto

lemma timely_case_option:
  "timely clock f \<Longrightarrow> (\<And>x. timely clock (g x)) \<Longrightarrow>
    timely clock (case r of None \<Rightarrow> f | Some x \<Rightarrow> g x)"
  by (cases r) auto

lemma timely_if: "timely clock f \<Longrightarrow> timely clock g \<Longrightarrow> timely clock (if b then f else g)"
  by simp

lemmas timely_rules = timely_return timely_bind timely_invoke timely_case_sum timely_case_option timely_if

lemma poll_until_returns:
  assumes time: "keeps_time env clock" and body: "timely clock body"
    and "deadline \<le> clock e + fuel * period"
  shows "fst (run_state (poll_until env deadline period body msg (Suc fuel)) (e, tr)) \<noteq> None"
  using assms(3)
proof (induction fuel arbitrary: e tr)
  case 0
  have "fst (env e InstantMs) = Millis (clock e)" using time by (simp add: keeps_time_def)
  then obtain e1 where "env e InstantMs = (Millis (clock e), e1)" by (metis prod.collapse)
  then show ?case using 0 by (simp add: invoke_def)
next
  case (Suc fuel)
  have now: "fst (env e InstantMs) = Millis (clock e)" using time by (simp add: keeps_time_def)
  obtain e1 where e1: "env e InstantMs = (Millis (clock e), e1)" using now by (metis prod.collapse)
  have c1: "clock e \<le> clock e1" using time e1 unfolding keeps_time_def by (metis snd_conv)
  obtain b w2 where w2: "run_state body (e1, tr @ [(InstantMs, Millis (clock e))]) = (b, w2)"
    by (cases "run_state body (e1, tr @ [(InstantMs, Millis (clock e))])")
  have c2: "clock e1 \<le> clock (fst w2)" using body w2 unfolding timely_def by (metis fst_conv snd_conv)
  obtain a e3 where e3: "env (fst w2) (Sleep period) = (a, e3)" by (cases "env (fst w2) (Sleep period)")
  have "clock (fst w2) + period \<le> clock e3" using time e3 unfolding keeps_time_def by (metis snd_conv)
  then have "deadline \<le> clock e3 + fuel * period" using Suc.prems c1 c2 by simp
  then show ?case
    using Suc.IH [of e3 "snd w2 @ [(Sleep period, a)]"] w2 e1 e3
    by (cases w2) (simp add: invoke_def)
qed

end
