(* ===== verification/Switchover.thy ===== *)
theory Switchover
  imports Monitor Polling "HOL-Library.Code_Target_Nat"
begin

text \<open>
  Planned switchover and rolling restart (\<open>switchover/*.rs\<close>).  Loops that wait for a
  deadline take fuel; \<open>rolling_restart_returns\<close> shows that enough fuel lets them end.
  Other tasks act through the environment.
\<close>

section \<open>Waiting for the target\<close>

definition in_sync :: "'e environment \<Rightarrow> string \<Rightarrow> u64 \<Rightarrow> ('e world, bool) state" where
  "in_sync env target max_lag_bytes = do {
     a \<leftarrow> invoke env CurrentTopology;
     (let t = as_topology a;
          primary_lsn = hm_get_or (last_flush_lsns t) (primary_node_id t) 0;
          replica_lsn = hm_get_or (last_flush_lsns t) target 0
      in State_Monad.return (saturating_sub primary_lsn replica_lsn \<le> max_lag_bytes)) }"

definition wait_for_replica_sync ::
  "'e environment \<Rightarrow> string \<Rightarrow> u64 \<Rightarrow> nat \<Rightarrow> nat \<Rightarrow> ('e world, (string + unit) option) state" where
  "wait_for_replica_sync env target max_lag_bytes timeout fuel = do {
     now \<leftarrow> invoke env InstantMs;
     poll_until env (as_millis now + timeout) 200 (in_sync env target max_lag_bytes)
       (''replica '' @ target @ '' did not sync within '' @ show_radix 10 (timeout div 1000) @ ''s'') fuel }"

definition STEADY_READS :: nat where "STEADY_READS = 3"
definition MAX_READS :: nat where "MAX_READS = 50"

fun settle_reads ::
  "'e environment \<Rightarrow> string \<Rightarrow> string \<Rightarrow> nat \<Rightarrow> u64 option \<Rightarrow> nat \<Rightarrow> ('e world, string + unit) state" where
  "settle_reads env n addr 0 last_position steady =
    fail (n @ '' was still receiving WAL when the wait ended'')"
| "settle_reads env n addr (Suc left) last_position steady =
    try_bind (call_ok env (Connect n addr)) (\<lambda>_.
    try_bind (call_status env n) (\<lambda>s.
      let position = received_lsn s;
          steady' = (if last_position = Some position then steady + 1 else 0)
      in if last_position = Some position \<and> steady' = STEADY_READS then ok ()
         else do {
           invoke env (Sleep 200);
           settle_reads env n addr left (Some position) steady' }))"

definition wait_for_position_to_settle ::
  "'e environment \<Rightarrow> string \<Rightarrow> string \<Rightarrow> ('e world, string + unit) state" where
  "wait_for_position_to_settle env n addr = settle_reads env n addr MAX_READS None 0"


section \<open>Hand-off\<close>

definition begin_drain :: "'e environment \<Rightarrow> bool \<Rightarrow> nat \<Rightarrow> ('e world, unit) state" where
  "begin_drain env drain drain_timeout =
    (if drain then do { invoke env BeginDrain; invoke env (Sleep drain_timeout); skip } else skip)"

definition end_drain :: "'e environment \<Rightarrow> bool \<Rightarrow> ('e world, unit) state" where
  "end_drain env drain = (if drain then do { invoke env EndDrain; skip } else skip)"

definition demote_old ::
  "'e environment \<Rightarrow> string \<Rightarrow> string \<Rightarrow> string \<Rightarrow> string \<Rightarrow> ('e world, string + unit) state" where
  "demote_old env old addr info slot =
    try_bind (call_ok env (Connect old addr)) (\<lambda>_.
    try_bind (call_reply env (Demote old info slot)) (\<lambda>(success, err).
      if success then ok () else fail (''demote RPC failed for old primary '' @ old @ '': '' @ err)))"

definition stop_old :: "'e environment \<Rightarrow> string \<Rightarrow> string \<Rightarrow> ('e world, string + unit) state" where
  "stop_old env old addr =
    try_bind (call_ok env (Connect old addr)) (\<lambda>_. do {
      r \<leftarrow> call_reply env (StopPostgres old ''fast'');
      (case r of
         Inr _ \<Rightarrow> ok ()
       | Inl _ \<Rightarrow> do { invoke env (Evict old); ok () }) })"

definition promote_target :: "'e environment \<Rightarrow> string \<Rightarrow> string \<Rightarrow> ('e world, string + unit) state" where
  "promote_target env n addr =
    try_bind (call_ok env (Connect n addr)) (\<lambda>_.
    try_bind (call_reply env (Promote n)) (\<lambda>(success, err).
      if success then verify_promotion env n addr 3 500
      else fail (''promote RPC failed for '' @ n @ '': '' @ err)))"

definition restore_old :: "'e environment \<Rightarrow> string \<Rightarrow> string \<Rightarrow> ('e world, unit) state" where
  "restore_old env old addr = do {
     try_bind (call_ok env (Connect old addr)) (\<lambda>_. call_reply env (Promote old));
     skip }"

definition other_nodes :: "cluster_topology \<Rightarrow> string \<Rightarrow> (string \<times> string) list" where
  "other_nodes t new =
    map (\<lambda>(_, cfg). (node_id cfg, agent_addr cfg))
      (filter (\<lambda>(_, cfg). node_id cfg \<noteq> new) (node_configs t))"

text \<open>Once the log records the new primary.\<close>

definition after_switchover ::
  "'e environment \<Rightarrow> cluster_topology \<Rightarrow> string \<Rightarrow> node_config \<Rightarrow> string \<Rightarrow> string \<Rightarrow> string \<Rightarrow> nat
    \<Rightarrow> ('e world, string + unit) state" where
  "after_switchover env t new new_cfg user password prefx started = do {
     ensure_slots_for_replicas env (primary_url user password (postgres_addr new_cfg))
       (map fst (other_nodes t new)) prefx;
     repoint_replicas env (other_nodes t new) (conninfo new_cfg user password) prefx;
     ms \<leftarrow> invoke env InstantMs;
     now \<leftarrow> invoke env UnixSeconds;
     invoke env (ClientWrite (RecordFailover (primary_node_id t) new (as_seconds now)
       (of_nat (as_millis ms - started)) ''planned_switchover'' False));
     ok () }"

text \<open>From the promotion of the new primary on.\<close>

definition promote_and_record ::
  "'e environment \<Rightarrow> cluster_topology \<Rightarrow> string \<Rightarrow> node_config \<Rightarrow> node_config \<Rightarrow> string \<Rightarrow> string
    \<Rightarrow> bool \<Rightarrow> string \<Rightarrow> nat \<Rightarrow> ('e world, string + unit) state" where
  "promote_and_record env t new old_cfg new_cfg user password drain prefx started = do {
     promoted \<leftarrow> promote_target env new (agent_addr new_cfg);
     (case promoted of
        Inl e \<Rightarrow> do {
          restore_old env (primary_node_id t) (agent_addr old_cfg);
          end_drain env drain;
          fail (''switchover aborted: '' @ e) }
      | Inr _ \<Rightarrow> do {
          w \<leftarrow> call_ok env (ClientWrite (SetPrimary new (hm_get_or (last_flush_lsns t) new 0) 0));
          (case w of
             Inl e \<Rightarrow> fail (''Raft propose SetPrimary: '' @ e)
           | Inr _ \<Rightarrow> do {
               end_drain env drain;
               after_switchover env t new new_cfg user password prefx started }) }) }"

definition hand_off ::
  "'e environment \<Rightarrow> cluster_topology \<Rightarrow> string \<Rightarrow> node_config \<Rightarrow> node_config \<Rightarrow> string \<Rightarrow> string
    \<Rightarrow> bool \<Rightarrow> nat \<Rightarrow> string \<Rightarrow> nat \<Rightarrow> ('e world, string + unit) state" where
  "hand_off env t new old_cfg new_cfg user password drain drain_timeout prefx started = do {
     begin_drain env drain drain_timeout;
     try_bind (demote_old env (primary_node_id t) (agent_addr old_cfg)
       (conninfo new_cfg user password) (prefx @ primary_node_id t)) (\<lambda>_.
     try_bind (stop_old env (primary_node_id t) (agent_addr old_cfg)) (\<lambda>_.
     try_bind (wait_for_position_to_settle env new (agent_addr new_cfg)) (\<lambda>_.
       promote_and_record env t new old_cfg new_cfg user password drain prefx started))) }"

definition execute_switchover ::
  "'e environment \<Rightarrow> cluster_topology \<Rightarrow> string \<Rightarrow> string \<Rightarrow> string \<Rightarrow> bool \<Rightarrow> nat \<Rightarrow> string
    \<Rightarrow> ('e world, string + unit) state" where
  "execute_switchover env t new user password drain drain_timeout prefx = do {
     started \<leftarrow> invoke env InstantMs;
     (case hm_get (node_configs t) (primary_node_id t) of
        None \<Rightarrow> fail (''old primary '' @ [CHR 0x27] @ primary_node_id t @ [CHR 0x27] @ '' not found in topology'')
      | Some old_cfg \<Rightarrow>
     (case hm_get (node_configs t) new of
        None \<Rightarrow> fail (''new primary '' @ [CHR 0x27] @ new @ [CHR 0x27] @ '' not found in topology'')
      | Some new_cfg \<Rightarrow>
          hand_off env t new old_cfg new_cfg user password drain drain_timeout prefx
            (as_millis started))) }"

record switchover_params =
  new_primary_id :: string
  max_lag_bytes :: u64
  sync_timeout_secs :: nat
  so_user :: string
  so_password :: string
  proxy_drain :: bool
  so_drain_timeout :: nat
  so_slot_prefix :: string

definition planned_switchover ::
  "'e environment \<Rightarrow> switchover_params \<Rightarrow> nat \<Rightarrow> ('e world, (string + unit) option) state" where
  "planned_switchover env p fuel =
    then_try (wait_for_replica_sync env (new_primary_id p) (max_lag_bytes p)
      (sync_timeout_secs p * 1000) fuel) (\<lambda>_. do {
      a \<leftarrow> invoke env CurrentTopology;
      finish (execute_switchover env (as_topology a) (new_primary_id p) (so_user p) (so_password p)
        (proxy_drain p) (so_drain_timeout p) (so_slot_prefix p)) })"


section \<open>Rolling restart\<close>

definition CATCH_UP_TIMEOUT :: nat where "CATCH_UP_TIMEOUT = 120000"

fun role_debug :: "node_role option \<Rightarrow> string" where
  "role_debug None = ''None''"
| "role_debug (Some Primary) = ''Some(Primary)''"
| "role_debug (Some Replica) = ''Some(Replica)''"
| "role_debug (Some Maintenance) = ''Some(Maintenance)''"
| "role_debug (Some Offline) = ''Some(Offline)''"
| "role_debug (Some Unknown) = ''Some(Unknown)''"

fun collect_standbys ::
  "cluster_topology \<Rightarrow> (string, node_config) hashmap \<Rightarrow> string + string list" where
  "collect_standbys t [] = Inr []"
| "collect_standbys t ((n, cfg) # rest) =
    (if n = primary_node_id t \<or> is_external cfg then collect_standbys t rest
     else if hm_get (node_roles t) n = Some Replica then
       and_then (collect_standbys t rest) (\<lambda>ns. Inr (n # ns))
     else Inl (n @ '' is not a healthy standby ('' @ role_debug (hm_get (node_roles t) n) @ '')''))"

definition standbys_in_order :: "cluster_topology \<Rightarrow> string + string list" where
  "standbys_in_order t =
    (if primary_node_id t = [] then Inl ''the cluster has no primary''
     else and_then (collect_standbys t (node_configs t)) (\<lambda>ns. Inr (sort ns)))"

definition restart_node ::
  "'e environment \<Rightarrow> cluster_topology \<Rightarrow> string \<Rightarrow> ('e world, string + unit) state" where
  "restart_node env t n =
    (case hm_get (node_configs t) n of
       None \<Rightarrow> fail (''node '' @ n @ '' not found'')
     | Some cfg \<Rightarrow>
         try_bind (call_ok env (Connect n (agent_addr cfg))) (\<lambda>_.
         try_bind (call_reply env (StopPostgres n ''fast'')) (\<lambda>(success, err).
           if success then ok () else fail (''could not restart '' @ n @ '': '' @ err))))"

definition streams_from_primary :: "'e environment \<Rightarrow> string \<Rightarrow> ('e world, bool) state" where
  "streams_from_primary env n = do {
     a \<leftarrow> invoke env CurrentTopology;
     (let t = as_topology a in
      case hm_get (node_configs t) (primary_node_id t) of
        None \<Rightarrow> State_Monad.return False
      | Some cfg \<Rightarrow> do {
          r \<leftarrow> check_node env (node_id cfg) (agent_addr cfg);
          State_Monad.return (n \<in> set (streaming_standbys r)) }) }"

definition wait_until_streaming ::
  "'e environment \<Rightarrow> string \<Rightarrow> nat \<Rightarrow> ('e world, (string + unit) option) state" where
  "wait_until_streaming env n fuel = do {
     now \<leftarrow> invoke env InstantMs;
     poll_until env (as_millis now + CATCH_UP_TIMEOUT) 500 (streams_from_primary env n)
       (n @ '' did not stream again within 120s'') fuel }"

fun restart_standbys ::
  "'e environment \<Rightarrow> cluster_topology \<Rightarrow> string list \<Rightarrow> nat \<Rightarrow> ('e world, (string + unit) option) state" where
  "restart_standbys env t [] fuel = State_Monad.return (Some (Inr ()))"
| "restart_standbys env t (n # ns) fuel =
    then_try (finish (restart_node env t n)) (\<lambda>_.
    then_try (wait_until_streaming env n fuel) (\<lambda>_.
      restart_standbys env t ns fuel))"

definition rolling_restart ::
  "'e environment \<Rightarrow> switchover_params \<Rightarrow> nat \<Rightarrow> ('e world, (string + unit) option) state" where
  "rolling_restart env p fuel = do {
     a \<leftarrow> invoke env CurrentTopology;
     (let t = as_topology a; old_primary = primary_node_id t in
      case standbys_in_order t of
        Inl e \<Rightarrow> State_Monad.return (Some (Inl e))
      | Inr ns \<Rightarrow>
          then_try (restart_standbys env t ns fuel) (\<lambda>_.
            if ns = [] then finish (restart_node env t old_primary)
            else do {
              c \<leftarrow> pick_live_candidate env t old_primary;
              (case c of
                 None \<Rightarrow> State_Monad.return (Some (Inl ''no standby can take over''))
               | Some (target, _) \<Rightarrow>
                   then_try (planned_switchover env (p\<lparr>new_primary_id := target\<rparr>) fuel) (\<lambda>_.
                     wait_until_streaming env old_primary fuel)) })) }"


section \<open>Lemmas\<close>

subsection \<open>Settled positions\<close>

text \<open>The positions of \<open>n\<close> a trace reads, in order.\<close>

fun position_read :: "string \<Rightarrow> call \<times> answer \<Rightarrow> u64 option" where
  "position_read n (GetStatus m, StatusIs s) = (if m = n then Some (received_lsn s) else None)"
| "position_read n _ = None"

definition positions_of :: "string \<Rightarrow> trace \<Rightarrow> u64 list" where
  "positions_of n tr = List.map_filter (position_read n) tr"

lemma positions_of_simps [simp]:
  "positions_of n [] = []"
  "positions_of n (x # tr) = (case position_read n x of None \<Rightarrow> [] | Some l \<Rightarrow> [l]) @ positions_of n tr"
  "positions_of n (tr @ tr') = positions_of n tr @ positions_of n tr'"
  by (auto simp: positions_of_def map_filter_simps List.map_filter_def split: option.splits)

definition settled :: "string \<Rightarrow> trace \<Rightarrow> bool" where
  "settled n tr \<longleftrightarrow> (\<exists>us x. positions_of n tr = us @ replicate (Suc STEADY_READS) x)"

fun settle_call :: "call \<Rightarrow> bool" where
  "settle_call (Connect _ _) = True"
| "settle_call (GetStatus _) = True"
| "settle_call (Sleep _) = True"
| "settle_call _ = False"

text \<open>The readings the counter already stands for.\<close>

definition counted :: "u64 option \<Rightarrow> nat \<Rightarrow> u64 list" where
  "counted last_position steady = (case last_position of None \<Rightarrow> [] | Some l \<Rightarrow> replicate (Suc steady) l)"

definition steady_spec :: "string \<Rightarrow> u64 list \<Rightarrow> string + unit \<Rightarrow> trace \<Rightarrow> bool" where
  "steady_spec n seen r tr \<longleftrightarrow> calls settle_call tr
    \<and> (r = Inr () \<longrightarrow> (\<exists>us x. seen @ positions_of n tr = us @ replicate (Suc STEADY_READS) x))"

lemma steady_spec_read:
  assumes "steady_spec n (counted (Some l) steady') r tr"
    and "steady' = (if lp = Some l then steady + 1 else 0)" "received_lsn s = l"
  shows "steady_spec n (counted lp steady) r
    ((Connect n addr, Done) # (GetStatus n, StatusIs s) # (Sleep 200, a) # tr)"
proof -
  have "\<exists>us. counted lp steady @ [l] = us @ counted (Some l) steady'"
    using assms(2) by (cases lp) (auto simp: counted_def replicate_append_same)
  then obtain us where "counted lp steady @ [l] = us @ counted (Some l) steady'" by blast
  then have eq: "counted lp steady @ [l] @ positions_of n tr = us @ counted (Some l) steady' @ positions_of n tr"
    by (simp only: append_assoc [symmetric])
  have "\<exists>vs x. counted lp steady @ [l] @ positions_of n tr = vs @ replicate (Suc STEADY_READS) x"
    if "counted (Some l) steady' @ positions_of n tr = vs @ replicate (Suc STEADY_READS) x" for vs x
    unfolding eq that by (rule exI [of _ "us @ vs"], rule exI [of _ x]) simp
  then show ?thesis using assms(1,3) unfolding steady_spec_def by auto
qed

lemma emits_settle_reads:
  "emits (settle_reads env n addr left lp steady) (steady_spec n (counted lp steady))"
proof (induction left arbitrary: lp steady)
  case 0
  show ?case by (simp add: emits_return steady_spec_def)
next
  case (Suc left)
  let ?spec = "steady_spec n (counted lp steady)"
  let ?next = "\<lambda>l. if lp = Some l then steady + 1 else 0"
  have read: "emits (if lp = Some (received_lsn s) \<and> ?next (received_lsn s) = STEADY_READS then ok ()
      else do { invoke env (Sleep 200);
        settle_reads env n addr left (Some (received_lsn s)) (?next (received_lsn s)) })
    (\<lambda>r n'. ?spec r ((Connect n addr, Done) # (GetStatus n, StatusIs s) # n'))" for s
  proof (cases "lp = Some (received_lsn s) \<and> ?next (received_lsn s) = STEADY_READS")
    case True
    then have "counted lp steady @ [received_lsn s] = replicate (Suc STEADY_READS) (received_lsn s)"
      by (auto simp: counted_def replicate_append_same simp flip: replicate_Suc)
    then have "?spec (Inr ()) [(Connect n addr, Done), (GetStatus n, StatusIs s)]"
      by (auto simp: steady_spec_def intro!: exI [of _ "[]"])
    then have "emits (ok ()) (\<lambda>r n'. ?spec r ((Connect n addr, Done) # (GetStatus n, StatusIs s) # n'))"
      by (rule emits_return)
    then show ?thesis unfolding if_P [OF True] .
  next
    case False
    have "emits (do { invoke env (Sleep 200);
        settle_reads env n addr left (Some (received_lsn s)) (?next (received_lsn s)) })
      (\<lambda>r n'. ?spec r ((Connect n addr, Done) # (GetStatus n, StatusIs s) # n'))"
    proof (rule emits_bind [where R = "\<lambda>a n'. n' = [(Sleep 200, a)]"], simp add: emits_invoke)
      fix a and n1 :: trace assume "n1 = [(Sleep 200, a)]"
      then show "emits (settle_reads env n addr left (Some (received_lsn s)) (?next (received_lsn s)))
        (\<lambda>r n'. ?spec r ((Connect n addr, Done) # (GetStatus n, StatusIs s) # n1 @ n'))"
        by (intro emits_mono [OF Suc.IH]) (simp add: steady_spec_read)
    qed
    then show ?thesis unfolding if_not_P [OF False] .
  qed
  have status: "emits (try_bind (call_status env n) (\<lambda>s.
      if lp = Some (received_lsn s) \<and> ?next (received_lsn s) = STEADY_READS then ok ()
      else do { invoke env (Sleep 200);
        settle_reads env n addr left (Some (received_lsn s)) (?next (received_lsn s)) }))
    (\<lambda>r n'. ?spec r ((Connect n addr, Done) # n'))"
  proof (rule emits_try_bind [where R = "\<lambda>r n'. \<exists>a. n' = [(GetStatus n, a)] \<and> as_status a = r"],
      simp add: emits_call_status, goal_cases)
    case (1 e n')
    then show ?case by (auto simp: steady_spec_def)
  next
    case (2 s n')
    then show ?case using read [of s] by simp
  qed
  show ?case
    unfolding settle_reads.simps Let_def
  proof (rule emits_try_bind [where R = "\<lambda>r n'. \<exists>a. n' = [(Connect n addr, a)] \<and> as_ok a = r"],
      simp add: emits_call_ok, goal_cases)
    case (1 e n')
    then show ?case by (auto simp: steady_spec_def)
  next
    case (2 u n')
    then show ?case using status by simp
  qed
qed

subsection \<open>The order of a hand-off\<close>

text \<open>The old primary took the demotion and was told to stop, and after that the
  position of the new one did not move.\<close>

definition handed_over :: "string \<Rightarrow> string \<Rightarrow> string \<Rightarrow> string \<Rightarrow> trace \<Rightarrow> bool" where
  "handed_over old new info slot tr \<longleftrightarrow>
    (\<exists>u1 m u2 a u3. tr = u1 @ (Demote old info slot, Replied True m) # u2
       @ (StopPostgres old ''fast'', a) # u3 \<and> settled new u3)"

text \<open>Calls before the promotion: none promotes, ends the drain or records a primary.\<close>

fun preparing :: "call \<Rightarrow> bool" where
  "preparing (Promote _) = False"
| "preparing EndDrain = False"
| "preparing (ClientWrite _) = False"
| "preparing _ = True"

fun promoting :: "string \<Rightarrow> call \<Rightarrow> bool" where
  "promoting n (Promote m) = (m = n)"
| "promoting n c = preparing c"

definition handoff_run ::
  "string \<Rightarrow> string \<Rightarrow> string \<Rightarrow> string \<Rightarrow> bool \<Rightarrow> string + unit \<Rightarrow> trace \<Rightarrow> bool" where
  "handoff_run old new info slot drain r tr \<longleftrightarrow>
    (\<exists>e. r = Inl e \<and> calls preparing tr)
    \<or> (\<exists>d p q x e. tr = d @ p @ q @ (if drain then [(EndDrain, x)] else []) \<and> r = Inl e
         \<and> handed_over old new info slot d \<and> calls preparing d
         \<and> calls (promoting new) p \<and> calls (promoting old) q)
    \<or> (\<exists>d us msg vs l a q. tr = d @ us @ (Promote new, Replied True msg) # vs
           @ (ClientWrite (SetPrimary new l 0), a) # q
         \<and> handed_over old new info slot d \<and> calls preparing d \<and> calls preparing us
         \<and> calls preparing vs \<and> now_primary vs new \<and> calls quiet q
         \<and> (if a = Done then r = Inr () \<and> (drain \<longrightarrow> q \<noteq> [] \<and> fst (hd q) = EndDrain)
            else r \<noteq> Inr () \<and> q = []))"

lemma emits_demote_old:
  "emits (demote_old env old addr info slot) (\<lambda>r n. calls preparing n
     \<and> (r = Inr () \<longrightarrow> (\<exists>us m. n = us @ [(Demote old info slot, Replied True m)])))"
  unfolding emits_def demote_old_def call_ok_def call_reply_def
  by (auto simp: wp_rules wp_invoke split: prod.splits sum.splits)

lemma emits_stop_old:
  "emits (stop_old env old addr) (\<lambda>r n. calls preparing n
     \<and> (r = Inr () \<longrightarrow> (\<exists>a. (StopPostgres old ''fast'', a) \<in> set n)))"
  unfolding emits_def stop_old_def call_ok_def call_reply_def
  by (auto simp: wp_rules wp_invoke split: prod.splits sum.splits)

lemma emits_settle:
  "emits (wait_for_position_to_settle env n addr) (\<lambda>r new. calls preparing new \<and> (r = Inr () \<longrightarrow> settled n new))"
  unfolding wait_for_position_to_settle_def
proof (rule emits_mono [OF emits_settle_reads], goal_cases)
  case (1 r new)
  have "settle_call c \<Longrightarrow> preparing c" for c by (cases c) auto
  then show ?case using 1 by (auto simp: steady_spec_def settled_def counted_def elim: calls_mono)
qed

lemma emits_promote_target:
  "emits (promote_target env n addr) (\<lambda>r new. calls (promoting n) new
     \<and> (r = Inr () \<longrightarrow> (\<exists>us msg vs. new = us @ (Promote n, Replied True msg) # vs
          \<and> calls preparing us \<and> calls preparing vs \<and> now_primary vs n)))"
  unfolding promote_target_def
proof (rule emits_try_bind [where R = "\<lambda>r n'. \<exists>a. n' = [(Connect n addr, a)] \<and> as_ok a = r"],
    simp add: emits_call_ok, fastforce, goal_cases)
  case (1 u n1)
  show ?case
  proof (rule emits_try_bind [where R = "\<lambda>r n'. \<exists>a. n' = [(Promote n, a)] \<and> as_reply a = r"],
      simp add: emits_call_reply, goal_cases)
    case (1 e n2)
    then show ?case using \<open>\<exists>a. n1 = _ \<and> _\<close> by auto
  next
    case (2 x n2)
    obtain success err where x: "x = (success, err)" by (cases x)
    have pre: "n1 = [(Connect n addr, Done)]" "n2 = [(Promote n, Replied success err)]" using 1 2 x by auto
    have vc: "calls (verify_call n addr 500) new \<Longrightarrow> calls preparing new \<and> calls (promoting n) new" for new
      by (auto simp: verify_call_def elim!: calls_mono)
    show ?case
      unfolding x prod.case pre
    proof (cases success)
      case True
      then show "emits (if success then verify_promotion env n addr 3 500
          else fail (''promote RPC failed for '' @ n @ '': '' @ err))
        (\<lambda>r n'. calls (promoting n) ([(Connect n addr, Done)] @ [(Promote n, Replied success err)] @ n')
           \<and> (r = Inr () \<longrightarrow> (\<exists>us msg vs. [(Connect n addr, Done)] @ [(Promote n, Replied success err)] @ n'
              = us @ (Promote n, Replied True msg) # vs
              \<and> calls preparing us \<and> calls preparing vs \<and> now_primary vs n)))"
        unfolding verify_promotion_def if_P [OF True]
        by (intro emits_mono [OF emits_verify_attempts])
          (auto simp: verify_spec_def vc intro!: exI [of _ "[(Connect n addr, Done)]"])
    qed (auto intro: emits_return)
  qed
qed

lemma emits_restore_old: "emits_only (restore_old env old addr) (promoting old)"
  unfolding restore_old_def by (intro emits_only_rules) auto

lemma emits_bind_only:
  assumes "emits_only m P" "\<And>a. emits (f a) (\<lambda>r n. Q r \<and> calls P n)"
  shows "emits (State_Monad.bind m f) (\<lambda>r n. Q r \<and> calls P n)"
proof (rule emits_bind [OF emits_only_emits [OF assms(1)]])
  fix a and n :: trace assume "calls P n"
  then show "emits (f a) (\<lambda>r n'. Q r \<and> calls P (n @ n'))"
    by (intro emits_mono [OF assms(2)]) auto
qed

lemma emits_after_switchover:
  "emits (after_switchover env t new cfg u p sp started) (\<lambda>r n. r = Inr () \<and> calls quiet n)"
  unfolding after_switchover_def ensure_slots_for_replicas_def
  by (intro emits_bind_only emits_return emits_only_rules emits_repoint) auto

lemma handed_over_stages:
  assumes "n1 = us @ [(Demote old info slot, Replied True m)]"
    and "(StopPostgres old ''fast'', a) \<in> set n2" "settled new n3"
  shows "handed_over old new info slot (n0 @ n1 @ n2 @ n3)"
proof -
  obtain v w where "n2 = v @ (StopPostgres old ''fast'', a) # w" using split_list [OF assms(2)] by blast
  moreover have "settled new (w @ n3)"
  proof -
    obtain vs x where "positions_of new n3 = vs @ replicate (Suc STEADY_READS) x"
      using assms(3) unfolding settled_def by blast
    then have "positions_of new (w @ n3) = (positions_of new w @ vs) @ replicate (Suc STEADY_READS) x" by simp
    then show ?thesis unfolding settled_def by blast
  qed
  ultimately show ?thesis
    using assms(1) unfolding handed_over_def
    by (intro exI [of _ "n0 @ us"] exI [of _ m] exI [of _ v] exI [of _ a] exI [of _ "w @ n3"]) simp
qed

lemma handoff_run_aborted:
  assumes "handed_over old new info slot d" "calls preparing d"
    and "calls (promoting new) p" "calls (promoting old) q"
  shows "handoff_run old new info slot drain (Inl e) (d @ p @ q @ (if drain then [(EndDrain, x)] else []))"
  unfolding handoff_run_def using assms by (intro disjI2 disjI1 exI conjI) (rule refl | assumption)+

lemma handoff_run_written:
  assumes "handed_over old new info slot d" "calls preparing d"
    and "calls preparing us" "calls preparing vs" "now_primary vs new"
    and "calls quiet q"
    and "if a = Done then r = Inr () \<and> (drain \<longrightarrow> q \<noteq> [] \<and> fst (hd q) = EndDrain)
         else r \<noteq> Inr () \<and> q = []"
  shows "handoff_run old new info slot drain r (d @ us @ (Promote new, Replied True msg) # vs
     @ (ClientWrite (SetPrimary new l 0), a) # q)"
  unfolding handoff_run_def using assms by (intro disjI2 exI conjI) (rule refl | assumption)+

lemma emits_end_drain:
  "emits (end_drain env drain) (\<lambda>_ n. \<exists>b. n = (if drain then [(EndDrain, b)] else []))"
  unfolding end_drain_def by (cases drain) (auto simp: emits_def wp_rules wp_invoke split: prod.splits)

text \<open>The rest of a hand-off once the old primary stopped and the new one settled.\<close>

lemma emits_promotion_stage:
  assumes d: "handed_over old new info slot d" "calls preparing d"
    and old: "old = primary_node_id t"
  shows "emits (promote_and_record env t new old_cfg cfg u p drain sp started)
    (\<lambda>r n. handoff_run old new info slot drain r (d @ n))"
  unfolding promote_and_record_def old [symmetric]
proof (rule emits_bind [OF emits_promote_target], goal_cases)
  case (1 r n)
  then have n: "calls (promoting new) n" by blast
  show ?case
  proof (cases r)
    case (Inl e)
    have "emits (do { restore_old env old (agent_addr old_cfg); end_drain env drain; fail (''switchover aborted: '' @ e) })
      (\<lambda>r n'. handoff_run old new info slot drain r (d @ n @ n'))"
    proof (rule emits_bind [OF emits_only_emits [OF emits_restore_old]], goal_cases)
      case (1 a q)
      have "handoff_run old new info slot drain (Inl x)
          (d @ n @ q @ (if drain then [(EndDrain, b)] else []))" for x b
        by (rule handoff_run_aborted) (use 1 n d in auto)
      then have run: "handoff_run old new info slot drain (Inl x) (d @ n @ q @ n')"
        if "\<exists>b. n' = (if drain then [(EndDrain, b)] else [])" for x n'
        using that by blast
      show ?case
        by (rule emits_bind [OF emits_end_drain]) (auto intro!: emits_return run)
    qed
    then show ?thesis using Inl by simp
  next
    case (Inr x)
    then obtain us msg vs where us: "n = us @ (Promote new, Replied True msg) # vs"
      "calls preparing us" "calls preparing vs" "now_primary vs new" using 1 by auto
    let ?w = "ClientWrite (SetPrimary new (hm_get_or (last_flush_lsns t) new 0) 0)"
    have run: "handoff_run old new info slot drain r' (d @ n @ (?w, a) # q)"
      if "calls quiet q" "if a = Done then r' = Inr () \<and> (drain \<longrightarrow> q \<noteq> [] \<and> fst (hd q) = EndDrain)
        else r' \<noteq> Inr () \<and> q = []" for r' a q
      unfolding us(1) append_assoc append_Cons
      by (rule handoff_run_written [OF d us(2-4) that])
    have "emits (do {
           w \<leftarrow> call_ok env ?w;
           (case w of
              Inl e \<Rightarrow> fail (''Raft propose SetPrimary: '' @ e)
            | Inr _ \<Rightarrow> do {
                end_drain env drain;
                after_switchover env t new cfg u p sp started }) })
      (\<lambda>r n'. handoff_run old new info slot drain r (d @ n @ n'))"
    proof (rule emits_bind [where R = "\<lambda>r n'. \<exists>a. n' = [(?w, a)] \<and> as_ok a = r"],
        simp add: emits_call_ok, goal_cases)
      case (1 r n')
      then obtain a where a: "n' = [(?w, a)]" "as_ok a = r" by blast
      show ?case
      proof (cases r)
        case (Inl e)
        have "a \<noteq> Done" using a Inl by auto
        then show ?thesis using run [of "[]" a] a Inl by (auto intro: emits_return)
      next
        case (Inr y)
        have "emits (do { end_drain env drain; after_switchover env t new cfg u p sp started })
          (\<lambda>r q. handoff_run old new info slot drain r (d @ n @ (?w, Done) # q))"
        proof (rule emits_bind [OF emits_end_drain], goal_cases)
          case (1 _ n1)
          then show ?case
            by (intro emits_mono [OF emits_after_switchover], intro run) auto
        qed
        then show ?thesis using Inr a by simp
      qed
    qed
    then show ?thesis unfolding Inr sum.case .
  qed
qed

lemma handoff_run_prepared: "calls preparing tr \<Longrightarrow> handoff_run old new info slot drain (Inl e) tr"
  unfolding handoff_run_def by (intro disjI1 exI conjI) (rule refl)

lemma emits_begin_drain: "emits (begin_drain env drain d) (\<lambda>_ n. calls preparing n)"
  unfolding begin_drain_def by (cases drain) (auto simp: emits_def wp_rules wp_invoke split: prod.splits)

lemma emits_hand_off:
  assumes "calls preparing n0"
  shows "emits (hand_off env t new old_cfg new_cfg user password drain dt prefx started)
    (\<lambda>r n. handoff_run (primary_node_id t) new (conninfo new_cfg user password)
      (prefx @ primary_node_id t) drain r (n0 @ n))"
  unfolding hand_off_def
proof (rule emits_bind [OF emits_begin_drain], rule emits_try_bind [OF emits_demote_old], goal_cases)
  case (1 b n1 e n2)
  then show ?case using assms by (simp add: handoff_run_prepared)
next
  case (2 b n1 u n2)
  note n12 = this
  show ?case
  proof (rule emits_try_bind [OF emits_stop_old], goal_cases)
    case (1 e n3)
    then show ?case using assms n12 by (simp add: handoff_run_prepared)
  next
    case (2 u3 n3)
    note n3 = this
    show ?case
    proof (rule emits_try_bind [OF emits_settle], goal_cases)
      case (1 e n4)
      then show ?case using assms n12 n3 by (simp add: handoff_run_prepared)
    next
      case (2 u4 n4)
      let ?old = "primary_node_id t"
      obtain us m where us: "n2 = us @ [(Demote ?old (conninfo new_cfg user password) (prefx @ ?old), Replied True m)]"
        using n12 by auto
      obtain x where x: "(StopPostgres ?old ''fast'', x) \<in> set n3" using n3 by auto
      have "settled new n4" using 2 by simp
      then have d: "handed_over ?old new (conninfo new_cfg user password) (prefx @ ?old)
          ((n0 @ n1) @ n2 @ n3 @ n4)"
        by (rule handed_over_stages [OF us x])
      have prep: "calls preparing ((n0 @ n1) @ n2 @ n3 @ n4)" using assms n12 n3 2 by simp
      show ?case by (rule emits_promotion_stage [OF d prep refl, unfolded append_assoc])
    qed
  qed
qed

lemma emits_execute_switchover:
  assumes "hm_get (node_configs t) new = Some new_cfg"
  shows "emits (execute_switchover env t new user password drain drain_timeout prefx)
    (handoff_run (primary_node_id t) new (conninfo new_cfg user password)
      (prefx @ primary_node_id t) drain)"
  unfolding execute_switchover_def
proof (rule emits_bind [where R = "\<lambda>a n. n = [(InstantMs, a)]"], simp add: emits_invoke, goal_cases)
  case (1 a n0)
  then have n0: "calls preparing n0" by simp
  show ?case
  proof (cases "hm_get (node_configs t) (primary_node_id t)")
    case None
    then show ?thesis using n0 by (simp add: emits_return handoff_run_prepared)
  next
    case (Some old_cfg)
    show ?thesis unfolding Some assms option.case by (rule emits_hand_off [OF n0])
  qed
qed

lemma split_unique:
  "xs @ x # ys = us @ y # vs \<Longrightarrow> y \<notin> set xs \<Longrightarrow> y \<notin> set ys \<Longrightarrow> us = xs \<and> y = x \<and> vs = ys"
  by (auto simp: append_eq_append_conv2 append_eq_Cons_conv Cons_eq_append_conv)

lemma split_after: "x \<notin> set d \<Longrightarrow> d @ w = us @ x # vs \<Longrightarrow> \<exists>us'. us = d @ us'"
proof (induction d arbitrary: us)
  case (Cons y d)
  then show ?case by (cases us) auto
qed simp

lemma preparing_not_mem:
  assumes "calls preparing tr"
  shows "(ClientWrite c, a) \<notin> set tr" "(Promote n, a) \<notin> set tr" "(EndDrain, a) \<notin> set tr"
  using calls_mem [OF assms] by fastforce+

lemma promoting_not_mem:
  assumes "calls (promoting m) tr"
  shows "(ClientWrite c, a) \<notin> set tr" "(EndDrain, a) \<notin> set tr" "(Promote n, a) \<in> set tr \<Longrightarrow> n = m"
  using calls_mem [OF assms] by fastforce+

lemma quiet_not_mem:
  assumes "calls quiet tr"
  shows "(ClientWrite (SetPrimary n l k), a) \<notin> set tr" "(Promote n, a) \<notin> set tr"
  using calls_mem [OF assms] by fastforce+

lemma handoff_run_cases:
  assumes "handoff_run old new info slot drain r tr"
  obtains
    (Refused) e where "r = Inl e" "calls preparing tr"
  | (Aborted) d p q x e where "tr = d @ p @ q @ (if drain then [(EndDrain, x)] else [])" "r = Inl e"
      "handed_over old new info slot d" "calls preparing d" "calls (promoting new) p" "calls (promoting old) q"
  | (Written) d us msg vs l a q where "tr = d @ us @ (Promote new, Replied True msg) # vs
         @ (ClientWrite (SetPrimary new l 0), a) # q"
      "handed_over old new info slot d" "calls preparing d" "calls preparing us" "calls preparing vs"
      "now_primary vs new" "calls quiet q"
      "if a = Done then r = Inr () \<and> (drain \<longrightarrow> q \<noteq> [] \<and> fst (hd q) = EndDrain) else r \<noteq> Inr () \<and> q = []"
  using assms unfolding handoff_run_def by (elim disjE exE conjE) (rule that; assumption)+

text \<open>What a written primary rests on.\<close>

definition handover_done :: "string \<Rightarrow> string \<Rightarrow> string \<Rightarrow> string \<Rightarrow> trace \<Rightarrow> bool" where
  "handover_done old new info slot before \<longleftrightarrow>
    (\<exists>d us msg vs. before = d @ us @ (Promote new, Replied True msg) # vs
       \<and> handed_over old new info slot d \<and> now_primary vs new)"

lemma handoff_run_write:
  assumes "handoff_run old new info slot drain r (before @ (ClientWrite (SetPrimary n l k), a) # later)"
  shows "n = new \<and> handover_done old new info slot before"
  using assms
proof (cases rule: handoff_run_cases)
  case (Refused e)
  then show ?thesis using preparing_not_mem(1) [OF Refused(2), of "SetPrimary n l k" a] by simp
next
  case (Aborted d p q x e)
  have "(ClientWrite (SetPrimary n l k), a) \<in> set (d @ p @ q @ (if drain then [(EndDrain, x)] else []))"
    using Aborted(1) by (metis in_set_conv_decomp)
  then show ?thesis
    using preparing_not_mem(1) [OF Aborted(4)] promoting_not_mem(1) [OF Aborted(5)]
      promoting_not_mem(1) [OF Aborted(6)] by (auto split: if_splits)
next
  case (Written d us msg vs l' a' q)
  let ?pre = "d @ us @ (Promote new, Replied True msg) # vs"
  have "before = ?pre \<and> (ClientWrite (SetPrimary n l k), a) = (ClientWrite (SetPrimary new l' 0), a') \<and> later = q"
  proof (rule split_unique)
    show "?pre @ (ClientWrite (SetPrimary new l' 0), a') # q = before @ (ClientWrite (SetPrimary n l k), a) # later"
      using Written(1) by simp
    show "(ClientWrite (SetPrimary n l k), a) \<notin> set ?pre"
      using preparing_not_mem(1) [OF Written(3)] preparing_not_mem(1) [OF Written(4)]
        preparing_not_mem(1) [OF Written(5)] by simp
    show "(ClientWrite (SetPrimary n l k), a) \<notin> set q"
      using quiet_not_mem(1) [OF Written(7)] by simp
  qed
  then show ?thesis using Written(2,6) unfolding handover_done_def by blast
qed

lemma handoff_run_ok:
  assumes "handoff_run old new info slot True (Inr ()) tr"
  shows "\<exists>before l x later. tr = before @ (ClientWrite (SetPrimary new l 0), Done) # (EndDrain, x) # later
    \<and> (\<forall>y. (EndDrain, y) \<notin> set before)"
  using assms
proof (cases rule: handoff_run_cases)
  case (Written d us msg vs l a q)
  have a: "a = Done" "q \<noteq> []" "fst (hd q) = EndDrain" using Written(8) by (auto split: if_splits)
  then obtain x q' where q: "q = (EndDrain, x) # q'" by (cases q) auto
  have "(EndDrain, y) \<notin> set (d @ us @ (Promote new, Replied True msg) # vs)" for y
    using preparing_not_mem(3) [OF Written(3)] preparing_not_mem(3) [OF Written(4)]
        preparing_not_mem(3) [OF Written(5)] by simp
  moreover have "tr = (d @ us @ (Promote new, Replied True msg) # vs)
      @ (ClientWrite (SetPrimary new l 0), Done) # (EndDrain, x) # q'"
    using Written(1) a(1) q by simp
  ultimately show ?thesis by blast
qed simp_all

lemma handoff_run_promote:
  assumes "handoff_run old new info slot drain r tr" "tr = before @ (Promote n, a) # later"
  shows "n = new \<and> (\<exists>d us. before = d @ us \<and> handed_over old new info slot d)
    \<or> n = old \<and> r \<noteq> Inr () \<and> (\<forall>c b. (ClientWrite c, b) \<notin> set tr)"
  using assms(1)
proof (cases rule: handoff_run_cases)
  case (Refused e)
  then show ?thesis using preparing_not_mem(2) [OF Refused(2)] assms(2) by simp
next
  case (Aborted d p q x e)
  have nw: "\<forall>c b. (ClientWrite c, b) \<notin> set tr"
    using preparing_not_mem(1) [OF Aborted(4)] promoting_not_mem(1) [OF Aborted(5)]
      promoting_not_mem(1) [OF Aborted(6)] Aborted(1) by auto
  have "(Promote n, a) \<in> set (d @ p @ q @ (if drain then [(EndDrain, x)] else []))"
    unfolding Aborted(1) [symmetric] assms(2) by simp
  then have "n = new \<or> n = old"
    using promoting_not_mem(3) [OF Aborted(5), of n a] promoting_not_mem(3) [OF Aborted(6), of n a]
      preparing_not_mem(2) [OF Aborted(4), of n a] by (auto split: if_splits)
  moreover have "\<exists>us. before = d @ us"
    by (rule split_after [OF preparing_not_mem(2) [OF Aborted(4)] trans [OF Aborted(1) [symmetric] assms(2)]])
  ultimately show ?thesis using nw Aborted(2,3) by blast
next
  case (Written d us msg vs l a' q)
  have "before = d @ us \<and> (Promote n, a) = (Promote new, Replied True msg) \<and>
      later = vs @ (ClientWrite (SetPrimary new l 0), a') # q"
    by (rule split_unique)
      (use Written assms(2) preparing_not_mem(2) [OF Written(3)] preparing_not_mem(2) [OF Written(4)]
        preparing_not_mem(2) [OF Written(5)] quiet_not_mem(2) [OF Written(7)] in auto)
  then show ?thesis using Written(2) by blast
qed

subsection \<open>Waiting and rolling restart\<close>

lemma timely_call: "keeps_time env clock \<Longrightarrow> timely clock (call_ok env c)"
  "keeps_time env clock \<Longrightarrow> timely clock (call_status env n)"
  unfolding call_ok_def call_status_def by (intro timely_rules; assumption)+

lemma timely_in_sync: "keeps_time env clock \<Longrightarrow> timely clock (in_sync env target lag)"
  unfolding in_sync_def Let_def by (intro timely_rules)

lemma timely_streams: "keeps_time env clock \<Longrightarrow> timely clock (streams_from_primary env n)"
  unfolding streams_from_primary_def Let_def check_node_def by (intro timely_rules timely_call)

lemma poll_from_now_returns:
  assumes time: "keeps_time env clock" and body: "timely clock body" and "timeout \<le> fuel * period"
  shows "fst (run_state (do { now \<leftarrow> invoke env InstantMs;
    poll_until env (as_millis now + timeout) period body msg (Suc fuel) }) (e, tr)) \<noteq> None"
proof -
  have "fst (env e InstantMs) = Millis (clock e)" using time by (simp add: keeps_time_def)
  then obtain e1 where e1: "env e InstantMs = (Millis (clock e), e1)" by (metis prod.collapse)
  have "clock e \<le> clock e1" using time e1 unfolding keeps_time_def by (metis snd_conv)
  then have "clock e + timeout \<le> clock e1 + fuel * period" using assms(3) by simp
  from poll_until_returns [OF time body this, of msg "tr @ [(InstantMs, Millis (clock e))]"]
  show ?thesis using e1 by (simp add: invoke_def del: poll_until.simps)
qed

text \<open>A trace in which a reading of the topology shows \<open>target\<close> within the lag.\<close>

definition seen_in_sync :: "string \<Rightarrow> u64 \<Rightarrow> trace \<Rightarrow> bool" where
  "seen_in_sync target lag tr \<longleftrightarrow> (\<exists>a. (CurrentTopology, a) \<in> set tr
     \<and> saturating_sub (hm_get_or (last_flush_lsns (as_topology a)) (primary_node_id (as_topology a)) 0)
         (hm_get_or (last_flush_lsns (as_topology a)) target 0) \<le> lag)"

fun watching :: "call \<Rightarrow> bool" where
  "watching InstantMs = True"
| "watching (Sleep _) = True"
| "watching CurrentTopology = True"
| "watching _ = False"

lemma emits_wait_for_replica_sync:
  "emits (wait_for_replica_sync env target lag timeout fuel)
    (\<lambda>r n. calls watching n \<and> (r = Some (Inr ()) \<longrightarrow> seen_in_sync target lag n))"
  unfolding wait_for_replica_sync_def
proof (rule emits_bind [where R = "\<lambda>a n. n = [(InstantMs, a)]"], simp add: emits_invoke, goal_cases)
  case (1 a n0)
  have "emits (in_sync env target lag) (\<lambda>r n. calls watching n \<and> (r \<longrightarrow> seen_in_sync target lag n))"
    unfolding emits_def in_sync_def seen_in_sync_def Let_def
    by (auto simp: wp_rules wp_invoke split: prod.splits)
  note poll = emits_poll_until [OF this, of 200 env "as_millis a + timeout"]
  show ?case
    by (rule emits_mono [OF poll]) (use 1 in \<open>auto simp: ends_with_def seen_in_sync_def\<close>)
qed

text \<open>Stops in a trace, and a status of a primary that shows a standby streaming.\<close>

fun is_stop :: "call \<Rightarrow> bool" where
  "is_stop (StopPostgres _ _) = True"
| "is_stop _ = False"

definition seen_streaming :: "string \<Rightarrow> trace \<Rightarrow> bool" where
  "seen_streaming n tr \<longleftrightarrow> (\<exists>p s. (GetStatus p, StatusIs s) \<in> set tr
     \<and> n \<in> set (streaming_standbys (status_result p s)))"

text \<open>Between two stops the first node streamed again; after the last it did.\<close>

definition one_at_a_time :: "trace \<Rightarrow> bool" where
  "one_at_a_time tr \<longleftrightarrow> (\<forall>us n f a mid c b later.
     tr = us @ (StopPostgres n f, a) # mid @ (c, b) # later \<longrightarrow> is_stop c \<longrightarrow> seen_streaming n mid)"

definition all_back :: "trace \<Rightarrow> bool" where
  "all_back tr \<longleftrightarrow> (\<forall>us n f a later. tr = us @ (StopPostgres n f, a) # later \<longrightarrow> seen_streaming n later)"

lemma seen_streaming_append [simp]: "seen_streaming n (u @ v) \<longleftrightarrow> seen_streaming n u \<or> seen_streaming n v"
  by (auto simp: seen_streaming_def)

lemma seen_streaming_Cons: "seen_streaming n v \<Longrightarrow> seen_streaming n (x # v)"
  by (auto simp: seen_streaming_def)

lemma all_back_none: "calls (\<lambda>c. \<not> is_stop c) tr \<Longrightarrow> all_back tr"
  by (auto simp: all_back_def)

lemma all_back_append:
  assumes "all_back u" "all_back v"
  shows "all_back (u @ v)"
  unfolding all_back_def
proof (intro allI impI)
  fix us n f a later assume eq: "u @ v = us @ (StopPostgres n f, a) # later"
  then consider w where "u = us @ (StopPostgres n f, a) # w" "later = w @ v"
    | w where "us = u @ w" "v = w @ (StopPostgres n f, a) # later"
    by (auto simp: append_eq_append_conv2 append_eq_Cons_conv)
  then show "seen_streaming n later"
    using assms by cases (auto simp: all_back_def)
qed

lemma one_at_a_time_append:
  assumes "one_at_a_time u" "all_back u" "one_at_a_time v"
  shows "one_at_a_time (u @ v)"
  unfolding one_at_a_time_def
proof (intro allI impI)
  fix us n f a mid c b later
  assume eq: "u @ v = us @ (StopPostgres n f, a) # mid @ (c, b) # later" and c: "is_stop c"
  then consider w where "u = us @ (StopPostgres n f, a) # w" "mid @ (c, b) # later = w @ v"
    | w where "us = u @ w" "v = w @ (StopPostgres n f, a) # mid @ (c, b) # later"
    by (auto simp: append_eq_append_conv2 append_eq_Cons_conv)
  then show "seen_streaming n mid"
  proof cases
    case (1 w)
    then consider x where "w = mid @ (c, b) # x" | x where "mid = w @ x"
      by (auto simp: append_eq_append_conv2 append_eq_Cons_conv Cons_eq_append_conv)
    then show ?thesis
    proof cases
      case (1 x)
      then have "u = us @ (StopPostgres n f, a) # mid @ (c, b) # x" using \<open>u = _\<close> by simp
      then show ?thesis using assms(1) c unfolding one_at_a_time_def by blast
    next
      case (2 x)
      have "seen_streaming n w" using assms(2) \<open>u = _\<close> unfolding all_back_def by blast
      then show ?thesis unfolding 2 by simp
    qed
  next
    case (2 w)
    then show ?thesis using assms(3) c unfolding one_at_a_time_def by blast
  qed
qed

text \<open>A trace with at most one stop needs nothing in between.\<close>

definition stops :: "trace \<Rightarrow> nat" where
  "stops tr = length (filter (\<lambda>x. is_stop (fst x)) tr)"

lemma stops_simps [simp]: "stops [] = 0" "stops (u @ v) = stops u + stops v"
  "stops (x # v) = (if is_stop (fst x) then 1 else 0) + stops v"
  by (auto simp: stops_def)

lemma stops_none: "calls (\<lambda>c. \<not> is_stop c) tr \<Longrightarrow> stops tr = 0"
  by (induction tr) auto

lemma one_stop: "stops tr \<le> 1 \<Longrightarrow> one_at_a_time tr"
  by (auto simp: one_at_a_time_def)

lemma emits_check_node:
  "emits (check_node env n addr) (\<lambda>r tr. calls (\<lambda>c. \<not> is_stop c) tr
     \<and> (\<forall>m. m \<in> set (streaming_standbys r) \<longrightarrow> seen_streaming m tr))"
  unfolding emits_def check_node_def call_ok_def call_status_def seen_streaming_def
  by (auto simp: wp_rules wp_invoke unreachable_result_def split: prod.splits sum.splits)

lemma emits_streams_from_primary:
  "emits (streams_from_primary env n) (\<lambda>r tr. calls (\<lambda>c. \<not> is_stop c) tr \<and> (r \<longrightarrow> seen_streaming n tr))"
  unfolding streams_from_primary_def Let_def
proof (rule emits_bind [where R = "\<lambda>a n. n = [(CurrentTopology, a)]"], simp add: emits_invoke, goal_cases)
  case (1 a n0)
  show ?case
  proof (cases "hm_get (node_configs (as_topology a)) (primary_node_id (as_topology a))")
    case None
    then show ?thesis using 1 by (simp add: emits_return)
  next
    case (Some cfg)
    show ?thesis unfolding Some option.case
      by (rule emits_bind [OF emits_check_node])
        (use 1 in \<open>auto intro!: emits_return simp: seen_streaming_def\<close>)
  qed
qed

lemma emits_wait_until_streaming:
  "emits (wait_until_streaming env n fuel)
    (\<lambda>r tr. calls (\<lambda>c. \<not> is_stop c) tr \<and> (r = Some (Inr ()) \<longrightarrow> seen_streaming n tr))"
  unfolding wait_until_streaming_def
proof (rule emits_bind [where R = "\<lambda>a n. n = [(InstantMs, a)]"], simp add: emits_invoke, goal_cases)
  case (1 a n0)
  show ?case
    by (rule emits_mono [OF emits_poll_until [OF emits_streams_from_primary]])
      (use 1 in \<open>auto simp: ends_with_def intro: seen_streaming_Cons\<close>)
qed

lemma emits_restart_node:
  "emits (restart_node env t n) (\<lambda>r tr. stops tr \<le> 1 \<and>
     (\<forall>m f a. (StopPostgres m f, a) \<in> set tr \<longrightarrow> m = n))"
  unfolding restart_node_def
  by (cases "hm_get (node_configs t) n")
    (auto simp: emits_def call_ok_def call_reply_def wp_rules wp_invoke Cons_eq_append_conv
      split: prod.splits sum.splits)

text \<open>One restart: a stop, and then the wait for the node to stream.\<close>

lemma restarted:
  assumes "stops u \<le> 1" "\<forall>m f a. (StopPostgres m f, a) \<in> set u \<longrightarrow> m = n"
    and "calls (\<lambda>c. \<not> is_stop c) v" "seen_streaming n v"
  shows "all_back (u @ v)"
  unfolding all_back_def
proof (intro allI impI)
  fix us m f a later assume eq: "u @ v = us @ (StopPostgres m f, a) # later"
  have "(StopPostgres m f, a) \<notin> set v" using calls_mem [OF assms(3)] by fastforce
  then obtain w where "u = us @ (StopPostgres m f, a) # w" "later = w @ v"
    using eq by (auto simp: append_eq_append_conv2 append_eq_Cons_conv)
  moreover from this have "m = n" using assms(2) by simp
  ultimately show "seen_streaming m later" using assms(4) by simp
qed

definition restarts_ok :: "(string + unit) option \<Rightarrow> trace \<Rightarrow> bool" where
  "restarts_ok r tr \<longleftrightarrow> one_at_a_time tr \<and> (r = Some (Inr ()) \<longrightarrow> all_back tr)"

lemma emits_restart_then:
  assumes "emits (restart_standbys env t ns fuel) restarts_ok"
  shows "emits (restart_standbys env t (m # ns) fuel) restarts_ok"
  unfolding restart_standbys.simps
proof (rule emits_then_try [OF emits_finish [where R = "\<lambda>r tr. stops tr \<le> 1 \<and>
     (\<forall>m' f a. (StopPostgres m' f, a) \<in> set tr \<longrightarrow> m' = m)"]], rule emits_restart_node, goal_cases)
  case (1 n)
  then show ?case by (simp add: restarts_ok_def one_stop)
next
  case (2 x n)
  then show ?case by (simp add: restarts_ok_def one_stop)
next
  case (3 x n)
  note stopped = this
  show ?case
  proof (rule emits_then_try [OF emits_wait_until_streaming], goal_cases)
    case (1 n1)
    then show ?case using 3 by (simp add: restarts_ok_def one_stop stops_none)
  next
    case (2 y n1)
    then show ?case using 3 by (simp add: restarts_ok_def one_stop stops_none)
  next
    case (3 y n1)
    have came: "all_back (n @ n1)" "one_at_a_time (n @ n1)"
      using stopped 3 restarted [of n m n1] by (auto intro!: one_stop simp: stops_none)
    show ?case
    proof (rule emits_mono [OF assms])
      fix r n2 assume "restarts_ok r n2"
      then show "restarts_ok r (n @ n1 @ n2)"
        using came one_at_a_time_append [of "n @ n1" n2] all_back_append [of "n @ n1" n2]
        by (simp add: restarts_ok_def)
    qed
  qed
qed

lemma emits_restart_standbys: "emits (restart_standbys env t ns fuel) restarts_ok"
proof (induction ns)
  case Nil
  show ?case by (simp add: emits_return restarts_ok_def one_stop all_back_none)
next
  case (Cons m ns)
  then show ?case by (rule emits_restart_then)
qed

subsection \<open>Stops of a switchover\<close>

abbreviation no_stops :: "('e world, 'a) state \<Rightarrow> bool" where
  "no_stops m \<equiv> emits_only m (\<lambda>c. \<not> is_stop c)"

lemma emits_stops:
  "no_stops m \<Longrightarrow> emits m (\<lambda>_ n. stops n = 0)"
  unfolding emits_only_def by (erule emits_mono) (rule stops_none)

lemma no_stops_verify: "no_stops (verify_attempts env n addr k i left)"
  unfolding emits_only_def
  by (rule emits_mono [OF emits_verify_attempts]) (auto simp: verify_spec_def verify_call_def elim!: calls_mono)

lemma no_stops_repoint: "no_stops (repoint_replicas env ns info sp)"
  by (induction env ns info sp rule: repoint_replicas.induct) (auto intro!: emits_only_rules)

lemma no_stops_settle: "no_stops (settle_reads env n addr left lp steady)"
proof -
  have "settle_call c \<Longrightarrow> \<not> is_stop c" for c by (cases c) auto
  then show ?thesis unfolding emits_only_def
    by (intro emits_mono [OF emits_settle_reads]) (auto simp: steady_spec_def elim!: calls_mono)
qed

lemma no_stops_promote_and_record:
  "no_stops (promote_and_record env t new old_cfg cfg u p drain sp started)"
  unfolding promote_and_record_def promote_target_def restore_old_def end_drain_def after_switchover_def
    ensure_slots_for_replicas_def verify_promotion_def
  by (intro emits_only_rules no_stops_verify no_stops_repoint) auto

lemma emits_stops_bind:
  assumes "no_stops m" "\<And>a. emits (f a) (\<lambda>_ n. stops n \<le> k)"
  shows "emits (State_Monad.bind m f) (\<lambda>_ n. stops n \<le> k)"
  by (rule emits_bind [OF emits_stops [OF assms(1)]]) (simp add: assms(2))

lemma emits_stops_try_bind:
  assumes "no_stops m" "\<And>a. emits (f a) (\<lambda>_ n. stops n \<le> k)"
  shows "emits (try_bind m f) (\<lambda>_ n. stops n \<le> k)"
  by (rule emits_try_bind [OF emits_stops [OF assms(1)]]) (simp_all add: assms(2))

lemma emits_stop_once: "emits (stop_old env old addr) (\<lambda>_ n. stops n \<le> Suc 0)"
  unfolding emits_def stop_old_def call_ok_def call_reply_def
  by (auto simp: wp_rules wp_invoke split: prod.splits sum.splits)

lemma emits_hand_off_stops:
  "emits (hand_off env t new old_cfg cfg u p drain dt sp started) (\<lambda>_ n. stops n \<le> Suc 0)"
  unfolding hand_off_def
proof (rule emits_stops_bind, goal_cases)
  case 1
  show ?case unfolding begin_drain_def by (intro emits_only_rules) auto
next
  case (2 a)
  have dem: "no_stops (demote_old env old ad i s)" for old ad i s
    unfolding demote_old_def by (intro emits_only_rules) auto
  show ?case
  proof (rule emits_stops_try_bind [OF dem], rule emits_try_bind [OF emits_stop_once], assumption, goal_cases)
    case (1 b x n)
    have "no_stops (try_bind (wait_for_position_to_settle env new (agent_addr cfg)) (\<lambda>_.
       promote_and_record env t new old_cfg cfg u p drain sp started))"
      unfolding wait_for_position_to_settle_def
      by (intro emits_only_rules no_stops_settle no_stops_promote_and_record)
    then show ?case by (intro emits_mono [OF emits_stops]) (use 1 in auto)
  qed
qed

lemma emits_execute_stops:
  "emits (execute_switchover env t new u p drain dt sp) (\<lambda>_ n. stops n \<le> Suc 0)"
  unfolding execute_switchover_def
  by (rule emits_stops_bind)
    (auto intro!: emits_only_invoke emits_return emits_hand_off_stops split: option.split)

lemma emits_planned_stops: "emits (planned_switchover env p fuel) (\<lambda>_ n. stops n \<le> Suc 0)"
  unfolding planned_switchover_def
proof (rule emits_then_try [OF emits_wait_for_replica_sync], goal_cases)
  have w: "watching c \<Longrightarrow> \<not> is_stop c" for c by (cases c) auto
  {
    case (1 n)
    then show ?case using stops_none [OF calls_mono [of watching n]] w by simp
  next
    case (2 x n)
    then show ?case using stops_none [OF calls_mono [of watching n]] w by simp
  next
    case (3 x n)
    then have "stops n = 0" using stops_none [OF calls_mono [of watching n]] w by simp
    then show ?case
      by (auto intro!: emits_stops_bind emits_only_invoke emits_finish emits_execute_stops)
  }
qed

lemma restarts_ok_more:
  assumes "restarts_ok (Some (Inr ())) n" "one_at_a_time n'"
  shows "one_at_a_time (n @ n')"
  using assms one_at_a_time_append by (simp add: restarts_ok_def)

lemma no_stops_pick: "no_stops (pick_live_candidate env t old)"
proof -
  have "probe_call c \<Longrightarrow> \<not> is_stop c" for c by (cases c) auto
  then have "no_stops (collect_positions env ns)" for ns
    unfolding emits_only_def
    by (intro emits_mono [OF emits_collect_positions]) (auto simp: positions_spec_def elim!: calls_mono)
  then show ?thesis
    unfolding pick_live_candidate_def live_positions_def by (intro emits_only_rules)
qed

lemma emits_switch_stage:
  "emits (do {
      c \<leftarrow> pick_live_candidate env t old;
      (case c of
         None \<Rightarrow> State_Monad.return (Some (Inl ''no standby can take over''))
       | Some (target, _) \<Rightarrow>
           then_try (planned_switchover env (p\<lparr>new_primary_id := target\<rparr>) fuel) (\<lambda>_.
             wait_until_streaming env old fuel)) })
    (\<lambda>_ n. stops n \<le> Suc 0)"
proof (rule emits_stops_bind [OF no_stops_pick])
  fix c :: "(string \<times> u64) option"
  have "emits (then_try (planned_switchover env (p\<lparr>new_primary_id := target\<rparr>) fuel) (\<lambda>_.
             wait_until_streaming env old fuel)) (\<lambda>_ n. stops n \<le> Suc 0)" for target
    by (rule emits_then_try [OF emits_planned_stops])
      (auto intro!: emits_mono [OF emits_wait_until_streaming] simp: stops_none)
  then show "emits (case c of
         None \<Rightarrow> State_Monad.return (Some (Inl ''no standby can take over''))
       | Some (target, _) \<Rightarrow>
           then_try (planned_switchover env (p\<lparr>new_primary_id := target\<rparr>) fuel) (\<lambda>_.
             wait_until_streaming env old fuel)) (\<lambda>_ n. stops n \<le> Suc 0)"
    by (auto intro: emits_return split: option.split)
qed

lemma emits_rolling_restart:
  "emits (rolling_restart env p fuel) (\<lambda>_ n. one_at_a_time n)"
  unfolding rolling_restart_def Let_def
proof (rule emits_bind [where R = "\<lambda>a n. n = [(CurrentTopology, a)]"], simp add: emits_invoke, goal_cases)
  case (1 a n0)
  have n0: "stops n0 = 0" "all_back n0" "one_at_a_time n0"
    using 1 by (simp_all add: all_back_none one_stop)
  let ?t = "as_topology a"
  show ?case
  proof (cases "standbys_in_order ?t")
    case (Inl e)
    then show ?thesis using n0 by (simp add: emits_return)
  next
    case (Inr ns)
    show ?thesis
      unfolding Inr sum.case
    proof (rule emits_then_try [OF emits_restart_standbys], goal_cases)
      case (1 n)
      then show ?case using n0 by (simp add: restarts_ok_def one_at_a_time_append)
    next
      case (2 x n)
      then show ?case using n0 by (simp add: restarts_ok_def one_at_a_time_append)
    next
      case (3 x n)
      then have more: "one_at_a_time (n0 @ n @ n')" if "stops n' \<le> Suc 0" for n'
        using that n0 by (intro one_at_a_time_append [of n0] restarts_ok_more one_stop) auto
      show ?case
      proof (cases "ns = []")
        case True
        have "emits (finish (restart_node env ?t (primary_node_id ?t))) (\<lambda>_ n'. one_at_a_time (n0 @ n @ n'))"
          by (rule emits_finish, rule emits_mono [OF emits_restart_node]) (simp add: more)
        then show ?thesis unfolding if_P [OF True] .
      next
        case False
        show ?thesis unfolding if_not_P [OF False]
          by (rule emits_mono [OF emits_switch_stage]) (rule more)
      qed
    qed
  qed
qed


subsection \<open>Termination\<close>

definition returns :: "('s, 'a option) state \<Rightarrow> bool" where
  "returns m \<longleftrightarrow> (\<forall>w. fst (run_state m w) \<noteq> None)"

lemma returns_Some: "returns (State_Monad.return (Some x))"
  by (simp add: returns_def)

lemma returns_finish: "returns (finish m)"
  by (simp add: returns_def finish_def split: prod.split)

lemma returns_bind: "(\<And>a. returns (f a)) \<Longrightarrow> returns (State_Monad.bind m f)"
  by (simp add: returns_def split: prod.split)

lemma returns_then_try: "returns m \<Longrightarrow> (\<And>x. returns (f x)) \<Longrightarrow> returns (then_try m f)"
proof -
  assume m: "returns m" and f: "\<And>x. returns (f x)"
  have "run_state m w \<noteq> (None, w')" for w w' using m unfolding returns_def by (metis fst_conv)
  then show ?thesis
    using f unfolding then_try_def returns_def by (auto split: prod.split option.split sum.split)
qed

lemma returns_wait_for_replica_sync:
  assumes "keeps_time env clock" "timeout \<le> fuel * 200"
  shows "returns (wait_for_replica_sync env target lag timeout (Suc fuel))"
  using poll_from_now_returns [OF assms(1) timely_in_sync [OF assms(1)] assms(2)]
  by (simp add: returns_def wait_for_replica_sync_def del: poll_until.simps)

lemma returns_wait_until_streaming:
  assumes "keeps_time env clock" "CATCH_UP_TIMEOUT \<le> fuel * 500"
  shows "returns (wait_until_streaming env n (Suc fuel))"
  using poll_from_now_returns [OF assms(1) timely_streams [OF assms(1)] assms(2)]
  by (simp add: returns_def wait_until_streaming_def del: poll_until.simps)

lemma returns_planned_switchover:
  assumes "keeps_time env clock" "sync_timeout_secs p * 1000 \<le> fuel * 200"
  shows "returns (planned_switchover env p (Suc fuel))"
  unfolding planned_switchover_def
  by (intro returns_then_try returns_bind returns_finish returns_wait_for_replica_sync [OF assms])

lemma returns_restart_standbys:
  assumes "keeps_time env clock" "CATCH_UP_TIMEOUT \<le> fuel * 500"
  shows "returns (restart_standbys env t ns (Suc fuel))"
  by (induction ns)
    (auto intro!: returns_Some returns_then_try returns_finish returns_wait_until_streaming [OF assms])

section \<open>Properties\<close>

text \<open>A healthy cluster, and the trace of a switchover in it.\<close>

definition healthy_topology :: cluster_topology where
  "healthy_topology = demo_topology\<lparr>node_roles := [(''a'', Primary), (''b'', Replica), (''c'', Replica)]\<rparr>"

definition switch_trace :: trace where
  "switch_trace = snd (snd (run_state
     (execute_switchover demo_env healthy_topology ''b'' ''u'' ''p'' True 3 ''s_'') ([], [])))"

lemma switch_run:
  "\<exists>e'. run_state (execute_switchover demo_env healthy_topology ''b'' ''u'' ''p'' True 3 ''s_'') ([], [])
     = (Inr (), (e', switch_trace))"
proof -
  have "fst (run_state (execute_switchover demo_env healthy_topology ''b'' ''u'' ''p'' True 3 ''s_'') ([], []))
    = Inr ()" by code_simp
  then show ?thesis unfolding switch_trace_def by (metis prod.collapse)
qed

lemma switch_trace_split:
  "switch_trace = take 23 switch_trace @ (ClientWrite (SetPrimary ''b'' 0 0), Done) # drop 24 switch_trace"
  "switch_trace = take 20 switch_trace @ (Promote ''b'', Replied True []) # drop 21 switch_trace"
proof -
  have len: "23 < length switch_trace" "20 < length switch_trace" by code_simp+
  have "switch_trace ! 23 = (ClientWrite (SetPrimary ''b'' 0 0), Done)" by code_simp
  then show "switch_trace = take 23 switch_trace @ (ClientWrite (SetPrimary ''b'' 0 0), Done) # drop 24 switch_trace"
    using id_take_nth_drop [OF len(1)] by simp
  have "switch_trace ! 20 = (Promote ''b'', Replied True [])" by code_simp
  then show "switch_trace = take 20 switch_trace @ (Promote ''b'', Replied True []) # drop 21 switch_trace"
    using id_take_nth_drop [OF len(2)] by simp
qed

lemma healthy_new: "hm_get (node_configs healthy_topology) ''b'' = Some (demo_config ''b'' 1)"
  by (simp add: healthy_topology_def demo_topology_def)

text \<open>C5.  A switchover records a node as primary only when it is the target of the
  switchover, and only after, in this order: the old primary took the demotion
  to a standby of the target, it was told to stop, the target's position stayed
  the same in four readings, its agent confirmed the promotion, and a status
  showed it running and out of recovery; whatever the agents and the log do.\<close>

theorem switchover_records_after_handover:
  assumes "hm_get (node_configs t) new = Some new_cfg"
    and "run_state (execute_switchover env t new user password drain drain_timeout prefx) (e, []) = (r, (e', tr))"
    and "tr = before @ (ClientWrite (SetPrimary n l k), a) # later"
  shows "n = new \<and> handover_done (primary_node_id t) new (conninfo new_cfg user password)
    (prefx @ primary_node_id t) before"
  using handoff_run_write emits_trace [OF emits_execute_switchover [OF assms(1)] assms(2)] assms(3) by blast

theorem switchover_records_after_handover_witness:
  "handover_done ''a'' ''b'' ''host=b port=5432 user=u password=p'' ''s_a'' (take 23 switch_trace)"
proof -
  obtain e' where run: "run_state (execute_switchover demo_env healthy_topology ''b'' ''u'' ''p'' True 3 ''s_'') ([], [])
     = (Inr (), (e', switch_trace))" using switch_run by blast
  have "primary_node_id healthy_topology = ''a''" "conninfo (demo_config ''b'' 1) ''u'' ''p'' = ''host=b port=5432 user=u password=p''"
    by code_simp+
  then show ?thesis
    using switchover_records_after_handover [OF healthy_new run switch_trace_split(1)] by simp
qed

text \<open>C16.  A switchover promotes the target only after the old primary took the
  demotion and was told to stop and the target's position settled.  The only
  other node it promotes is the old primary, to restore it, and then the
  switchover fails and writes nothing to the log.\<close>

theorem switchover_promotes_after_stop:
  assumes "hm_get (node_configs t) new = Some new_cfg"
    and "run_state (execute_switchover env t new user password drain drain_timeout prefx) (e, []) = (r, (e', tr))"
    and "tr = before @ (Promote n, a) # later"
  shows "n = new \<and> (\<exists>d us. before = d @ us \<and> handed_over (primary_node_id t) new
           (conninfo new_cfg user password) (prefx @ primary_node_id t) d)
    \<or> n = primary_node_id t \<and> r \<noteq> Inr () \<and> (\<forall>c b. (ClientWrite c, b) \<notin> set tr)"
  using handoff_run_promote [OF emits_trace [OF emits_execute_switchover [OF assms(1)] assms(2)] assms(3)] .

theorem switchover_promotes_after_stop_witness:
  "\<exists>d us. take 20 switch_trace = d @ us \<and>
    handed_over ''a'' ''b'' ''host=b port=5432 user=u password=p'' ''s_a'' d"
proof -
  obtain e' where run: "run_state (execute_switchover demo_env healthy_topology ''b'' ''u'' ''p'' True 3 ''s_'') ([], [])
     = (Inr (), (e', switch_trace))" using switch_run by blast
  have "primary_node_id healthy_topology = ''a''" "conninfo (demo_config ''b'' 1) ''u'' ''p'' = ''host=b port=5432 user=u password=p''"
    by code_simp+
  then show ?thesis
    using switchover_promotes_after_stop [OF healthy_new run switch_trace_split(2)] by simp
qed

text \<open>A switchover that succeeds ends the drain, and not before the log has
  recorded the new primary, so a client admitted again is routed to it.\<close>

theorem switchover_ends_drain_after_record:
  assumes "hm_get (node_configs t) new = Some new_cfg"
    and "run_state (execute_switchover env t new user password True drain_timeout prefx) (e, []) = (Inr (), (e', tr))"
  shows "\<exists>before l x later. tr = before @ (ClientWrite (SetPrimary new l 0), Done) # (EndDrain, x) # later
    \<and> (\<forall>y. (EndDrain, y) \<notin> set before)"
  by (rule handoff_run_ok [OF emits_trace [OF emits_execute_switchover [OF assms(1)] assms(2)]])

theorem switchover_ends_drain_after_record_witness:
  "\<exists>before l x later. switch_trace = before @ (ClientWrite (SetPrimary ''b'' l 0), Done) # (EndDrain, x) # later
    \<and> (\<forall>y. (EndDrain, y) \<notin> set before)"
proof -
  obtain e' where run: "run_state (execute_switchover demo_env healthy_topology ''b'' ''u'' ''p'' True 3 ''s_'') ([], [])
     = (Inr (), (e', switch_trace))" using switch_run by blast
  show ?thesis by (rule switchover_ends_drain_after_record [OF healthy_new run])
qed

text \<open>
  When the target stops answering after the old primary was stopped, the
  switchover returns with the drain on, and no node is promoted.
\<close>

fun silent_env :: "unit environment" where
  "silent_env u (GetStatus n) = (Failed ''timeout'', u)"
| "silent_env u (Demote n i s) = (Replied True [], u)"
| "silent_env u (StopPostgres n m) = (Replied True [], u)"
| "silent_env u _ = (Done, u)"

lemma unsettled_switchover_leaves_no_primary:
  "case run_state (execute_switchover silent_env healthy_topology ''b'' ''u'' ''p'' True 3 ''s_'') ((), [])
   of (r, (_, tr)) \<Rightarrow> r = Inl ''timeout''
     \<and> (BeginDrain, Done) \<in> set tr \<and> EndDrain \<notin> fst ` set tr
     \<and> (StopPostgres ''a'' ''fast'', Replied True []) \<in> set tr
     \<and> Promote ''a'' \<notin> fst ` set tr \<and> Promote ''b'' \<notin> fst ` set tr"
  by code_simp


text \<open>An environment in which every standby of the primary streams.\<close>

definition streaming_status :: status_response where
  "streaming_status = (demo_status True 9)\<lparr>replicas :=
     [\<lparr>application_name = ''b'', rs_flush_lsn = 9, rs_replay_lsn = 9, rs_state = ''streaming''\<rparr>,
      \<lparr>application_name = ''c'', rs_flush_lsn = 9, rs_replay_lsn = 9, rs_state = ''streaming''\<rparr>]\<rparr>"

fun rolling_env :: "unit environment" where
  "rolling_env u (GetStatus n) = (StatusIs streaming_status, u)"
| "rolling_env u (StopPostgres n m) = (Replied True [], u)"
| "rolling_env u (Promote n) = (Replied False ''down'', u)"
| "rolling_env u (Demote n i s) = (Replied True [], u)"
| "rolling_env u CurrentTopology = (TopologyIs healthy_topology, u)"
| "rolling_env u _ = (Done, u)"

definition rolling_params :: switchover_params where
  "rolling_params = \<lparr>new_primary_id = [], max_lag_bytes = 0, sync_timeout_secs = 1, so_user = ''u'',
     so_password = ''p'', proxy_drain = False, so_drain_timeout = 0, so_slot_prefix = ''s_''\<rparr>"

definition rolling_trace :: trace where
  "rolling_trace = snd (snd (run_state (rolling_restart rolling_env rolling_params 1) ((), [])))"

lemma rolling_trace_nth:
  "9 < length rolling_trace \<and> rolling_trace ! 2 = (StopPostgres ''b'' ''fast'', Replied True [])
    \<and> rolling_trace ! 9 = (StopPostgres ''c'' ''fast'', Replied True [])"
  by code_simp

lemma rolling_trace_split:
  "rolling_trace = take 2 rolling_trace @ (StopPostgres ''b'' ''fast'', Replied True [])
     # take 6 (drop 3 rolling_trace) @ (StopPostgres ''c'' ''fast'', Replied True []) # drop 10 rolling_trace"
proof -
  have len: "2 < length rolling_trace" "6 < length (drop 3 rolling_trace)" using rolling_trace_nth by auto
  have "rolling_trace = take 2 rolling_trace @ rolling_trace ! 2 # drop (Suc 2) rolling_trace"
    by (rule id_take_nth_drop [OF len(1)])
  moreover have "drop 3 rolling_trace
      = take 6 (drop 3 rolling_trace) @ drop 3 rolling_trace ! 6 # drop (Suc 6) (drop 3 rolling_trace)"
    by (rule id_take_nth_drop [OF len(2)])
  ultimately show ?thesis using rolling_trace_nth by simp
qed


text \<open>C18.  A rolling restart, and the switchover in it, returns: with a clock that
  does not run backwards and sleeps that last as long as asked, fuel for the
  timeout divided by the polling period is enough, whatever the nodes answer.\<close>

theorem rolling_restart_returns:
  assumes "keeps_time env clock"
    and "sync_timeout_secs p * 1000 \<le> fuel * 200" "CATCH_UP_TIMEOUT \<le> fuel * 500"
  shows "\<exists>r w. run_state (rolling_restart env p (Suc fuel)) (e, tr) = (Some r, w)"
proof -
  have step: "returns (planned_switchover env (p\<lparr>new_primary_id := n\<rparr>) (Suc fuel))" for n
    using assms(2) by (intro returns_planned_switchover [OF assms(1)]) simp
  have "returns (rolling_restart env p (Suc fuel))"
    unfolding rolling_restart_def Let_def
    by (auto intro!: returns_bind returns_Some returns_then_try returns_finish step
        returns_restart_standbys [OF assms(1,3)] returns_wait_until_streaming [OF assms(1,3)]
        split: sum.split option.split)
  then show ?thesis unfolding returns_def by (metis not_None_eq prod.collapse)
qed

text \<open>An environment that is nothing but a clock.\<close>

fun clock_env :: "nat environment" where
  "clock_env c InstantMs = (Millis c, c)"
| "clock_env c (Sleep d) = (Done, c + d)"
| "clock_env c CurrentTopology = (TopologyIs healthy_topology, c)"
| "clock_env c _ = (Failed ''unreachable'', c)"

lemma clock_env_keeps_time: "keeps_time clock_env (\<lambda>c. c)"
proof -
  have "c \<le> snd (clock_env c k)" for c k by (cases k) simp_all
  then show ?thesis by (auto simp: keeps_time_def)
qed

theorem rolling_restart_returns_witness:
  "\<exists>r w. run_state (rolling_restart clock_env rolling_params (Suc 240)) (0, []) = (Some r, w)"
  by (rule rolling_restart_returns [OF clock_env_keeps_time])
    (simp_all add: rolling_params_def CATCH_UP_TIMEOUT_def)

text \<open>A planned switchover touches no node before a topology showed the target
  within the lag the caller allows.\<close>

theorem switchover_waits_for_sync:
  assumes "run_state (planned_switchover env p fuel) (e, []) = (r, (e', tr))"
    and "tr = before @ (c, a) # later" "\<not> watching c"
  shows "seen_in_sync (new_primary_id p) (max_lag_bytes p) before"
proof -
  have "emits (planned_switchover env p fuel)
    (\<lambda>_ n. preceded (\<lambda>c. \<not> watching c) (seen_in_sync (new_primary_id p) (max_lag_bytes p)) n)"
    unfolding planned_switchover_def
  proof (rule emits_then_try [OF emits_wait_for_replica_sync], goal_cases)
    case (1 n)
    then show ?case by (simp add: preceded_never)
  next
    case (2 x n)
    then show ?case by (simp add: preceded_never)
  next
    case (3 x n)
    have any: "emits_only (do { a \<leftarrow> invoke env CurrentTopology;
        finish (execute_switchover env (as_topology a) (new_primary_id p) (so_user p) (so_password p)
          (proxy_drain p) (so_drain_timeout p) (so_slot_prefix p)) }) (\<lambda>_. True)"
      by (intro emits_only_rules emits_only_finish emits_only_any [OF emits_execute_stops] TrueI)
    have "seen_in_sync (new_primary_id p) (max_lag_bytes p) (n @ b)" for b
      using 3 by (auto simp: seen_in_sync_def)
    then show ?case
      by (intro emits_mono [OF emits_only_emits [OF any]]) (use 3 in \<open>simp add: preceded_never preceded_always\<close>)
  qed
  from emits_trace [OF this assms(1)] show ?thesis using assms(2,3) by simp
qed

definition sync_params :: switchover_params where
  "sync_params = rolling_params\<lparr>new_primary_id := ''b''\<rparr>"

definition sync_trace :: trace where
  "sync_trace = snd (snd (run_state (planned_switchover rolling_env sync_params 1) ((), [])))"

theorem switchover_waits_for_sync_witness:
  "sync_trace = take 5 sync_trace @ (Connect ''a'' ''a:7001'', Done) # drop 6 sync_trace
    \<and> seen_in_sync ''b'' 0 (take 5 sync_trace)"
proof -
  have "5 < length sync_trace \<and> sync_trace ! 5 = (Connect ''a'' ''a:7001'', Done)" by code_simp
  then have split: "sync_trace = take 5 sync_trace @ (Connect ''a'' ''a:7001'', Done) # drop 6 sync_trace"
    using id_take_nth_drop [of 5 sync_trace] by simp
  obtain r e' where run: "run_state (planned_switchover rolling_env sync_params 1) ((), []) = (r, (e', sync_trace))"
    unfolding sync_trace_def by (metis prod.collapse)
  have "seen_in_sync (new_primary_id sync_params) (max_lag_bytes sync_params) (take 5 sync_trace)"
    by (rule switchover_waits_for_sync [OF run split]) simp
  then show ?thesis using split by (simp add: sync_params_def rolling_params_def)
qed

end
