(* ===== verification/Api_Operations.thy ===== *)
theory Api_Operations
  imports Switchover
begin

text \<open>
  The REST handlers that change the cluster: \<open>api/switchover.rs\<close>, \<open>api/failover.rs\<close>,
  \<open>api/restart.rs\<close>, \<open>api/maintenance.rs\<close>, \<open>api/replication_mode.rs\<close> and \<open>api/nodes.rs\<close>.
  A handler answers a status code; message texts are left out.  A task that a
  handler spawns runs after the handler's checks, and its guard clears the
  operation flag when it ends.
\<close>

section \<open>Handlers\<close>

record api_state =
  api_user :: string
  api_password :: string
  api_slot_prefix :: string
  api_proxy_drain :: bool

text \<open>What became of the spawned task; \<open>Running\<close> when the fuel ran out.\<close>

datatype task = NoTask | Running | Finished "string + unit"

definition run_guarded :: "'e environment \<Rightarrow> ('e world, (string + unit) option) state \<Rightarrow> ('e world, task) state" where
  "run_guarded env m = do {
     r \<leftarrow> m;
     (case r of
        None \<Rightarrow> State_Monad.return Running
      | Some x \<Rightarrow> do { invoke env EndOp; State_Monad.return (Finished x) }) }"

text \<open>The handlers take the flag by compare and exchange, and answer \<open>busy\<close> when it is taken.\<close>

definition with_op :: "'e environment \<Rightarrow> 'a \<Rightarrow> ('e world, 'a) state \<Rightarrow> ('e world, 'a) state" where
  "with_op env busy m = do {
     got \<leftarrow> invoke env TryBeginOp;
     (if \<not> as_flag got then State_Monad.return busy else m) }"

definition trigger_switchover ::
  "'e environment \<Rightarrow> api_state \<Rightarrow> string \<Rightarrow> u64 \<Rightarrow> nat \<Rightarrow> nat \<Rightarrow> ('e world, nat \<times> task) state" where
  "trigger_switchover env s target lag timeout_secs fuel = do {
     a \<leftarrow> invoke env CurrentTopology;
     (let t = as_topology a in
      case hm_get (node_configs t) target of
        None \<Rightarrow> State_Monad.return (404, NoTask)
      | Some cfg \<Rightarrow>
          if primary_node_id t = target then State_Monad.return (400, NoTask)
          else if is_external cfg then State_Monad.return (400, NoTask)
          else if hm_get (node_roles t) target \<noteq> Some Replica then State_Monad.return (400, NoTask)
          else with_op env (409, NoTask) (do {
            r \<leftarrow> run_guarded env (planned_switchover env
              \<lparr>new_primary_id = target, max_lag_bytes = lag, sync_timeout_secs = timeout_secs,
               so_user = api_user s, so_password = api_password s, proxy_drain = api_proxy_drain s,
               so_drain_timeout = 3000, so_slot_prefix = api_slot_prefix s\<rparr> fuel);
            State_Monad.return (202, r) })) }"

definition failover_task ::
  "'e environment \<Rightarrow> api_state \<Rightarrow> cluster_topology \<Rightarrow> string \<Rightarrow> ('e world, string + unit) state" where
  "failover_task env s t failed = do {
     w \<leftarrow> call_ok env (ClientWrite (MarkOffline failed));
     (case w of
        Inl _ \<Rightarrow> ok ()
      | Inr _ \<Rightarrow> do {
          trigger_failover env t failed (api_user s) (api_password s) (api_slot_prefix s);
          ok () }) }"

definition api_failover ::
  "'e environment \<Rightarrow> api_state \<Rightarrow> string \<Rightarrow> ('e world, nat \<times> task) state" where
  "api_failover env s failed = with_op env (409, NoTask) (do {
     a \<leftarrow> invoke env CurrentTopology;
     (if hm_get (node_configs (as_topology a)) failed = None then do {
        invoke env EndOp;
        State_Monad.return (404, NoTask) }
      else do {
        r \<leftarrow> run_guarded env (finish (failover_task env s (as_topology a) failed));
        State_Monad.return (202, r) }) })"

definition start_restart :: "'e environment \<Rightarrow> api_state \<Rightarrow> nat \<Rightarrow> ('e world, nat \<times> task) state" where
  "start_restart env s fuel = do {
     leader \<leftarrow> invoke env IsLeader;
     (if \<not> as_flag leader then State_Monad.return (503, NoTask)
      else with_op env (409, NoTask) (do {
        r \<leftarrow> run_guarded env (rolling_restart env
          \<lparr>new_primary_id = [], max_lag_bytes = 1024 * 1024, sync_timeout_secs = 60,
           so_user = api_user s, so_password = api_password s, proxy_drain = api_proxy_drain s,
           so_drain_timeout = 3000, so_slot_prefix = api_slot_prefix s\<rparr> fuel);
        State_Monad.return (202, r) })) }"

text \<open>What \<open>GET /api/restart\<close> reports: whether a restart runs, and the error it stopped with.\<close>

fun restart_status :: "bool \<times> string option \<Rightarrow> task \<Rightarrow> bool \<times> string option" where
  "restart_status s NoTask = s"
| "restart_status s Running = (True, None)"
| "restart_status s (Finished (Inl e)) = (False, Some e)"
| "restart_status s (Finished (Inr _)) = (False, None)"

definition enter_maintenance :: "'e environment \<Rightarrow> string \<Rightarrow> ('e world, nat) state" where
  "enter_maintenance env n = do {
     a \<leftarrow> invoke env CurrentTopology;
     (let t = as_topology a in
      if hm_get (node_configs t) n = None then State_Monad.return 404
      else if primary_node_id t = n then State_Monad.return 400
      else do {
        w \<leftarrow> call_ok env (ClientWrite (MarkMaintenance n));
        State_Monad.return (case w of Inr _ \<Rightarrow> 200 | Inl _ \<Rightarrow> 500) }) }"

definition exit_maintenance :: "'e environment \<Rightarrow> string \<Rightarrow> ('e world, nat) state" where
  "exit_maintenance env n = do {
     a \<leftarrow> invoke env CurrentTopology;
     (let t = as_topology a in
      if hm_get (node_configs t) n = None then State_Monad.return 404
      else if hm_get (node_roles t) n \<noteq> Some Maintenance then State_Monad.return 400
      else do {
        w \<leftarrow> call_ok env (ClientWrite (MarkReplica n 0));
        State_Monad.return (case w of Inr _ \<Rightarrow> 200 | Inl _ \<Rightarrow> 500) }) }"

definition write_mode :: "'e environment \<Rightarrow> replication_mode \<Rightarrow> ('e world, nat) state" where
  "write_mode env m = do {
     w \<leftarrow> call_ok env (ClientWrite (SetReplicationMode m));
     State_Monad.return (case w of Inr _ \<Rightarrow> 204 | Inl _ \<Rightarrow> 500) }"

definition set_mode :: "'e environment \<Rightarrow> replication_mode \<Rightarrow> ('e world, nat) state" where
  "set_mode env m =
    (if m = Async then write_mode env m
     else do {
       a \<leftarrow> invoke env CurrentTopology;
       (if length (node_configs (as_topology a)) < 2 then State_Monad.return 400
        else write_mode env m) })"

definition add_node ::
  "'e environment \<Rightarrow> string \<Rightarrow> string \<Rightarrow> string \<Rightarrow> u32 option \<Rightarrow> bool \<Rightarrow> ('e world, nat) state" where
  "add_node env n agent postgres prio external = do {
     w \<leftarrow> call_ok env (ClientWrite (AddNode
       \<lparr>node_id = n, agent_addr = agent, postgres_addr = postgres,
        priority = (case prio of Some p \<Rightarrow> p | None \<Rightarrow> 100),
        tags = (if external then [(''role'', ''external'')] else [])\<rparr>));
     State_Monad.return (case w of Inr _ \<Rightarrow> 201 | Inl _ \<Rightarrow> 500) }"

definition drop_slot :: "'e environment \<Rightarrow> api_state \<Rightarrow> cluster_topology \<Rightarrow> string \<Rightarrow> ('e world, unit) state" where
  "drop_slot env s t n =
    (case primary_postgres_addr t of
       None \<Rightarrow> skip
     | Some addr \<Rightarrow> do {
         invoke env (DropSlot (primary_url (api_user s) (api_password s) addr) (api_slot_prefix s @ n));
         skip })"

definition remove_node :: "'e environment \<Rightarrow> api_state \<Rightarrow> string \<Rightarrow> ('e world, nat) state" where
  "remove_node env s n = do {
     invoke env (Evict n);
     a \<leftarrow> invoke env CurrentTopology;
     w \<leftarrow> call_ok env (ClientWrite (RemoveNode n));
     (case w of
        Inl _ \<Rightarrow> State_Monad.return 500
      | Inr _ \<Rightarrow> do { drop_slot env s (as_topology a) n; State_Monad.return 204 }) }"

text \<open>\<open>backup\<close> holds the settings of the configured backup store.\<close>

definition seed_node ::
  "'e environment \<Rightarrow> api_state \<Rightarrow> string \<Rightarrow> bool \<Rightarrow> bool \<Rightarrow> (string, string) hashmap option
    \<Rightarrow> ('e world, nat \<times> task) state" where
  "seed_node env s n force from_backup backup = do {
     a \<leftarrow> invoke env CurrentTopology;
     (case new_seed_plan (as_topology a) n (api_user s) (api_password s) (api_slot_prefix s) of
        Inl _ \<Rightarrow> State_Monad.return (409, NoTask)
      | Inr plan \<Rightarrow>
          if from_backup then
            (case backup of
               None \<Rightarrow> State_Monad.return (404, NoTask)
             | Some settings \<Rightarrow> do {
                 r \<leftarrow> run_from_backup env plan settings force;
                 State_Monad.return (202, Finished r) })
          else do {
            r \<leftarrow> run_plan env plan force;
            State_Monad.return (202, Finished r) }) }"

definition detach ::
  "'e environment \<Rightarrow> api_state \<Rightarrow> cluster_topology \<Rightarrow> string \<Rightarrow> string \<Rightarrow> ('e world, string + unit) state" where
  "detach env s t n addr =
    try_bind (call_ok env (Connect n addr)) (\<lambda>_.
    try_bind (call_reply env (DetachRpc n)) (\<lambda>(success, err).
      if \<not> success then fail err
      else do {
        w \<leftarrow> call_ok env (ClientWrite (RemoveNode n));
        (case w of
           Inl e \<Rightarrow> fail (''remove node: '' @ e)
         | Inr _ \<Rightarrow> do {
             invoke env (Evict n);
             drop_slot env s t n;
             ok () }) }))"

definition detach_node :: "'e environment \<Rightarrow> api_state \<Rightarrow> string \<Rightarrow> ('e world, nat) state" where
  "detach_node env s n = do {
     a \<leftarrow> invoke env CurrentTopology;
     (case hm_get (node_configs (as_topology a)) n of
        None \<Rightarrow> State_Monad.return 404
      | Some cfg \<Rightarrow>
          if \<not> is_external cfg then State_Monad.return 409
          else do {
            leader \<leftarrow> invoke env IsLeader;
            (if \<not> as_flag leader then State_Monad.return 503
             else with_op env 409 (do {
               r \<leftarrow> detach env s (as_topology a) n (agent_addr cfg);
               invoke env EndOp;
               State_Monad.return (case r of Inr _ \<Rightarrow> 204 | Inl _ \<Rightarrow> 500) })) }) }"

text \<open>The routes of \<open>api/mod.rs\<close> that run an operation on the nodes.\<close>

datatype api_request = SwitchoverTo string u64 nat | FailoverOf string | Restart | DetachNode string

fun handle :: "'e environment \<Rightarrow> api_state \<Rightarrow> nat \<Rightarrow> api_request \<Rightarrow> ('e world, nat \<times> task) state" where
  "handle env s fuel (SwitchoverTo n lag secs) = trigger_switchover env s n lag secs fuel"
| "handle env s fuel (FailoverOf n) = api_failover env s n"
| "handle env s fuel Restart = start_restart env s fuel"
| "handle env s fuel (DetachNode n) = do { c \<leftarrow> detach_node env s n; State_Monad.return (c, NoTask) }"


section \<open>Lemmas\<close>

text \<open>Calls that change a node, and calls that leave the operation flag alone.\<close>

fun acts :: "call \<Rightarrow> bool" where
  "acts (Promote _) = True"
| "acts (Demote _ _ _) = True"
| "acts (StopPostgres _ _) = True"
| "acts (DetachRpc _) = True"
| "acts _ = False"

fun unflagged :: "call \<Rightarrow> bool" where
  "unflagged TryBeginOp = False"
| "unflagged EndOp = False"
| "unflagged _ = True"

lemma unflagged_settle: "emits_only (settle_reads env n addr left lp steady) unflagged"
  by (induction left arbitrary: lp steady) (auto intro!: emits_only_rules simp: Let_def)

lemma unflagged_verify: "emits_only (verify_attempts env n addr k i left) unflagged"
  by (induction left) (auto intro!: emits_only_rules simp: pause_def)

lemma unflagged_repoint: "emits_only (repoint_replicas env ns info sp) unflagged"
  by (induction env ns info sp rule: repoint_replicas.induct) (auto intro!: emits_only_rules)

lemma unflagged_collect: "emits_only (collect_positions env ns) unflagged"
  by (induction env ns rule: collect_positions.induct)
    (auto intro!: emits_only_rules simp: check_position_def)

lemma unflagged_poll:
  "emits_only body unflagged \<Longrightarrow> emits_only (poll_until env deadline period body msg fuel) unflagged"
  by (induction fuel) (auto intro!: emits_only_rules)

lemma unflagged_planned: "emits_only (planned_switchover env p fuel) unflagged"
  unfolding planned_switchover_def wait_for_replica_sync_def execute_switchover_def hand_off_def
    begin_drain_def demote_old_def stop_old_def wait_for_position_to_settle_def promote_and_record_def
    promote_target_def verify_promotion_def restore_old_def end_drain_def after_switchover_def
    ensure_slots_for_replicas_def in_sync_def Let_def
  by (intro emits_only_rules emits_only_then_try emits_only_finish unflagged_poll unflagged_settle
      unflagged_verify unflagged_repoint) auto

lemma unflagged_streaming: "emits_only (wait_until_streaming env n fuel) unflagged"
  unfolding wait_until_streaming_def streams_from_primary_def check_node_def Let_def
  by (intro emits_only_rules unflagged_poll) auto

lemma unflagged_restart: "emits_only (restart_node env t n) unflagged"
  unfolding restart_node_def by (intro emits_only_rules) auto

lemma unflagged_standbys: "emits_only (restart_standbys env t ns fuel) unflagged"
  by (induction ns)
    (auto intro!: emits_only_return emits_only_then_try emits_only_finish unflagged_restart unflagged_streaming)

lemma unflagged_rolling: "emits_only (rolling_restart env p fuel) unflagged"
  unfolding rolling_restart_def pick_live_candidate_def live_positions_def Let_def
  by (intro emits_only_rules emits_only_then_try emits_only_finish unflagged_standbys unflagged_restart
      unflagged_collect unflagged_planned unflagged_streaming) auto

lemma unflagged_failover: "emits_only (trigger_failover env t failed u p sp) unflagged"
  unfolding trigger_failover_def pick_live_candidate_def live_positions_def promote_node_def
    verify_promotion_def after_promotion_def build_failover_event_def record_event_def ensure_slots_for_replicas_def
  by (intro emits_only_rules unflagged_collect unflagged_verify unflagged_repoint) auto

lemma unflagged_detach: "emits_only (detach env s t n addr) unflagged"
  unfolding detach_def drop_slot_def by (intro emits_only_rules) auto

text \<open>
  An operation holds the flag: a call that changes a node comes after the flag was
  taken and before it is released, and the release is the last call unless the
  task still runs.
\<close>

definition flag_held :: "trace \<Rightarrow> bool" where
  "flag_held before \<longleftrightarrow> (TryBeginOp, Flag True) \<in> set before \<and> (\<forall>x. (EndOp, x) \<notin> set before)"

definition holds_flag :: "task \<Rightarrow> trace \<Rightarrow> bool" where
  "holds_flag r tr \<longleftrightarrow> preceded acts flag_held tr
    \<and> ((TryBeginOp, Flag True) \<in> set tr \<longrightarrow> r \<noteq> Running \<longrightarrow> fst (last tr) = EndOp)"

lemma flag_held_more: "flag_held b \<Longrightarrow> calls unflagged n \<Longrightarrow> flag_held (b @ n)"
  using calls_mem [of unflagged n EndOp] by (auto simp: flag_held_def)

lemma preceded_flag_held:
  "flag_held b \<Longrightarrow> calls unflagged n \<Longrightarrow> preceded acts (\<lambda>c. flag_held (b @ c)) n"
proof (induction n arbitrary: b)
  case (Cons x n)
  have "flag_held (b @ [x])" using flag_held_more [of b "[x]"] Cons.prems by simp
  from Cons.IH [OF this] show ?case using Cons.prems by simp
qed simp

lemma holds_flag_none: "calls (\<lambda>c. \<not> acts c \<and> c \<noteq> TryBeginOp) tr \<Longrightarrow> holds_flag r tr"
proof -
  assume c: "calls (\<lambda>c. \<not> acts c \<and> c \<noteq> TryBeginOp) tr"
  have "(TryBeginOp, Flag True) \<notin> set tr" using calls_mem [OF c] by blast
  moreover have "calls (\<lambda>c. \<not> acts c) tr" using c by (rule calls_mono) simp
  ultimately show ?thesis by (simp add: holds_flag_def preceded_never)
qed

lemma holds_flag_task:
  assumes "preceded acts flag_held b" "flag_held b" "calls unflagged n"
  shows "holds_flag r (b @ n @ [(EndOp, x)])" "holds_flag Running (b @ n)"
  using assms preceded_flag_held [OF assms(2,3)] by (simp_all add: holds_flag_def)

lemma emits_run_guarded:
  assumes "emits_only m unflagged" "preceded acts flag_held b" "flag_held b"
  shows "emits (do { r \<leftarrow> run_guarded env m; State_Monad.return (c, r) }) (\<lambda>r n. holds_flag (snd r) (b @ n))"
proof -
  have "emits (run_guarded env m) (\<lambda>r n. holds_flag r (b @ n))"
    unfolding run_guarded_def
  proof (rule emits_bind [OF emits_only_emits [OF assms(1)]])
    fix r :: "(string + unit) option" and n :: trace assume n: "calls unflagged n"
    show "emits (case r of None \<Rightarrow> State_Monad.return Running
        | Some x \<Rightarrow> do { invoke env EndOp; State_Monad.return (Finished x) }) (\<lambda>r n'. holds_flag r (b @ n @ n'))"
      using holds_flag_task [OF assms(2,3) n]
      by (cases r) (auto simp: emits_return emits_map_answer)
  qed
  then show ?thesis by (rule emits_bind) (simp add: emits_return)
qed

lemma flag_taken: "calls (\<lambda>c. \<not> acts c \<and> unflagged c) b \<Longrightarrow>
    flag_held (b @ [(TryBeginOp, Flag True)]) \<and> preceded acts flag_held (b @ [(TryBeginOp, Flag True)])"
  using calls_mem [of "\<lambda>c. \<not> acts c \<and> unflagged c" b EndOp]
  by (auto simp: flag_held_def preceded_never calls_def)

text \<open>Taking the flag, and the task behind it.\<close>

lemma emits_with_op:
  assumes "calls (\<lambda>c. \<not> acts c \<and> unflagged c) b" "f busy = NoTask"
    and "\<And>b. flag_held b \<Longrightarrow> preceded acts flag_held b \<Longrightarrow> emits m (\<lambda>r n. holds_flag (f r) (b @ n))"
  shows "emits (with_op env busy m) (\<lambda>r n. holds_flag (f r) (b @ n))"
  unfolding with_op_def
proof (rule emits_bind [where R = "\<lambda>a n. n = [(TryBeginOp, a)]"], simp add: emits_invoke, goal_cases)
  case (1 got n)
  show ?case
  proof (cases "got = Flag True")
    case True
    have "emits m (\<lambda>r n'. holds_flag (f r) ((b @ n) @ n'))"
      using flag_taken [OF assms(1)] 1 True by (intro assms(3)) simp_all
    then show ?thesis using True by simp
  next
    case False
    have "preceded acts flag_held (b @ n)"
      using 1 assms(1) by (auto intro!: preceded_never elim: calls_mono)
    moreover have "(TryBeginOp, Flag True) \<notin> set (b @ n)"
      using calls_mem [OF assms(1), of TryBeginOp] 1 False by auto
    ultimately have "holds_flag NoTask (b @ n)" by (simp add: holds_flag_def)
    then show ?thesis using False assms(2) by (simp add: emits_return)
  qed
qed

lemma emits_trigger_switchover:
  "emits (trigger_switchover env s n lag secs fuel) (\<lambda>r n. holds_flag (snd r) n)"
  unfolding trigger_switchover_def Let_def
proof (rule emits_bind [where R = "\<lambda>a n. n = [(CurrentTopology, a)]"], simp add: emits_invoke, goal_cases)
  case (1 a n0)
  have "emits (with_op env (409, NoTask) (do { r \<leftarrow> run_guarded env (planned_switchover env p fuel);
      State_Monad.return (202, r) })) (\<lambda>r n. holds_flag (snd r) (n0 @ n))" for p
    by (rule emits_with_op) (use 1 in \<open>auto intro!: emits_run_guarded unflagged_planned\<close>)
  then show ?case using 1 by (auto intro!: emits_return holds_flag_none split: option.split)
qed

lemma emits_api_failover: "emits (api_failover env s failed) (\<lambda>r n. holds_flag (snd r) ([] @ n))"
  unfolding api_failover_def
proof (rule emits_with_op, simp, simp)
  fix b :: trace assume b: "flag_held b" "preceded acts flag_held b"
  have task: "emits_only (finish (failover_task env s t failed)) unflagged" for t
    unfolding failover_task_def by (intro emits_only_finish emits_only_rules unflagged_failover) auto
  show "emits (do {
     a \<leftarrow> invoke env CurrentTopology;
     (if hm_get (node_configs (as_topology a)) failed = None then do {
        invoke env EndOp;
        State_Monad.return (404::nat, NoTask) }
      else do {
        r \<leftarrow> run_guarded env (finish (failover_task env s (as_topology a) failed));
        State_Monad.return (202, r) }) }) (\<lambda>r n. holds_flag (snd r) (b @ n))"
  proof (rule emits_bind [where R = "\<lambda>a n. n = [(CurrentTopology, a)]"], simp add: emits_invoke, goal_cases)
    case (1 a n0)
    have b': "preceded acts flag_held (b @ n0)" "flag_held (b @ n0)"
      using flag_held_more [OF b(1), of n0] b 1 by simp_all
    show ?case
    proof (cases "hm_get (node_configs (as_topology a)) failed = None")
      case True
      then show ?thesis using holds_flag_task(1) [OF b', of "[]"] by (simp add: emits_map_answer)
    next
      case False
      show ?thesis unfolding if_not_P [OF False]
        by (rule emits_run_guarded [OF task b', unfolded append_assoc])
    qed
  qed
qed

lemma emits_start_restart: "emits (start_restart env s fuel) (\<lambda>r n. holds_flag (snd r) n)"
  unfolding start_restart_def
proof (rule emits_bind [where R = "\<lambda>a n. n = [(IsLeader, a)]"], simp add: emits_invoke, goal_cases)
  case (1 a n0)
  have "emits (with_op env (409, NoTask) (do { r \<leftarrow> run_guarded env (rolling_restart env p fuel);
      State_Monad.return (202, r) })) (\<lambda>r n. holds_flag (snd r) (n0 @ n))" for p
    by (rule emits_with_op) (use 1 in \<open>auto intro!: emits_run_guarded unflagged_rolling\<close>)
  then show ?case using 1 by (auto intro!: emits_return holds_flag_none)
qed

lemma emits_detach_node: "emits (detach_node env s n) (\<lambda>_ tr. holds_flag NoTask tr)"
  unfolding detach_node_def
proof (rule emits_bind [where R = "\<lambda>a n. n = [(CurrentTopology, a)]"], simp add: emits_invoke, goal_cases)
  case (1 a n0)
  have guarded: "emits (do { r \<leftarrow> detach env s t n addr; invoke env EndOp;
      State_Monad.return (case r of Inr _ \<Rightarrow> c | Inl _ \<Rightarrow> d) }) (\<lambda>_ n. holds_flag NoTask (b @ n))"
    if "flag_held b" "preceded acts flag_held b" for t addr b and c d :: nat
    by (rule emits_bind [OF emits_only_emits [OF unflagged_detach]], rule emits_map_answer)
      (rule holds_flag_task(1) [OF that(2,1)])
  have "emits (with_op env (409::nat) (do { r \<leftarrow> detach env s t n addr; invoke env EndOp;
      State_Monad.return (case r of Inr _ \<Rightarrow> 204 | Inl _ \<Rightarrow> 500) }))
    (\<lambda>_ n. holds_flag NoTask (([(CurrentTopology, a), (IsLeader, l)]) @ n))" for t addr l
    by (rule emits_with_op) (auto intro!: guarded)
  then have led: "emits (do { leader \<leftarrow> invoke env IsLeader;
      (if \<not> as_flag leader then State_Monad.return (503::nat)
       else with_op env 409 (do { r \<leftarrow> detach env s t n addr; invoke env EndOp;
         State_Monad.return (case r of Inr _ \<Rightarrow> 204 | Inl _ \<Rightarrow> 500) })) })
    (\<lambda>_ n. holds_flag NoTask (n0 @ n))" for t addr
    using 1 by (intro emits_bind [where R = "\<lambda>a n. n = [(IsLeader, a)]"])
      (auto simp: emits_invoke intro!: emits_return holds_flag_none)
  then show ?case using 1 by (auto intro!: emits_return holds_flag_none split: option.split)
qed

lemma emits_handle: "emits (handle env s fuel req) (\<lambda>r n. holds_flag (snd r) n)"
proof (cases req)
  case (DetachNode n)
  then show ?thesis by (auto intro!: emits_bind [OF emits_detach_node] emits_return)
qed (use emits_trigger_switchover emits_api_failover emits_start_restart in simp_all)


section \<open>Properties\<close>


text \<open>A cluster with an external standby that detaches.\<close>

definition external_topology :: cluster_topology where
  "external_topology = healthy_topology
     \<lparr>node_configs := [(''a'', demo_config ''a'' 1), (''x'', (demo_config ''x'' 1)\<lparr>tags := [(''role'', ''external'')]\<rparr>)]\<rparr>"

fun detach_env :: "unit environment" where
  "detach_env u CurrentTopology = (TopologyIs external_topology, u)"
| "detach_env u IsLeader = (Flag True, u)"
| "detach_env u TryBeginOp = (Flag True, u)"
| "detach_env u (DetachRpc n) = (Replied True [], u)"
| "detach_env u _ = (Done, u)"

definition demo_api :: api_state where
  "demo_api = \<lparr>api_user = ''u'', api_password = ''p'', api_slot_prefix = ''s_'', api_proxy_drain = True\<rparr>"

definition detach_trace :: trace where
  "detach_trace = snd (snd (run_state (handle detach_env demo_api 0 (DetachNode ''x'')) ((), [])))"

lemma detach_trace_split:
  "detach_trace = take 4 detach_trace @ (DetachRpc ''x'', Replied True []) # drop 5 detach_trace"
proof -
  have "4 < length detach_trace \<and> detach_trace ! 4 = (DetachRpc ''x'', Replied True [])" by code_simp
  then show ?thesis using id_take_nth_drop [of 4 detach_trace] by simp
qed


text \<open>
  The failover handler does not ask that the node it is given is the primary: for
  a failed replica it promotes another one while the primary runs, and tells the
  primary nothing.  Only the strict mode refuses, because the primary is counted
  among the standbys that have to answer.
\<close>

definition async_topology :: cluster_topology where
  "async_topology = healthy_topology\<lparr>replication_mode := Async\<rparr>"

fun failover_env :: "string list environment" where
  "failover_env e CurrentTopology = (TopologyIs async_topology, e)"
| "failover_env e TryBeginOp = (Flag True, e)"
| "failover_env e c = demo_env e c"

definition replica_failover_trace :: trace where
  "replica_failover_trace = snd (snd (run_state (handle failover_env demo_api 0 (FailoverOf ''c'')) ([], [])))"

fun told_primary :: "call \<Rightarrow> bool" where
  "told_primary (Demote n _ _) = (n = ''a'')"
| "told_primary (StopPostgres n _) = (n = ''a'')"
| "told_primary _ = False"

lemma failover_of_a_replica_adds_a_primary:
  "primary_node_id async_topology = ''a''"
  "(Promote ''b'', Replied True []) \<in> set replica_failover_trace"
  "list_all (\<lambda>(c, _). \<not> told_primary c) replica_failover_trace"
  by code_simp+

end
