(* ===== verification/Wire_Protocol.thy ===== *)
theory Wire_Protocol
  imports Prelude "HOL-Library.Code_Target_Nat"
begin

text \<open>
  The PostgreSQL wire protocol as the proxy reads and writes it
  (\<open>proxy/protocol.rs\<close>, the byte helpers of \<open>proxy/connection.rs\<close>, \<open>proxy/ssl.rs\<close>).
  A stream is the list of the bytes still to be read.  A slice index out of range
  is \<open>Panicked\<close>; sizes of 32 bits wrap where the code's casts do.
\<close>

section \<open>Byte streams\<close>

datatype proto_error = ReadFailed | Bad string | Panicked

definition read_exact :: "nat \<Rightarrow> bytes \<Rightarrow> proto_error + bytes \<times> bytes" where
  "read_exact n s = (if length s < n then Inl ReadFailed else Inr (take n s, drop n s))"

definition read_u8 :: "bytes \<Rightarrow> proto_error + char \<times> bytes" where
  "read_u8 s = (case s of [] \<Rightarrow> Inl ReadFailed | c # r \<Rightarrow> Inr (c, r))"

definition read_u32 :: "bytes \<Rightarrow> proto_error + nat \<times> bytes" where
  "read_u32 s = and_then (read_exact 4 s) (\<lambda>(b, r). Inr (from_be_bytes b, r))"

text \<open>The bytes \<open>std::str::from_utf8\<close> accepts.\<close>

definition cont :: "nat \<Rightarrow> nat \<Rightarrow> char \<Rightarrow> bool" where
  "cont lo hi c \<longleftrightarrow> lo \<le> of_char c \<and> of_char c \<le> hi"

fun utf8_valid :: "bytes \<Rightarrow> bool" where
  "utf8_valid [] \<longleftrightarrow> True"
| "utf8_valid (a # s) \<longleftrightarrow>
    (if of_char a < (128 :: nat) then utf8_valid s
     else if cont 0xC2 0xDF a then (case s of b # s' \<Rightarrow> cont 0x80 0xBF b \<and> utf8_valid s' | _ \<Rightarrow> False)
     else if cont 0xE0 0xEF a then
       (case s of b # c # s' \<Rightarrow>
          cont (if of_char a = (0xE0 :: nat) then 0xA0 else 0x80) (if of_char a = (0xED :: nat) then 0x9F else 0xBF) b
          \<and> cont 0x80 0xBF c \<and> utf8_valid s' | _ \<Rightarrow> False)
     else if cont 0xF0 0xF4 a then
       (case s of b # c # d # s' \<Rightarrow>
          cont (if of_char a = (0xF0 :: nat) then 0x90 else 0x80) (if of_char a = (0xF4 :: nat) then 0x8F else 0xBF) b
          \<and> cont 0x80 0xBF c \<and> cont 0x80 0xBF d \<and> utf8_valid s' | _ \<Rightarrow> False)
     else False)"

fun split_byte :: "char \<Rightarrow> bytes \<Rightarrow> bytes list" where
  "split_byte c [] = [[]]"
| "split_byte c (x # xs) =
    (if x = c then [] # split_byte c xs
     else (case split_byte c xs of [] \<Rightarrow> [[x]] | y # ys \<Rightarrow> (x # y) # ys))"

abbreviation NUL :: char where "NUL \<equiv> CHR 0x00"


section \<open>Messages\<close>

definition PROTOCOL_V3 :: nat where "PROTOCOL_V3 = 196608"
definition SSL_REQUEST_CODE :: nat where "SSL_REQUEST_CODE = 80877103"
definition CANCEL_REQUEST_CODE :: nat where "CANCEL_REQUEST_CODE = 80877102"

datatype frontend_message =
    StartupMessage "(string, string) hashmap"
  | SslRequest
  | Query string
  | Parse string string "nat list"
  | Bind string string "bytes list"
  | Execute string int
  | Describe char string
  | SyncMsg
  | FlushMsg
  | CloseMsg char string
  | CancelRequest nat nat
  | Terminate
  | CopyData bytes
  | CopyDone
  | CopyFail string
  | PasswordMessage bytes

subsection \<open>Statements\<close>

datatype statement_intent = WriteIntent | ReadIntent | SetLocal

text \<open>Letters outside ASCII keep their bytes.\<close>

definition ascii_upper :: "char \<Rightarrow> char" where
  "ascii_upper c = (if is_ascii_lowercase c then char_of (of_char c - 32 :: nat) else c)"

definition classify_statement :: "string \<Rightarrow> statement_intent" where
  "classify_statement sql =
    (let upper = map ascii_upper (dropWhile is_whitespace sql) in
     if starts_with ''SELECT'' upper \<or> starts_with ''TABLE'' upper \<or> starts_with ''VALUES'' upper then ReadIntent
     else if starts_with ''WITH'' upper then
       (let has_select = str_contains ''SELECT'' upper;
            has_write = str_contains ''INSERT'' upper \<or> str_contains ''UPDATE'' upper
              \<or> str_contains ''DELETE'' upper \<or> str_contains ''MERGE'' upper
        in if has_select \<and> \<not> has_write then ReadIntent else WriteIntent)
     else if starts_with ''SET'' upper then SetLocal
     else if starts_with ''BEGIN READ ONLY'' upper then ReadIntent
     else WriteIntent)"

subsection \<open>The startup message\<close>

fun startup_pairs :: "bytes list \<Rightarrow> (string, string) hashmap \<Rightarrow> proto_error + (string, string) hashmap" where
  "startup_pairs [] params = Inr params"
| "startup_pairs (k # rest) params =
    (if k = [] then Inr params
     else (case rest of
        [] \<Rightarrow> Inl (Bad ''startup param value missing'')
      | v # rest' \<Rightarrow>
          if \<not> utf8_valid k then Inl (Bad ''startup param key not UTF-8'')
          else if \<not> utf8_valid v then Inl (Bad ''startup param value not UTF-8'')
          else startup_pairs rest' (hm_insert k v params)))"

definition parse_startup_params :: "bytes \<Rightarrow> proto_error + (string, string) hashmap" where
  "parse_startup_params buf = startup_pairs (split_byte NUL buf) []"

definition read_startup_message :: "bytes \<Rightarrow> proto_error + frontend_message \<times> bytes" where
  "read_startup_message s =
    and_then (read_u32 s) (\<lambda>(total_len, s1).
    if total_len < 8 then Inl (Bad (''startup message too short: '' @ show_radix 10 total_len))
    else and_then (read_u32 s1) (\<lambda>(code, s2).
      if code = SSL_REQUEST_CODE then Inr (SslRequest, s2)
      else if code = CANCEL_REQUEST_CODE then
        and_then (read_u32 s2) (\<lambda>(pid, s3).
        and_then (read_u32 s3) (\<lambda>(secret, s4). Inr (CancelRequest pid secret, s4)))
      else if code = PROTOCOL_V3 then
        and_then (read_exact (total_len - 8) s2) (\<lambda>(buf, s3).
        and_then (parse_startup_params buf) (\<lambda>params. Inr (StartupMessage params, s3)))
      else Inl (Bad ''unknown startup code'')))"

fun encode_params :: "(string, string) hashmap \<Rightarrow> bytes" where
  "encode_params [] = []"
| "encode_params ((k, v) # ps) = k @ [NUL] @ v @ [NUL] @ encode_params ps"

definition encode_startup_message :: "(string, string) hashmap \<Rightarrow> bytes" where
  "encode_startup_message params =
    (let body = be_bytes 4 PROTOCOL_V3 @ encode_params params @ [NUL]
     in be_bytes 4 (4 + length body) @ body)"

subsection \<open>Regular messages\<close>

definition read_cstring_with_pos :: "bytes \<Rightarrow> nat \<Rightarrow> proto_error + string \<times> nat" where
  "read_cstring_with_pos buf offset =
    (if length buf < offset then Inl Panicked
     else (case split_once NUL (drop offset buf) of
        None \<Rightarrow> Inl (Bad (''missing null terminator at offset '' @ show_radix 10 offset))
      | Some (s, _) \<Rightarrow>
          if utf8_valid s then Inr (s, offset + length s + 1) else Inl (Bad ''string is not valid UTF-8'')))"

definition read_cstring :: "bytes \<Rightarrow> nat \<Rightarrow> proto_error + string" where
  "read_cstring buf offset = and_then (read_cstring_with_pos buf offset) (\<lambda>(s, _). Inr s)"

text \<open>\<open>buf.get(offset..offset + n)\<close>, read as an integer.\<close>

definition get_be :: "nat \<Rightarrow> bytes \<Rightarrow> nat \<Rightarrow> proto_error + nat" where
  "get_be n buf offset =
    (if length buf < offset + n then Inl (Bad ''read'') else Inr (from_be_bytes (take n (drop offset buf))))"

definition read_u16_be :: "bytes \<Rightarrow> nat \<Rightarrow> proto_error + nat" where
  "read_u16_be = get_be 2"

definition read_u32_be :: "bytes \<Rightarrow> nat \<Rightarrow> proto_error + nat" where
  "read_u32_be = get_be 4"

definition read_i32_be :: "bytes \<Rightarrow> nat \<Rightarrow> proto_error + int" where
  "read_i32_be buf offset =
    and_then (get_be 4 buf offset) (\<lambda>n. Inr (if n < 2 ^ 31 then int n else int n - 2 ^ 32))"

fun read_types :: "bytes \<Rightarrow> nat \<Rightarrow> nat \<Rightarrow> proto_error + nat list" where
  "read_types payload p 0 = Inr []"
| "read_types payload p (Suc n) =
    and_then (read_u32_be payload p) (\<lambda>t.
    and_then (read_types payload (p + 4) n) (\<lambda>ts. Inr (t # ts)))"

fun read_params :: "bytes \<Rightarrow> nat \<Rightarrow> nat \<Rightarrow> proto_error + bytes list" where
  "read_params payload p 0 = Inr []"
| "read_params payload p (Suc n) =
    and_then (read_i32_be payload p) (\<lambda>len.
      if len < 0 then and_then (read_params payload (p + 4) n) (\<lambda>ps. Inr ([] # ps))
      else
        let start = p + 4; end = start + nat len in
        if length payload < end then Inl Panicked
        else and_then (read_params payload end n)
          (\<lambda>ps. Inr (take (nat len) (drop start payload) # ps)))"

definition parse_parse :: "bytes \<Rightarrow> proto_error + frontend_message" where
  "parse_parse payload =
    and_then (read_cstring_with_pos payload 0) (\<lambda>(name, pos).
    and_then (read_cstring_with_pos payload pos) (\<lambda>(query, pos).
    and_then (read_u16_be payload pos) (\<lambda>count.
    and_then (read_types payload (pos + 2) count) (\<lambda>types. Inr (Parse name query types)))))"

definition parse_bind :: "bytes \<Rightarrow> proto_error + frontend_message" where
  "parse_bind payload =
    and_then (read_cstring_with_pos payload 0) (\<lambda>(portal, pos).
    and_then (read_cstring_with_pos payload pos) (\<lambda>(statement, pos).
    and_then (read_u16_be payload pos) (\<lambda>fmt_count.
    let p = pos + 2 + fmt_count * 2 in
    and_then (read_u16_be payload p) (\<lambda>param_count.
    and_then (read_params payload (p + 2) param_count) (\<lambda>params. Inr (Bind portal statement params))))))"

definition parse_kind_name :: "string \<Rightarrow> (char \<Rightarrow> string \<Rightarrow> frontend_message) \<Rightarrow> bytes \<Rightarrow> proto_error + frontend_message" where
  "parse_kind_name what mk payload =
    (case payload of
       [] \<Rightarrow> Inl (Bad (what @ '': empty payload''))
     | kind # _ \<Rightarrow> and_then (read_cstring payload 1) (\<lambda>name. Inr (mk kind name)))"

definition parse_frontend_message :: "char \<Rightarrow> bytes \<Rightarrow> proto_error + frontend_message" where
  "parse_frontend_message t payload =
    (if t = CHR ''Q'' then and_then (read_cstring payload 0) (\<lambda>sql. Inr (Query sql))
     else if t = CHR ''P'' then parse_parse payload
     else if t = CHR ''B'' then parse_bind payload
     else if t = CHR ''E'' then
       and_then (read_cstring_with_pos payload 0) (\<lambda>(portal, pos).
       and_then (read_i32_be payload pos) (\<lambda>max_rows. Inr (Execute portal max_rows)))
     else if t = CHR ''D'' then parse_kind_name ''Describe'' Describe payload
     else if t = CHR ''S'' then Inr SyncMsg
     else if t = CHR ''H'' then Inr FlushMsg
     else if t = CHR ''C'' then parse_kind_name ''Close'' CloseMsg payload
     else if t = CHR ''X'' then Inr Terminate
     else if t = CHR ''d'' then Inr (CopyData payload)
     else if t = CHR ''c'' then Inr CopyDone
     else if t = CHR ''f'' then and_then (read_cstring payload 0) (\<lambda>msg. Inr (CopyFail msg))
     else if t = CHR ''p'' then Inr (PasswordMessage payload)
     else Inl (Bad ''unknown frontend message type''))"

definition read_frontend_frame :: "bytes \<Rightarrow> proto_error + (frontend_message \<times> bytes) \<times> bytes" where
  "read_frontend_frame s =
    and_then (read_u8 s) (\<lambda>(msg_type, s1).
    and_then (read_u32 s1) (\<lambda>(len, s2).
    if len < 4 then Inl (Bad (''message length '' @ show_radix 10 len @ '' too small''))
    else and_then (read_exact (len - 4) s2) (\<lambda>(payload, s3).
      and_then (parse_frontend_message msg_type payload) (\<lambda>msg.
        Inr ((msg, msg_type # be_bytes 4 len @ payload), s3)))))"

definition read_frontend_message :: "bytes \<Rightarrow> proto_error + frontend_message \<times> bytes" where
  "read_frontend_message s = and_then (read_frontend_frame s) (\<lambda>((msg, _), rest). Inr (msg, rest))"

subsection \<open>Server messages\<close>

definition write_message :: "char \<Rightarrow> bytes \<Rightarrow> bytes" where
  "write_message msg_type body = msg_type # be_bytes 4 (4 + length body) @ body"

definition write_error_response :: "string \<Rightarrow> string \<Rightarrow> string \<Rightarrow> bytes" where
  "write_error_response severity code message =
    write_message (CHR ''E'') ([CHR ''S''] @ severity @ [NUL] @ [CHR ''C''] @ code @ [NUL]
      @ [CHR ''M''] @ message @ [NUL] @ [NUL])"

definition write_ready_for_query :: "char \<Rightarrow> bytes" where
  "write_ready_for_query txn_status = write_message (CHR ''Z'') [txn_status]"

subsection \<open>Piping a reply\<close>

text \<open>
  The scan of the bytes read so far: the status it reports, or how many bytes
  belong to messages that are complete.
\<close>

datatype scan_result = Found char | More nat

definition frame_length :: "bytes \<Rightarrow> nat" where
  "frame_length s = from_be_bytes (take 4 (drop 1 s))"

function scan :: "bytes \<Rightarrow> scan_result" where
  "scan s =
    (if length s < 5 then More 0
     else if hd s = CHR ''Z'' \<and> frame_length s = 5 \<and> 6 \<le> length s then Found (s ! 5)
     else if hd s = CHR ''G'' then Found (CHR ''T'')
     else if length s < 1 + frame_length s then More 0
     else (case scan (drop (1 + frame_length s) s) of
        Found b \<Rightarrow> Found b
      | More k \<Rightarrow> More (1 + frame_length s + k)))"
  by pat_completeness auto
termination by (relation "measure length") auto

declare scan.simps [simp del]

datatype pipe_result = Ready char | Closed

text \<open>Each element of the first list is what one read returned; the second
  component of the result is what was forwarded to the client.\<close>

fun pipe_until_ready_for_query :: "bytes list \<Rightarrow> bytes \<Rightarrow> bytes \<Rightarrow> pipe_result \<times> bytes" where
  "pipe_until_ready_for_query [] acc sent = (Closed, sent)"
| "pipe_until_ready_for_query (buf # reads) acc sent =
    (case scan (acc @ buf) of
       Found b \<Rightarrow> (Ready b, sent @ buf)
     | More last_complete \<Rightarrow>
         pipe_until_ready_for_query reads (drop last_complete (acc @ buf)) (sent @ buf))"

subsection \<open>TLS negotiation\<close>

definition SSL_REQUEST_BYTES :: bytes where
  "SSL_REQUEST_BYTES = map char_of [0, 0, 0, 8, 0x04, 0xd2, 0x16, 0x2f :: nat]"

datatype client_stream = PlainStream bytes | TlsStream bytes

text \<open>
  \<open>peeked\<close> is what one peek at the socket returned, at most eight bytes of the
  stream.  The handshake of the TLS library is a parameter: it fails or gives the
  decrypted bytes.  The second component is the reply to the client.
\<close>

definition handle_ssl_owned ::
  "bytes \<Rightarrow> bytes \<Rightarrow> (bytes \<Rightarrow> proto_error + bytes) option \<Rightarrow> proto_error + client_stream \<times> bytes" where
  "handle_ssl_owned peeked stream tls_acceptor =
    (if length peeked = 8 \<and> peeked = SSL_REQUEST_BYTES then
       and_then (read_exact 8 stream) (\<lambda>(_, rest).
         case tls_acceptor of
           Some accept \<Rightarrow> and_then (accept rest) (\<lambda>plain. Inr (TlsStream plain, ''S''))
         | None \<Rightarrow> Inr (PlainStream rest, ''N''))
     else Inr (PlainStream stream, []))"


section \<open>Lemmas\<close>

subsection \<open>Readers\<close>

lemma read_exact_append [simp]: "length a = n \<Longrightarrow> read_exact n (a @ r) = Inr (a, r)"
  by (simp add: read_exact_def)

lemma read_exact_Inr: "read_exact n s = Inr (a, r) \<longleftrightarrow> s = a @ r \<and> length a = n"
  by (auto simp: read_exact_def)

lemma read_u32_append [simp]: "n < 2 ^ 32 \<Longrightarrow> read_u32 (be_bytes 4 n @ r) = Inr (n, r)"
  by (simp add: read_u32_def from_be_bytes_be_bytes)

lemma read_u32_Inr: "read_u32 s = Inr (n, r) \<longleftrightarrow> (\<exists>b. s = b @ r \<and> length b = 4 \<and> n = from_be_bytes b)"
  by (auto simp: read_u32_def and_then_Inr read_exact_Inr)

lemma read_u8_Inr: "read_u8 s = Inr (c, r) \<longleftrightarrow> s = c # r"
  by (cases s) (auto simp: read_u8_def)

lemma be_bytes_4: "length b = 4 \<Longrightarrow> be_bytes 4 (from_be_bytes b) = b"
  using be_bytes_from_be_bytes [of b] by simp

lemma frame_raw:
  assumes "read_frontend_frame s = Inr ((msg, raw), rest)"
  shows "s = raw @ rest" "\<exists>payload. raw = hd raw # be_bytes 4 (4 + length payload) @ payload
    \<and> length payload < 2 ^ 32 - 4 \<and> parse_frontend_message (hd raw) payload = Inr msg"
proof -
  from assms obtain t b payload where s: "s = t # b @ payload @ rest" "length b = 4"
    and len: "4 \<le> from_be_bytes b" "length payload = from_be_bytes b - 4"
    and m: "parse_frontend_message t payload = Inr msg" "raw = t # be_bytes 4 (from_be_bytes b) @ payload"
    by (auto simp: read_frontend_frame_def and_then_Inr read_u8_Inr read_u32_Inr read_exact_Inr
        split: if_splits)
  show "s = raw @ rest" using s m be_bytes_4 by simp
  have "from_be_bytes b < 2 ^ 32" using from_be_bytes_bound [of b] s(2) by simp
  then show "\<exists>payload. raw = hd raw # be_bytes 4 (4 + length payload) @ payload
    \<and> length payload < 2 ^ 32 - 4 \<and> parse_frontend_message (hd raw) payload = Inr msg"
    using m len by (intro exI [of _ payload]) simp
qed

lemma read_frame_message:
  assumes "length body < 2 ^ 32 - 4"
  shows "read_frontend_frame (write_message t body @ rest)
    = and_then (parse_frontend_message t body) (\<lambda>msg. Inr ((msg, write_message t body), rest))"
  using assms by (simp add: read_frontend_frame_def write_message_def read_u8_def)

subsection \<open>Startup parameters\<close>

lemma split_byte_not_Nil [simp]: "split_byte c s \<noteq> []"
  by (cases s) (auto split: list.split)

lemma split_byte_append [simp]: "c \<notin> set a \<Longrightarrow> split_byte c (a @ c # s) = a # split_byte c s"
  by (induction a) auto

text \<open>Parameters a client can send: distinct names, none empty, and no NUL inside.\<close>

definition param_text :: "string \<Rightarrow> bool" where
  "param_text s \<longleftrightarrow> utf8_valid s \<and> NUL \<notin> set s"

definition startup_params_ok :: "(string, string) hashmap \<Rightarrow> bool" where
  "startup_params_ok params \<longleftrightarrow> hm_wf params
    \<and> list_all (\<lambda>(k, v). k \<noteq> [] \<and> param_text k \<and> param_text v) params"

lemma startup_pairs_encode:
  assumes "list_all (\<lambda>(k, v). k \<noteq> [] \<and> param_text k \<and> param_text v) ps" "distinct (map fst (acc @ ps))"
  shows "startup_pairs (split_byte NUL (encode_params ps @ [NUL])) acc = Inr (acc @ ps)"
  using assms
proof (induction ps arbitrary: acc)
  case (Cons p ps)
  obtain k v where p: "p = (k, v)" by force
  have new: "hm_insert k v acc = acc @ [(k, v)]"
    using Cons.prems p by (induction acc) auto
  show ?case using Cons.prems Cons.IH [of "acc @ [(k, v)]"] new p by (simp add: param_text_def)
qed simp

lemma parse_encode_params:
  "startup_params_ok params \<Longrightarrow> parse_startup_params (encode_params params @ [NUL]) = Inr params"
  using startup_pairs_encode [of params "[]"]
  by (simp add: startup_params_ok_def parse_startup_params_def hm_wf_def)

subsection \<open>Panics\<close>

lemma cstring_pos: "read_cstring_with_pos buf i = Inr (s, j) \<Longrightarrow> j \<le> length buf"
proof -
  have "split_once c xs = Some (a, b) \<Longrightarrow> length a < length xs" for c :: char and xs a b
    by (induction xs arbitrary: a b) (auto split: if_splits)
  from this [of NUL "drop i buf"] show "read_cstring_with_pos buf i = Inr (s, j) \<Longrightarrow> j \<le> length buf"
    by (fastforce simp: read_cstring_with_pos_def split: if_splits option.splits)
qed

lemma cstring_panics: "read_cstring_with_pos buf i = Inl Panicked \<longleftrightarrow> length buf < i"
  by (auto simp: read_cstring_with_pos_def split: option.split)

lemma and_then_panics:
  "and_then r f = Inl Panicked \<longleftrightarrow> r = Inl Panicked \<or> (\<exists>x. r = Inr x \<and> f x = Inl Panicked)"
  by (cases r) simp_all

lemma get_be_panics [simp]: "get_be n buf i \<noteq> Inl Panicked"
  by (simp add: get_be_def)

lemma read_types_panics [simp]: "read_types buf i n \<noteq> Inl Panicked"
  by (induction n arbitrary: i) (auto simp: and_then_panics read_u32_be_def)

lemma parse_parse_panics [simp]: "parse_parse payload \<noteq> Inl Panicked"
  by (auto simp: parse_parse_def and_then_panics cstring_panics read_u16_be_def dest: cstring_pos)

lemma parse_kind_name_panics [simp]: "parse_kind_name what mk payload \<noteq> Inl Panicked"
  by (auto simp: parse_kind_name_def read_cstring_def and_then_panics cstring_panics split: list.split)

subsection \<open>The scan of a reply\<close>

fun shifted :: "nat \<Rightarrow> scan_result \<Rightarrow> scan_result" where
  "shifted k (Found b) = Found b"
| "shifted k (More j) = More (k + j)"

lemma shifted_case: "(case r of Found b \<Rightarrow> Found b | More j \<Rightarrow> More (k + j)) = shifted k r"
  by (cases r) simp_all

lemma shifted_shifted [simp]: "shifted j (shifted k r) = shifted (j + k) r"
  by (cases r) simp_all

lemma shifted_0 [simp]: "shifted 0 r = r"
  by (cases r) simp_all

lemma shifted_simps:
  "shifted k r = Found b \<longleftrightarrow> r = Found b" "shifted k r = More n \<longleftrightarrow> (\<exists>j. r = More j \<and> n = k + j)"
  by (cases r; auto)+

lemma scan_short: "length s < 5 \<Longrightarrow> scan s = More 0"
  by (subst scan.simps) simp

lemma scan_step: "5 \<le> length s \<Longrightarrow> scan s =
    (if hd s = CHR ''Z'' \<and> frame_length s = 5 \<and> 6 \<le> length s then Found (s ! 5)
     else if hd s = CHR ''G'' then Found (CHR ''T'')
     else if length s < 1 + frame_length s then More 0
     else shifted (1 + frame_length s) (scan (drop (1 + frame_length s) s)))"
  by (subst scan.simps, unfold shifted_case) simp

lemma frame_length_append [simp]: "5 \<le> length s \<Longrightarrow> frame_length (s @ t) = frame_length s"
  by (simp add: frame_length_def)

lemma hd_append_long: "5 \<le> length s \<Longrightarrow> hd (s @ t) = hd s"
  by (cases s) simp_all

text \<open>Draining the complete messages loses nothing, and more bytes keep a status found.\<close>

lemma scan_append:
  "scan (s @ t) = (case scan s of Found b \<Rightarrow> Found b | More k \<Rightarrow> shifted k (scan (drop k s @ t)))"
proof (induction s rule: scan.induct)
  case (1 s)
  show ?case
  proof (cases "length s < 5")
    case True
    then show ?thesis by (simp add: scan_short)
  next
    case False
    then have long: "5 \<le> length s" "5 \<le> length (s @ t)" by simp_all
    let ?n = "1 + frame_length s"
    consider (ready) "hd s = CHR ''Z'' \<and> frame_length s = 5 \<and> 6 \<le> length s"
      | (copy) "\<not> (hd s = CHR ''Z'' \<and> frame_length s = 5 \<and> 6 \<le> length s)" "hd s = CHR ''G''"
      | (partial) "hd s \<noteq> CHR ''G''" "length s < ?n"
      | (whole) "\<not> (hd s = CHR ''Z'' \<and> frame_length s = 5 \<and> 6 \<le> length s)" "hd s \<noteq> CHR ''G''"
          "\<not> length s < ?n" by linarith
    then show ?thesis
    proof cases
      case ready
      then show ?thesis using long by (simp add: scan_step hd_append_long nth_append)
    next
      case copy
      then show ?thesis using long by (auto simp: scan_step hd_append_long)
    next
      case partial
      then have "scan s = More 0" using long by (simp add: scan_step)
      then show ?thesis by simp
    next
      case whole
      have IH: "scan (drop ?n s @ t)
          = (case scan (drop ?n s) of Found b \<Rightarrow> Found b | More k \<Rightarrow> shifted k (scan (drop k (drop ?n s) @ t)))"
        using "1.IH" False whole by blast
      have eqs: "scan s = shifted ?n (scan (drop ?n s))" "scan (s @ t) = shifted ?n (scan (drop ?n s @ t))"
        using long whole by (auto simp: scan_step hd_append_long)
      show ?thesis unfolding eqs IH by (cases "scan (drop ?n s)") (simp_all add: add.commute)
    qed
  qed
qed

lemma scan_drop: "scan s = More k \<Longrightarrow> scan (drop k s) = More 0"
  using scan_append [of s "[]"] by (cases "scan (drop k s)") simp_all

lemma scan_Nil [simp]: "scan [] = More 0"
  by (simp add: scan_short)

lemma pipe_scan:
  assumes "scan acc = More 0"
  shows "case scan (acc @ concat reads) of
      Found b \<Rightarrow> \<exists>n. pipe_until_ready_for_query reads acc sent = (Ready b, sent @ concat (take n reads))
        \<and> scan (acc @ concat (take n reads)) = Found b
    | More _ \<Rightarrow> pipe_until_ready_for_query reads acc sent = (Closed, sent @ concat reads)"
  using assms
proof (induction reads arbitrary: acc sent)
  case (Cons c cs)
  show ?case
  proof (cases "scan (acc @ c)")
    case (Found b)
    then have "scan (acc @ concat (c # cs)) = Found b" using scan_append [of "acc @ c" "concat cs"] by simp
    then show ?thesis using Found by (auto intro!: exI [of _ "Suc 0"])
  next
    case (More k)
    have eq: "scan ((acc @ c) @ x) = shifted k (scan (drop k (acc @ c) @ x))" for x
      using scan_append [of "acc @ c" x] More by simp
    have IH: "case scan (drop k (acc @ c) @ concat cs) of
      Found b \<Rightarrow> \<exists>n. pipe_until_ready_for_query cs (drop k (acc @ c)) (sent @ c) = (Ready b, (sent @ c) @ concat (take n cs))
        \<and> scan (drop k (acc @ c) @ concat (take n cs)) = Found b
    | More _ \<Rightarrow> pipe_until_ready_for_query cs (drop k (acc @ c)) (sent @ c) = (Closed, (sent @ c) @ concat cs)"
      by (rule Cons.IH [OF scan_drop [OF More]])
    show ?thesis
    proof (cases "scan (drop k (acc @ c) @ concat cs)")
      case (Found b)
      then obtain n where "pipe_until_ready_for_query cs (drop k (acc @ c)) (sent @ c) = (Ready b, (sent @ c) @ concat (take n cs))"
        "scan (drop k (acc @ c) @ concat (take n cs)) = Found b" using IH by auto
      then show ?thesis using More eq [of "concat cs"] eq [of "concat (take n cs)"] Found
        by (auto intro!: exI [of _ "Suc n"])
    next
      case (More j)
      then show ?thesis using IH eq [of "concat cs"] \<open>scan (acc @ c) = More k\<close> by simp
    qed
  qed
qed simp

subsection \<open>Replies\<close>

text \<open>A reply: messages that neither end it nor start a copy, and then \<open>ReadyForQuery\<close>.\<close>

definition reply_message :: "char \<times> bytes \<Rightarrow> bool" where
  "reply_message m \<longleftrightarrow> fst m \<notin> {CHR ''Z'', CHR ''G''} \<and> length (snd m) < 2 ^ 32 - 4"

fun encode_reply :: "(char \<times> bytes) list \<Rightarrow> char \<Rightarrow> bytes" where
  "encode_reply [] st = write_ready_for_query st"
| "encode_reply ((t, body) # ms) st = write_message t body @ encode_reply ms st"

lemma length_write_message [simp]: "length (write_message t body) = 5 + length body"
  by (simp add: write_message_def)

lemma hd_write_message [simp]: "hd (write_message t body) = t"
  by (simp add: write_message_def)

lemma frame_length_message [simp]:
  "length body < 2 ^ 32 - 4 \<Longrightarrow> frame_length (write_message t body) = 4 + length body"
  by (simp add: frame_length_def write_message_def from_be_bytes_be_bytes)

lemma scan_message:
  assumes "reply_message (t, body)"
  shows "scan (write_message t body @ r) = shifted (5 + length body) (scan r)"
proof -
  have "hd (write_message t body @ r) = t" by (simp add: write_message_def)
  then show ?thesis using assms by (simp add: scan_step reply_message_def)
qed

lemma scan_partial:
  assumes "reply_message (t, body)" "length p < 5 + length body" "write_message t body = p @ q"
  shows "scan p = More 0"
proof (cases "length p < 5")
  case False
  then have "frame_length p = 4 + length body" "hd p = t"
    using assms frame_length_message [of body t] frame_length_append [of p q] hd_append_long [of p q]
      hd_write_message [of t body]
    by (simp_all add: reply_message_def)
  then show ?thesis using assms False by (simp add: scan_step reply_message_def)
qed (rule scan_short)

lemma scan_ready: "scan (write_ready_for_query st) = Found st"
  by (simp add: scan_step write_ready_for_query_def)
    (simp add: write_message_def nth_append)

lemma scan_reply: "list_all reply_message ms \<Longrightarrow> scan (encode_reply ms st) = Found st"
proof (induction ms)
  case (Cons m ms)
  then show ?case by (cases m) (simp add: scan_message)
qed (simp add: scan_ready)

text \<open>No proper prefix of a reply is taken for the whole.\<close>

lemma scan_proper_prefix:
  "list_all reply_message ms \<Longrightarrow> encode_reply ms st = p @ q \<Longrightarrow> q \<noteq> [] \<Longrightarrow> \<exists>k. scan p = More k"
proof (induction ms arbitrary: p)
  case Nil
  have whole: "write_ready_for_query st = p @ q" using Nil by simp
  have "length (p @ q) = 6" unfolding whole [symmetric] by (simp add: write_ready_for_query_def)
  then have short: "length p \<le> 5" using Nil.prems(3) by (cases q) simp_all
  show ?case
  proof (cases "length p < 5")
    case False
    have "hd p = CHR ''Z''" "frame_length p = 5"
      using False whole hd_append_long [of p q] frame_length_append [of p q]
        frame_length_message [of "[st]" "CHR ''Z''"] hd_write_message [of "CHR ''Z''" "[st]"]
      by (simp_all add: write_ready_for_query_def)
    then show ?thesis using False short by (simp add: scan_step)
  qed (auto simp: scan_short)
next
  case (Cons m ms)
  obtain t body where m: "m = (t, body)" by force
  have split: "write_message t body @ encode_reply ms st = p @ q" using Cons.prems m by simp
  show ?case
  proof (cases "length p < 5 + length body")
    case True
    then obtain q' where "write_message t body = p @ q'"
      using split by (metis append_eq_append_conv_if length_write_message less_or_eq_imp_le append_take_drop_id)
    then show ?thesis using scan_partial [of t body p q'] True Cons.prems m by auto
  next
    case False
    define p' where "p' = drop (5 + length body) p"
    have "p = write_message t body @ p'" "encode_reply ms st = p' @ q"
      using split False unfolding p'_def
      by (auto simp: append_eq_append_conv_if split: if_splits)
    then show ?thesis using Cons m by (auto simp: scan_message shifted_simps)
  qed
qed



section \<open>Properties\<close>

text \<open>The bytes the proxy forwards for a client message are exactly the bytes it
  read: the frame reader consumes the frame it returns and nothing else, and the
  message it returns is the parse of that frame's payload.\<close>

theorem frame_forwards_read_bytes:
  assumes "read_frontend_frame s = Inr ((msg, raw), rest)"
  shows "s = raw @ rest \<and> (\<exists>payload. raw = write_message (hd raw) payload
    \<and> parse_frontend_message (hd raw) payload = Inr msg)"
  using frame_raw [OF assms] unfolding write_message_def by blast

theorem frame_forwards_read_bytes_witness:
  "\<exists>payload. write_message (CHR ''Q'') (''SELECT 1'' @ [NUL]) = write_message (CHR ''Q'') payload
    \<and> parse_frontend_message (CHR ''Q'') payload = Inr (Query ''SELECT 1'')"
proof -
  have "read_frontend_frame (write_message (CHR ''Q'') (''SELECT 1'' @ [NUL]) @ ''X'')
    = Inr ((Query ''SELECT 1'', write_message (CHR ''Q'') (''SELECT 1'' @ [NUL])), ''X'')" by code_simp
  from frame_forwards_read_bytes [OF this] show ?thesis by simp
qed

text \<open>The startup message the proxy writes to a backend reads back as the
  parameters it was made from, and nothing after it is consumed.\<close>

theorem startup_message_roundtrip:
  assumes "startup_params_ok params" "length (encode_startup_message params) < 2 ^ 32"
  shows "read_startup_message (encode_startup_message params @ rest) = Inr (StartupMessage params, rest)"
proof -
  let ?body = "encode_params params @ [NUL]"
  have len: "8 + length ?body < 2 ^ 32" using assms(2) by (simp add: encode_startup_message_def)
  have msg: "encode_startup_message params @ rest
      = be_bytes 4 (8 + length ?body) @ be_bytes 4 PROTOCOL_V3 @ ?body @ rest"
    by (simp add: encode_startup_message_def)
  have "read_u32 (be_bytes 4 PROTOCOL_V3 @ ?body @ rest) = Inr (PROTOCOL_V3, ?body @ rest)"
    by (rule read_u32_append) (simp add: PROTOCOL_V3_def)
  moreover have "read_exact (8 + length ?body - 8) (?body @ rest) = Inr (?body, rest)"
    by (rule read_exact_append) simp
  ultimately show ?thesis unfolding msg read_startup_message_def
    using parse_encode_params [OF assms(1)] read_u32_append [OF len]
    by (simp del: append_assoc add: PROTOCOL_V3_def SSL_REQUEST_CODE_def CANCEL_REQUEST_CODE_def)
qed

definition demo_params :: "(string, string) hashmap" where
  "demo_params = [(''user'', ''app''), (''database'', ''shop''), (''options'', [])]"

theorem startup_message_roundtrip_witness:
  "read_startup_message (encode_startup_message demo_params @ ''Q'') = Inr (StartupMessage demo_params, ''Q'')"
proof -
  have "startup_params_ok demo_params"
    by (simp add: startup_params_ok_def demo_params_def param_text_def hm_wf_def)
  moreover have "length (encode_startup_message demo_params) < 2 ^ 32"
    by (simp add: encode_startup_message_def demo_params_def)
  ultimately show ?thesis by (rule startup_message_roundtrip)
qed



text \<open>The status the proxy reports for a reply does not depend on how the
  network splits it into reads: it is the one a scan of all bytes finds.  What
  reached the client is then the reads up to the one that completed the status,
  unchanged, and all of them when none did.\<close>

theorem pipe_independent_of_reads:
  "case scan (concat reads) of
     Found b \<Rightarrow> \<exists>n. pipe_until_ready_for_query reads [] [] = (Ready b, concat (take n reads))
       \<and> scan (concat (take n reads)) = Found b
   | More _ \<Rightarrow> pipe_until_ready_for_query reads [] [] = (Closed, concat reads)"
  using pipe_scan [OF scan_Nil, of reads "[]"] unfolding append_Nil .

text \<open>C34.  However a backend's reply arrives, the client gets every byte of it, and
  the proxy stops at its \<open>ReadyForQuery\<close>, never before, with the status it carries.\<close>

theorem whole_reply_is_piped:
  assumes "list_all reply_message ms" "concat reads = encode_reply ms st"
  shows "pipe_until_ready_for_query reads [] [] = (Ready st, encode_reply ms st)"
proof -
  obtain n where n: "pipe_until_ready_for_query reads [] [] = (Ready st, concat (take n reads))"
    "scan (concat (take n reads)) = Found st"
    using pipe_scan [OF scan_Nil, of reads "[]"] scan_reply [OF assms(1), of st] assms(2) by auto
  have "encode_reply ms st = concat (take n reads) @ concat (drop n reads)"
    using assms(2) by (metis append_take_drop_id concat_append)
  then have "concat (drop n reads) = []" using scan_proper_prefix [OF assms(1)] n(2) by fastforce
  then have "concat (take n reads) = concat reads" by (metis append_Nil2 append_take_drop_id concat_append)
  then show ?thesis using n(1) assms(2) by simp
qed

theorem whole_reply_is_piped_witness:
  "pipe_until_ready_for_query (map (\<lambda>c. [c]) (encode_reply [(CHR ''C'', ''SELECT 1'')] (CHR ''I''))) [] []
    = (Ready (CHR ''I''), encode_reply [(CHR ''C'', ''SELECT 1'')] (CHR ''I''))"
  by (rule whole_reply_is_piped) (simp_all add: reply_message_def concat_map_singleton)

end
