(* ===== verification/Session_Router.thy ===== *)
theory Session_Router
  imports Topology Quorum_Lease Wire_Protocol
begin

text \<open>
  The routing state of one client (\<open>proxy/session.rs\<close>) and the choice of a backend
  from the local copy of the topology (\<open>proxy/router.rs\<close>).  The router reads the
  topology anew for each question, so each definition takes the topology that
  read returned.
\<close>

section \<open>Session\<close>

datatype txn_state = Idle | InTransaction | FailedTxn

record session_state =
  txn_state :: txn_state
  is_read_only :: bool
  s_database :: string
  s_user :: string
  s_application_name :: string
  set_vars :: "(string, string) hashmap"
  shard_key :: "string option"
  used_set :: bool
  pinned_backend :: "string option"

definition default_session :: session_state where
  "default_session = \<lparr>txn_state = Idle, is_read_only = False, s_database = [], s_user = [],
     s_application_name = [], set_vars = [], shard_key = None, used_set = False, pinned_backend = None\<rparr>"

definition update_from_ready_for_query :: "char \<Rightarrow> session_state \<Rightarrow> session_state" where
  "update_from_ready_for_query status_byte s =
    (if status_byte = CHR ''I'' then s\<lparr>txn_state := Idle, is_read_only := False, pinned_backend := None\<rparr>
     else if status_byte = CHR ''T'' then s\<lparr>txn_state := InTransaction\<rparr>
     else if status_byte = CHR ''E'' then s\<lparr>txn_state := FailedTxn\<rparr>
     else s\<lparr>txn_state := Idle, pinned_backend := None\<rparr>)"

definition needs_primary :: "session_state \<Rightarrow> bool" where
  "needs_primary s =
    (case txn_state s of Idle \<Rightarrow> False | InTransaction \<Rightarrow> \<not> is_read_only s | FailedTxn \<Rightarrow> True)"

datatype route_target = ToPrimary | ReplicaOrPrimary

fun route_intent :: "statement_intent \<Rightarrow> session_state \<Rightarrow> route_target \<times> session_state" where
  "route_intent WriteIntent s = (ToPrimary, s\<lparr>is_read_only := False\<rparr>)"
| "route_intent SetLocal s = (ToPrimary, s\<lparr>used_set := True\<rparr>)"
| "route_intent ReadIntent s =
    (if needs_primary s \<or> used_set s then (ToPrimary, s) else (ReplicaOrPrimary, s))"


section \<open>Router\<close>

record router =
  read_enabled :: bool
  max_replica_lag_bytes :: u64
  draining :: bool
  quorum :: "quorum_lease option"

definition new_router :: "bool \<Rightarrow> u64 \<Rightarrow> router" where
  "new_router enabled lag =
    \<lparr>read_enabled = enabled, max_replica_lag_bytes = lag, draining = False, quorum = None\<rparr>"

definition with_quorum :: "quorum_lease \<Rightarrow> router \<Rightarrow> router" where
  "with_quorum q r = r\<lparr>quorum := Some q\<rparr>"

definition has_quorum :: "nat \<Rightarrow> router \<Rightarrow> bool" where
  "has_quorum now r = (case quorum r of None \<Rightarrow> True | Some q \<Rightarrow> is_held now q)"

definition router_begin_drain :: "router \<Rightarrow> router" where
  "router_begin_drain r = r\<lparr>draining := True\<rparr>"

definition router_end_drain :: "router \<Rightarrow> router" where
  "router_end_drain r = r\<lparr>draining := False\<rparr>"

definition primary_addr :: "cluster_topology \<Rightarrow> string option" where
  "primary_addr topo = map_option postgres_addr (hm_get (node_configs topo) (primary_node_id topo))"

definition candidates :: "router \<Rightarrow> cluster_topology \<Rightarrow> (string \<times> node_config \<times> u64) list" where
  "candidates r topo =
    filter (\<lambda>(_, _, lag). lag \<le> max_replica_lag_bytes r)
      (List.map_filter (\<lambda>(nid, _). map_option (\<lambda>cfg. (nid, cfg, hm_get_or (replica_lag_bytes topo) nid 0))
          (hm_get (node_configs topo) nid))
        (filter (\<lambda>(_, role). role = Replica) (node_roles topo)))"

definition best_replica_addr :: "router \<Rightarrow> cluster_topology \<Rightarrow> (string \<times> string) option" where
  "best_replica_addr r topo =
    (case sort_key (\<lambda>(_, _, lag). lag) (candidates r topo) of
       [] \<Rightarrow> None
     | (nid, cfg, _) # _ \<Rightarrow> Some (nid, postgres_addr cfg))"

definition router_primary_node_id :: "cluster_topology \<Rightarrow> string option" where
  "router_primary_node_id topo = (if primary_node_id topo = [] then None else Some (primary_node_id topo))"

definition read_backend :: "router \<Rightarrow> cluster_topology \<Rightarrow> cluster_topology \<Rightarrow> (string \<times> string) option" where
  "read_backend r topo topo' =
    (case (if read_enabled r then best_replica_addr r topo else None) of
       Some b \<Rightarrow> Some b
     | None \<Rightarrow> map_option (\<lambda>c. (primary_node_id topo', postgres_addr c))
         (hm_get (node_configs topo') (primary_node_id topo')))"

fun zip_option :: "'a option \<Rightarrow> 'b option \<Rightarrow> ('a \<times> 'b) option" where
  "zip_option (Some a) (Some b) = Some (a, b)"
| "zip_option _ _ = None"

text \<open>The two reads of \<open>resolve_backend\<close>.\<close>

fun resolve_backend ::
  "router \<Rightarrow> cluster_topology \<Rightarrow> cluster_topology \<Rightarrow> route_target \<Rightarrow> (string \<times> string) option" where
  "resolve_backend r topo topo' ToPrimary = zip_option (router_primary_node_id topo) (primary_addr topo')"
| "resolve_backend r topo topo' ReplicaOrPrimary = read_backend r topo topo'"


section \<open>Lemmas\<close>

lemma zip_option_Some: "zip_option a b = Some (x, y) \<longleftrightarrow> a = Some x \<and> b = Some y"
  by (cases a; cases b) auto

lemma candidates_mem:
  "hm_wf (node_roles topo) \<Longrightarrow> (nid, cfg, lag) \<in> set (candidates r topo) \<longleftrightarrow>
    hm_get (node_roles topo) nid = Some Replica \<and> hm_get (node_configs topo) nid = Some cfg
    \<and> lag = hm_get_or (replica_lag_bytes topo) nid 0 \<and> lag \<le> max_replica_lag_bytes r"
  by (fastforce simp: candidates_def set_map_filter hm_wf_def)

lemma best_replica_mem:
  assumes "best_replica_addr r topo = Some (nid, addr)"
  shows "\<exists>cfg lag. (nid, cfg, lag) \<in> set (candidates r topo) \<and> addr = postgres_addr cfg
    \<and> (\<forall>(_, _, lag') \<in> set (candidates r topo). lag \<le> lag')"
proof -
  let ?s = "sort_key (\<lambda>(_, _, lag). lag) (candidates r topo)"
  obtain cfg lag rest where s: "?s = (nid, cfg, lag) # rest" "addr = postgres_addr cfg"
    using assms by (auto simp: best_replica_addr_def split: list.splits)
  have "sorted (map (\<lambda>(_, _, lag). lag) ?s)" by (rule sorted_sort_key)
  then have "\<forall>(_, _, lag') \<in> set ?s. lag \<le> lag'" unfolding s by auto
  then show ?thesis using s by (metis list.set_intros(1) set_sort)
qed

lemma best_replica_None: "best_replica_addr r topo = None \<longleftrightarrow> candidates r topo = []"
proof -
  have "length (sort_key (\<lambda>(_, _, lag). lag) (candidates r topo)) = length (candidates r topo)" by simp
  then show ?thesis unfolding best_replica_addr_def
    by (cases "sort_key (\<lambda>(_, _, lag). lag) (candidates r topo)") (auto split: prod.splits)
qed


section \<open>Properties\<close>

text \<open>A read goes to a replica with a recorded configuration whose lag is within
  the limit, and no eligible replica lags less; or to the recorded primary,
  when read routing is off or no replica is eligible.\<close>

theorem read_backend_choice:
  assumes "hm_wf (node_roles topo)" "read_backend r topo topo' = Some (nid, addr)"
  shows "(\<exists>cfg. read_enabled r \<and> hm_get (node_roles topo) nid = Some Replica
        \<and> hm_get (node_configs topo) nid = Some cfg \<and> addr = postgres_addr cfg
        \<and> hm_get_or (replica_lag_bytes topo) nid 0 \<le> max_replica_lag_bytes r
        \<and> (\<forall>n c. hm_get (node_roles topo) n = Some Replica \<longrightarrow> hm_get (node_configs topo) n = Some c \<longrightarrow>
            hm_get_or (replica_lag_bytes topo) nid 0 \<le> hm_get_or (replica_lag_bytes topo) n 0))
    \<or> nid = primary_node_id topo' \<and> primary_addr topo' = Some addr
        \<and> (read_enabled r \<longrightarrow> candidates r topo = [])"
proof (cases "read_enabled r \<and> candidates r topo \<noteq> []")
  case True
  then have "best_replica_addr r topo = Some (nid, addr)"
    using assms(2) best_replica_None [of r topo] by (auto simp: read_backend_def split: option.splits)
  then obtain cfg lag where c: "(nid, cfg, lag) \<in> set (candidates r topo)" "addr = postgres_addr cfg"
    and least: "\<forall>(_, _, lag') \<in> set (candidates r topo). lag \<le> lag'"
    using best_replica_mem by blast
  have "lag \<le> hm_get_or (replica_lag_bytes topo) n 0"
    if "hm_get (node_roles topo) n = Some Replica" "hm_get (node_configs topo) n = Some d" for n d
  proof (cases "hm_get_or (replica_lag_bytes topo) n 0 \<le> max_replica_lag_bytes r")
    case True
    then have "(n, d, hm_get_or (replica_lag_bytes topo) n 0) \<in> set (candidates r topo)"
      using that by (simp add: candidates_mem [OF assms(1)])
    then show ?thesis using least by auto
  next
    case False
    then show ?thesis using c(1) by (auto simp: candidates_mem [OF assms(1)])
  qed
  then show ?thesis using c True by (auto simp: candidates_mem [OF assms(1)])
next
  case False
  then show ?thesis using assms(2) best_replica_None [of r topo]
    by (auto simp: read_backend_def primary_addr_def split: if_splits)
qed

theorem read_backend_choice_witness:
  "let t = default_topology\<lparr>primary_node_id := ''a'', node_roles := [(''a'', Primary), (''b'', Replica), (''c'', Replica)],
         node_configs := map (\<lambda>n. (n, \<lparr>node_id = n, agent_addr = n, postgres_addr = n @ '':5432'', priority = 1, tags = []\<rparr>))
           [''a'', ''b'', ''c''],
         replica_lag_bytes := [(''b'', 70), (''c'', 40)]\<rparr>
   in read_backend (new_router True 100) t t = Some (''c'', ''c:5432'')
      \<and> hm_get_or (replica_lag_bytes t) ''c'' 0 \<le> hm_get_or (replica_lag_bytes t) ''b'' 0"
proof -
  let ?t = "default_topology\<lparr>primary_node_id := ''a'', node_roles := [(''a'', Primary), (''b'', Replica), (''c'', Replica)],
         node_configs := map (\<lambda>n. (n, \<lparr>node_id = n, agent_addr = n, postgres_addr = n @ '':5432'', priority = 1, tags = []\<rparr>))
           [''a'', ''b'', ''c''],
         replica_lag_bytes := [(''b'', 70), (''c'', 40)]\<rparr>"
  have wf: "hm_wf (node_roles ?t)" by (simp add: hm_wf_def)
  have run: "read_backend (new_router True 100) ?t ?t = Some (''c'', ''c:5432'')" by code_simp
  have b: "hm_get (node_roles ?t) ''b'' = Some Replica"
    "hm_get (node_configs ?t) ''b'' = Some \<lparr>node_id = ''b'', agent_addr = ''b'', postgres_addr = ''b'' @ '':5432'', priority = 1, tags = []\<rparr>"
    "primary_node_id ?t = ''a''"
    by simp_all
  show ?thesis using read_backend_choice [OF wf run] run b unfolding Let_def by fastforce
qed

end
