(* ===== verification/Scram.thy ===== *)
theory Scram
  imports Wire_Protocol
begin

text \<open>
  SCRAM-SHA-256 on both sides of the proxy (\<open>proxy/scram.rs\<close>).  HMAC, SHA-256 and
  base64 are the fields of a \<open>crypto\<close> parameter; \<open>crypto_ok\<close> says what is
  documented of them: 32-byte results, and an encoding without separators that
  decodes to what was encoded.  The random nonces are arguments.

  The peer of a login is a function from the messages sent to it so far to the
  bytes it answers with; a peer that breaks the connection answers nothing, and
  the next read fails.
\<close>

unbundle bit_operations_syntax

section \<open>Keys\<close>

record crypto =
  hmac :: "bytes \<Rightarrow> bytes \<Rightarrow> bytes"
  sha256 :: "bytes \<Rightarrow> bytes"
  b64_encode :: "bytes \<Rightarrow> string"
  b64_decode :: "string \<Rightarrow> bytes option"

definition MECHANISM :: string where "MECHANISM = ''SCRAM-SHA-256''"
definition MAX_FRAME :: nat where "MAX_FRAME = 1024 * 1024"
definition AUTH_OK :: nat where "AUTH_OK = 0"
definition AUTH_SASL :: nat where "AUTH_SASL = 10"
definition AUTH_SASL_CONTINUE :: nat where "AUTH_SASL_CONTINUE = 11"
definition AUTH_SASL_FINAL :: nat where "AUTH_SASL_FINAL = 12"

definition xor_byte :: "char \<Rightarrow> char \<Rightarrow> char" where
  "xor_byte x y = char_of ((of_char x :: nat) XOR of_char y)"

definition xor :: "bytes \<Rightarrow> bytes \<Rightarrow> bytes" where
  "xor a b = map2 xor_byte a b"

definition keys_equal :: "bytes \<Rightarrow> bytes \<Rightarrow> bool" where
  "keys_equal a b \<longleftrightarrow> fold (\<lambda>(x, y) d. d OR ((of_char x :: nat) XOR of_char y)) (zip a b) 0 = 0"

definition key_from_base64 :: "crypto \<Rightarrow> string \<Rightarrow> string + bytes" where
  "key_from_base64 c t =
    (case b64_decode c t of
       None \<Rightarrow> Inl ''decode key''
     | Some b \<Rightarrow> if length b = 32 then Inr b else Inl ''a SCRAM key must be 32 bytes'')"

fun hi_loop :: "crypto \<Rightarrow> string \<Rightarrow> nat \<Rightarrow> bytes \<Rightarrow> bytes \<Rightarrow> bytes" where
  "hi_loop c password 0 u out = out"
| "hi_loop c password (Suc n) u out =
    (let u' = hmac c password u in hi_loop c password n u' (xor out u'))"

definition salted_password :: "crypto \<Rightarrow> string \<Rightarrow> bytes \<Rightarrow> nat \<Rightarrow> bytes" where
  "salted_password c password salt iterations =
    (let u = hmac c password (salt @ be_bytes 4 1) in hi_loop c password (iterations - 1) u u)"


section \<open>Verifiers\<close>

record verifier =
  iterations :: nat
  salt :: bytes
  stored_key :: bytes
  server_key :: bytes

record credentials =
  client_key :: bytes
  cred_verifier :: verifier

definition make_verifier :: "crypto \<Rightarrow> string \<Rightarrow> bytes \<Rightarrow> nat \<Rightarrow> string" where
  "make_verifier c password sl its =
    (let salted = salted_password c password sl its;
         stored = sha256 c (hmac c salted ''Client Key'');
         server = hmac c salted ''Server Key''
     in ''SCRAM-SHA-256$'' @ show_radix 10 its @ '':'' @ b64_encode c sl @ ''$''
          @ b64_encode c stored @ '':'' @ b64_encode c server)"

definition ok_opt :: "'e + 'a \<Rightarrow> 'a option" where
  "ok_opt r = (case r of Inr x \<Rightarrow> Some x | Inl _ \<Rightarrow> None)"

definition parse_verifier :: "crypto \<Rightarrow> string \<Rightarrow> verifier option" where
  "parse_verifier c stored =
    Option.bind (strip_prefix ''SCRAM-SHA-256$'' stored) (\<lambda>rest.
    Option.bind (split_once (CHR ''$'') rest) (\<lambda>(params, ks).
    Option.bind (split_once (CHR '':'') params) (\<lambda>(its, sl).
    Option.bind (split_once (CHR '':'') ks) (\<lambda>(stored, server).
    Option.bind (from_str_radix 10 (2 ^ 32) its) (\<lambda>i.
    Option.bind (b64_decode c sl) (\<lambda>s.
    Option.bind (ok_opt (key_from_base64 c stored)) (\<lambda>k.
    Option.bind (ok_opt (key_from_base64 c server)) (\<lambda>v.
      Some \<lparr>iterations = i, salt = s, stored_key = k, server_key = v\<rparr>))))))))"

definition mock :: "crypto \<Rightarrow> string \<Rightarrow> bytes \<Rightarrow> verifier" where
  "mock c role secret =
    \<lparr>iterations = 4096, salt = take 16 (hmac c secret role),
     stored_key = hmac c secret ''stored'', server_key = hmac c secret ''server''\<rparr>"


section \<open>Frames\<close>

definition read_frame :: "bytes \<Rightarrow> string + (char \<times> bytes) \<times> bytes" where
  "read_frame s =
    map_err (\<lambda>_. ''read message'')
     (and_then (read_u8 s) (\<lambda>(kind, s1).
      and_then (read_u32 s1) (\<lambda>(len, s2).
      if len < 4 \<or> MAX_FRAME < len then Inl (Bad (''bad message length '' @ show_radix 10 len))
      else and_then (read_exact (len - 4) s2) (\<lambda>(body, s3). Inr ((kind, body), s3)))))"

definition encode_frame :: "char \<Rightarrow> bytes \<Rightarrow> bytes" where
  "encode_frame kind body = kind # be_bytes 4 (length body + 4) @ body"

definition auth_message :: "nat \<Rightarrow> bytes \<Rightarrow> bytes" where
  "auth_message code data = be_bytes 4 code @ data"

fun find_map :: "('a \<Rightarrow> 'b option) \<Rightarrow> 'a list \<Rightarrow> 'b option" where
  "find_map f [] = None"
| "find_map f (x # xs) = (case f x of Some y \<Rightarrow> Some y | None \<Rightarrow> find_map f xs)"

definition attribute :: "string \<Rightarrow> char \<Rightarrow> string option" where
  "attribute message key =
    find_map (\<lambda>part. Option.bind (strip_prefix [key] part) (strip_prefix ''='')) (split_byte (CHR '','') message)"

text \<open>\<open>rsplit_once\<close> with a pattern of several characters.\<close>

fun rsplit_str :: "string \<Rightarrow> string \<Rightarrow> (string \<times> string) option" where
  "rsplit_str p [] = (if p = [] then Some ([], []) else None)"
| "rsplit_str p (c # s) =
    (case rsplit_str p s of
       Some (a, b) \<Rightarrow> Some (c # a, b)
     | None \<Rightarrow> map_option (\<lambda>r. ([], r)) (strip_prefix p (c # s)))"


section \<open>The client's login\<close>

datatype client_auth_error = Rejected | Protocol string

definition parse_initial_response :: "bytes \<Rightarrow> string + string \<times> string" where
  "parse_initial_response body =
    (case split_once NUL body of
       None \<Rightarrow> Inl ''SASLInitialResponse has no mechanism''
     | Some (mechanism, _) \<Rightarrow>
         if \<not> utf8_valid mechanism then Inl ''mechanism is not UTF-8''
         else if mechanism \<noteq> MECHANISM then Inl (''unsupported mechanism '' @ mechanism)
         else if length body < length mechanism + 5 then Inl ''SASLInitialResponse is truncated''
         else
           let client_first = drop (length mechanism + 5) body in
           if \<not> utf8_valid client_first then Inl ''client-first-message is not UTF-8''
           else (case split_once (CHR '','') client_first of
              None \<Rightarrow> Inl ''unsupported GS2 header''
            | Some (flag, r) \<Rightarrow>
                (case split_once (CHR '','') r of
                   None \<Rightarrow> Inl ''unsupported GS2 header''
                 | Some (authzid, _) \<Rightarrow>
                     if flag = ''n'' \<or> flag = ''y'' then Inr (client_first, flag @ '','' @ authzid @ '','')
                     else Inl ''unsupported GS2 header'')))"

definition server_first_message :: "crypto \<Rightarrow> verifier \<Rightarrow> string \<Rightarrow> string" where
  "server_first_message c v combined =
    ''r='' @ combined @ '',s='' @ b64_encode c (salt v) @ '',i='' @ show_radix 10 (iterations v)"

definition auth_text :: "string \<Rightarrow> string \<Rightarrow> string \<Rightarrow> string" where
  "auth_text first_bare server_first without_proof = first_bare @ '','' @ server_first @ '','' @ without_proof"

text \<open>The checks of the client's final message: the client key it reveals, and the signed text.\<close>

definition check_final ::
  "crypto \<Rightarrow> verifier \<Rightarrow> string \<Rightarrow> string \<Rightarrow> string \<Rightarrow> bytes \<Rightarrow> client_auth_error + bytes \<times> string" where
  "check_final c v gs2 first_bare combined body =
    (if \<not> utf8_valid body then Inl (Protocol ''client-final-message is not UTF-8'')
     else case rsplit_str '',p='' body of
       None \<Rightarrow> Inl (Protocol ''client-final-message has no proof'')
     | Some (without_proof, proof) \<Rightarrow>
         if attribute without_proof (CHR ''r'') \<noteq> Some combined
         then Inl (Protocol ''client-final-message has the wrong nonce'')
         else if attribute without_proof (CHR ''c'') \<noteq> Some (b64_encode c gs2)
         then Inl (Protocol ''channel binding does not match the GS2 header'')
         else
           let auth = auth_text first_bare (server_first_message c v combined) without_proof in
           and_then (map_err Protocol (key_from_base64 c proof)) (\<lambda>proof_key.
             let key = xor proof_key (hmac c (stored_key v) auth) in
             if keys_equal (sha256 c key) (stored_key v) then Inr (key, auth) else Inl Rejected))"

definition authenticate_client ::
  "crypto \<Rightarrow> verifier \<Rightarrow> string \<Rightarrow> (bytes list \<Rightarrow> bytes)
    \<Rightarrow> (client_auth_error + credentials) \<times> bytes list" where
  "authenticate_client c v nonce client =
    (let m1 = write_message (CHR ''R'') (auth_message AUTH_SASL (MECHANISM @ [NUL, NUL])) in
     case read_frame (client [m1]) of
       Inl e \<Rightarrow> (Inl (Protocol e), [m1])
     | Inr ((kind, body), rest) \<Rightarrow>
         if kind \<noteq> CHR ''p'' then (Inl (Protocol ''expected SASLInitialResponse''), [m1])
         else case parse_initial_response body of
           Inl e \<Rightarrow> (Inl (Protocol e), [m1])
         | Inr (client_first, gs2) \<Rightarrow>
     (case strip_prefix gs2 client_first of
       None \<Rightarrow> (Inl (Protocol ''malformed client-first-message''), [m1])
     | Some first_bare \<Rightarrow>
     (case attribute first_bare (CHR ''r'') of
       None \<Rightarrow> (Inl (Protocol ''client-first-message has no nonce''), [m1])
     | Some client_nonce \<Rightarrow>
         let combined = client_nonce @ nonce;
             m2 = write_message (CHR ''R'') (auth_message AUTH_SASL_CONTINUE (server_first_message c v combined))
         in case read_frame (rest @ client [m1, m2]) of
           Inl e \<Rightarrow> (Inl (Protocol e), [m1, m2])
         | Inr ((kind, body), _) \<Rightarrow>
             if kind \<noteq> CHR ''p'' then (Inl (Protocol ''expected SASLResponse''), [m1, m2])
             else case check_final c v gs2 first_bare combined body of
               Inl e \<Rightarrow> (Inl e, [m1, m2])
             | Inr (key, auth) \<Rightarrow>
                 (Inr \<lparr>client_key = key, cred_verifier = v\<rparr>,
                  [m1, m2,
                   write_message (CHR ''R'') (auth_message AUTH_SASL_FINAL
                     (''v='' @ b64_encode c (hmac c (server_key v) auth))),
                   write_message (CHR ''R'') (be_bytes 4 AUTH_OK)]))))"


section \<open>The login to a backend\<close>

datatype backend_login_error = Refused bytes | LoginFailed string

definition check_same_verifier :: "crypto \<Rightarrow> string \<Rightarrow> verifier \<Rightarrow> string + unit" where
  "check_same_verifier c server_first v =
    (case attribute server_first (CHR ''s'') of
       None \<Rightarrow> Inl ''server-first has no salt''
     | Some sl \<Rightarrow>
         (case attribute server_first (CHR ''i'') of
            None \<Rightarrow> Inl ''server-first has no iterations''
          | Some its \<Rightarrow>
              if b64_decode c sl \<noteq> Some (salt v) \<or> from_str_radix 10 (2 ^ 32) its \<noteq> Some (iterations v)
              then Inl ''the role's password changed'' else Inr ()))"

text \<open>
  \<open>String::from_utf8_lossy\<close> changes only bytes that are not UTF-8; a part equal to
  the mechanism name is one of the parts before the change.
\<close>

definition sasl_response :: "string \<Rightarrow> bytes \<Rightarrow> string + bytes" where
  "sasl_response first_bare data =
    (if MECHANISM \<notin> set (split_byte NUL data) then Inl (''backend does not offer '' @ MECHANISM)
     else Inr (MECHANISM @ [NUL] @ be_bytes 4 (length (''n,,'' @ first_bare)) @ ''n,,'' @ first_bare))"

definition continue_response ::
  "crypto \<Rightarrow> credentials \<Rightarrow> string \<Rightarrow> bytes \<Rightarrow> string + string \<times> bytes" where
  "continue_response c cred client_nonce data =
    (if \<not> utf8_valid data then Inl ''server-first not UTF-8''
     else case attribute data (CHR ''r'') of
       None \<Rightarrow> Inl ''backend sent the wrong nonce''
     | Some server_nonce \<Rightarrow>
         if \<not> starts_with client_nonce server_nonce then Inl ''backend sent the wrong nonce''
         else and_then (check_same_verifier c data (cred_verifier cred)) (\<lambda>_.
           let without_proof = ''c=biws,r='' @ server_nonce;
               auth = auth_text (''n=,r='' @ client_nonce) data without_proof;
               signature = hmac c (stored_key (cred_verifier cred)) auth
           in Inr (auth, without_proof @ '',p='' @ b64_encode c (xor (client_key cred) signature))))"

definition check_server_final :: "crypto \<Rightarrow> verifier \<Rightarrow> string \<Rightarrow> bytes \<Rightarrow> string + unit" where
  "check_server_final c v auth data =
    (if \<not> utf8_valid data then Inl ''server-final not UTF-8''
     else case attribute data (CHR ''v'') of
       None \<Rightarrow> Inl ''backend sent no server signature''
     | Some t \<Rightarrow> and_then (key_from_base64 c t) (\<lambda>signature.
         if keys_equal signature (hmac c (server_key v) auth) then Inr ()
         else Inl ''backend failed to prove it knows the role''))"

text \<open>The loop up to \<open>AuthenticationOk\<close>: the bytes still unread when it ends.  Each
  message read takes a unit of fuel.\<close>

fun login_loop ::
  "nat \<Rightarrow> crypto \<Rightarrow> credentials \<Rightarrow> string \<Rightarrow> (bytes list \<Rightarrow> bytes) \<Rightarrow> bytes list \<Rightarrow> string \<Rightarrow> bytes
    \<Rightarrow> (backend_login_error + bytes) option" where
  "login_loop 0 c cred nonce backend sent auth unread = None"
| "login_loop (Suc fuel) c cred nonce backend sent auth unread =
    (case read_frame unread of
       Inl e \<Rightarrow> Some (Inl (LoginFailed e))
     | Inr ((kind, body), rest) \<Rightarrow>
         if kind = CHR ''E'' then Some (Inl (Refused (encode_frame kind body)))
         else if kind \<noteq> CHR ''R'' then Some (Inl (LoginFailed ''unexpected message in login''))
         else if length body < 4 then Some (Inl (LoginFailed ''authentication message is too short''))
         else
           let code = from_be_bytes (take 4 body); data = drop 4 body in
           if code = AUTH_OK then Some (Inr rest)
           else if code = AUTH_SASL then
             (case sasl_response (''n=,r='' @ nonce) data of
                Inl e \<Rightarrow> Some (Inl (LoginFailed e))
              | Inr response \<Rightarrow>
                  let sent' = sent @ [write_message (CHR ''p'') response]
                  in login_loop fuel c cred nonce backend sent' auth (rest @ backend sent'))
           else if code = AUTH_SASL_CONTINUE then
             (case continue_response c cred nonce data of
                Inl e \<Rightarrow> Some (Inl (LoginFailed e))
              | Inr (auth', response) \<Rightarrow>
                  let sent' = sent @ [write_message (CHR ''p'') response]
                  in login_loop fuel c cred nonce backend sent' auth' (rest @ backend sent'))
           else if code = AUTH_SASL_FINAL then
             (case check_server_final c (cred_verifier cred) auth data of
                Inl e \<Rightarrow> Some (Inl (LoginFailed e))
              | Inr _ \<Rightarrow> login_loop fuel c cred nonce backend sent auth rest)
           else Some (Inl (LoginFailed ''backend asked for another auth method, and the proxy needs SCRAM'')))"

lemma read_frame_shorter: "read_frame s = Inr (f, rest) \<Longrightarrow> length rest < length s"
  by (cases f) (auto simp: read_frame_def and_then_Inr read_u8_Inr read_u32_Inr read_exact_Inr split: if_splits)

text \<open>What the backend sends after it, through \<open>ReadyForQuery\<close>.\<close>

function read_rest :: "bytes \<Rightarrow> bytes \<Rightarrow> backend_login_error + bytes" where
  "read_rest unread acc =
    (case read_frame unread of
       Inl e \<Rightarrow> Inl (LoginFailed e)
     | Inr ((kind, body), rest) \<Rightarrow>
         if kind = CHR ''E'' then Inl (Refused (encode_frame kind body))
         else if kind = CHR ''Z'' then Inr (acc @ encode_frame kind body)
         else read_rest rest (acc @ encode_frame kind body))"
  by pat_completeness auto
termination by (relation "measure (\<lambda>(u, _). length u)") (auto dest: read_frame_shorter)

declare read_rest.simps [simp del]

definition login_to_backend ::
  "nat \<Rightarrow> crypto \<Rightarrow> credentials \<Rightarrow> string \<Rightarrow> bytes \<Rightarrow> (bytes list \<Rightarrow> bytes)
    \<Rightarrow> (backend_login_error + bytes) option" where
  "login_to_backend fuel c cred nonce startup backend =
    map_option (\<lambda>r. and_then r (\<lambda>unread. read_rest unread []))
      (login_loop fuel c cred nonce backend [startup] [] (backend [startup]))"



section \<open>Lemmas\<close>

subsection \<open>Keys\<close>

lemma xor_nat_bound: "(m :: nat) < 256 \<Longrightarrow> n < 256 \<Longrightarrow> m XOR n < 256"
proof -
  have "take_bit 8 k = k \<longleftrightarrow> k < 256" for k :: nat using take_bit_nat_eq_self_iff [of 8 k] by simp
  then show "m < 256 \<Longrightarrow> n < 256 \<Longrightarrow> m XOR n < 256" using take_bit_xor [of 8 m n] by metis
qed

lemma of_char_bound: "(of_char x :: nat) < 256"
  using of_char_mod_256 [of x, where 'a = nat] by (metis mod_less_divisor zero_less_numeral)

lemma of_xor_byte: "(of_char (xor_byte x y) :: nat) = of_char x XOR of_char y"
  unfolding xor_byte_def of_char_of by (simp add: xor_nat_bound of_char_bound)

lemma xor_byte_cancel [simp]: "xor_byte (xor_byte x y) y = x"
proof -
  have "((m :: nat) XOR n) XOR n = m" for m n by (auto simp: bit_eq_iff bit_simps)
  then have "(of_char (xor_byte (xor_byte x y) y) :: nat) = of_char x" by (simp add: of_xor_byte)
  then show ?thesis by (simp add: of_char_eq_iff)
qed

lemma xor_cancel: "length a = length b \<Longrightarrow> xor (xor a b) b = a"
  by (induction a b rule: list_induct2) (simp_all add: xor_def)

lemma length_xor [simp]: "length (xor a b) = min (length a) (length b)"
  by (simp add: xor_def)

lemma xor_nat_0: "(m :: nat) XOR n = 0 \<longleftrightarrow> m = n"
  by (auto simp: bit_eq_iff bit_simps)

lemma or_fold_0: "fold (\<lambda>(x, y) d. d OR ((of_char x :: nat) XOR of_char y)) ps d = 0
    \<longleftrightarrow> d = 0 \<and> (\<forall>(x, y) \<in> set ps. x = y)"
  by (induction ps arbitrary: d) (auto simp: or_eq_0_iff xor_nat_0 of_char_eq_iff)

text \<open>The constant-time comparison decides equality of keys of one length.\<close>

lemma keys_equal_iff: "length a = length b \<Longrightarrow> keys_equal a b \<longleftrightarrow> a = b"
  unfolding keys_equal_def or_fold_0 by (induction a b rule: list_induct2) auto

subsection \<open>Messages\<close>

lemma utf8_ascii: "\<forall>x \<in> set s. of_char x < (128 :: nat) \<Longrightarrow> utf8_valid s"
  by (induction s) simp_all

lemma split_byte_none: "c \<notin> set s \<Longrightarrow> split_byte c s = [s]"
  by (induction s) auto

lemma strip_prefix_append [simp]: "strip_prefix p (p @ r) = Some r"
  by (simp add: strip_prefix_def)

lemma rsplit_str_absent: "h \<notin> set s \<Longrightarrow> rsplit_str (h # p) s = None"
  by (induction s) (auto simp: strip_prefix_def)

lemma strip_prefix_absent: "h \<notin> set s \<Longrightarrow> strip_prefix (h # p) s = None"
  by (cases s) (auto simp: strip_prefix_def)

lemma rsplit_str_append:
  assumes "h \<notin> set p" "h \<notin> set b"
  shows "rsplit_str (h # p) (a @ (h # p) @ b) = Some (a, b)"
proof (induction a)
  case Nil
  have "rsplit_str (h # p) (p @ b) = None" by (rule rsplit_str_absent) (use assms in simp)
  then show ?case using strip_prefix_append [of "h # p" b] by simp
next
  case (Cons x a)
  then show ?case by simp
qed

lemma attribute_first: "k \<noteq> CHR '','' \<Longrightarrow> CHR '','' \<notin> set a \<Longrightarrow> attribute ([k] @ ''='' @ a @ CHR '','' # s) k = Some a"
  "k \<noteq> CHR '','' \<Longrightarrow> CHR '','' \<notin> set a \<Longrightarrow> attribute ([k] @ ''='' @ a) k = Some a"
  using split_byte_append [of "CHR '',''" "k # ''='' @ a" s] split_byte_none [of "CHR '',''" "k # ''='' @ a"]
  by (simp_all add: attribute_def strip_prefix_def)

lemma attribute_skip:
  "CHR '','' \<notin> set a \<Longrightarrow> k \<noteq> j \<Longrightarrow> j \<noteq> CHR '','' \<Longrightarrow> attribute ([j] @ ''='' @ a @ CHR '','' # s) k = attribute s k"
  using split_byte_append [of "CHR '',''" "j # ''='' @ a" s]
  by (simp add: attribute_def strip_prefix_def)

subsection \<open>The parameters\<close>

text \<open>Characters that separate neither the parts of a message nor those of a verifier.\<close>

definition plain_text :: "string \<Rightarrow> bool" where
  "plain_text s \<longleftrightarrow> (\<forall>x \<in> set s. of_char x < (128 :: nat) \<and> x \<noteq> CHR '','' \<and> x \<noteq> CHR ''$'' \<and> x \<noteq> CHR '':''
    \<and> x \<noteq> NUL)"

definition crypto_ok :: "crypto \<Rightarrow> bool" where
  "crypto_ok c \<longleftrightarrow> (\<forall>k m. length (hmac c k m) = 32) \<and> (\<forall>m. length (sha256 c m) = 32)
    \<and> (\<forall>b. b64_decode c (b64_encode c b) = Some b) \<and> (\<forall>b. plain_text (b64_encode c b))
    \<and> (\<forall>b. length (b64_encode c b) \<le> 4 * length b) \<and> b64_encode c ''n,,'' = ''biws''"

lemma crypto_okD:
  assumes "crypto_ok c"
  shows "length (hmac c k m) = 32" "length (sha256 c m) = 32" "b64_decode c (b64_encode c b) = Some b"
    "plain_text (b64_encode c b)" "length (b64_encode c b) \<le> 4 * length b" "b64_encode c ''n,,'' = ''biws''"
  using assms by (simp_all add: crypto_ok_def)

lemma plain_textD:
  assumes "plain_text s"
  shows "CHR '','' \<notin> set s" "CHR ''$'' \<notin> set s" "CHR '':'' \<notin> set s" "NUL \<notin> set s" "\<forall>x \<in> set s. of_char x < (128 :: nat)"
  using assms by (auto simp: plain_text_def)

lemma plain_text_append [simp]: "plain_text (a @ b) \<longleftrightarrow> plain_text a \<and> plain_text b"
  by (auto simp: plain_text_def)

lemma alnum_plain: "\<forall>x \<in> set s. is_ascii_alphanumeric x \<Longrightarrow> plain_text s"
  by (auto simp: plain_text_def is_ascii_alphanumeric_def is_ascii_digit_def is_ascii_lowercase_def
      is_ascii_uppercase_def less_eq_char_def)

lemma plain_text_number: "plain_text (show_radix 10 n)"
  using show_radix_alnum [of 10 _ n] by (intro alnum_plain) auto

lemma key_decode:
  "crypto_ok c \<Longrightarrow> length k = 32 \<Longrightarrow> key_from_base64 c (b64_encode c k) = Inr k"
  by (simp add: key_from_base64_def crypto_okD)

lemma length_hi_loop: "length u = 32 \<Longrightarrow> length out = 32 \<Longrightarrow> crypto_ok c \<Longrightarrow> length (hi_loop c p n u out) = 32"
  by (induction n arbitrary: u out) (simp_all add: Let_def crypto_okD)

subsection \<open>Both sides together\<close>

lemma read_login_message: "length body + 4 \<le> MAX_FRAME \<Longrightarrow> read_frame (write_message k body @ r) = Inr ((k, body), r)"
  by (simp add: read_frame_def write_message_def read_u8_def MAX_FRAME_def)

lemma encode_frame_message: "encode_frame k body = write_message k body"
  by (simp add: encode_frame_def write_message_def add.commute)

text \<open>The text both sides sign, and the final message of a client that holds the key \<open>ck\<close>.\<close>

definition login_without_proof :: "string \<Rightarrow> string" where
  "login_without_proof combined = ''c=biws,r='' @ combined"

definition login_text :: "crypto \<Rightarrow> verifier \<Rightarrow> string \<Rightarrow> string \<Rightarrow> string" where
  "login_text c v cn combined =
    auth_text (''n=,r='' @ cn) (server_first_message c v combined) (login_without_proof combined)"

definition final_message :: "crypto \<Rightarrow> verifier \<Rightarrow> bytes \<Rightarrow> string \<Rightarrow> string \<Rightarrow> string" where
  "final_message c v ck cn combined = login_without_proof combined @ '',p=''
     @ b64_encode c (xor ck (hmac c (stored_key v) (login_text c v cn combined)))"

lemma attribute_server_first:
  assumes "crypto_ok c" "plain_text combined"
  shows "attribute (server_first_message c v combined) (CHR ''r'') = Some combined"
    "attribute (server_first_message c v combined) (CHR ''s'') = Some (b64_encode c (salt v))"
    "attribute (server_first_message c v combined) (CHR ''i'') = Some (show_radix 10 (iterations v))"
proof -
  note p = plain_textD(1) [OF assms(2)] plain_textD(1) [OF crypto_okD(4) [OF assms(1), of "salt v"]]
    plain_textD(1) [OF plain_text_number [of "iterations v"]]
  have first: "server_first_message c v combined = [CHR ''r''] @ ''='' @ combined @ CHR '','' #
      ([CHR ''s''] @ ''='' @ b64_encode c (salt v) @ CHR '','' # ([CHR ''i''] @ ''='' @ show_radix 10 (iterations v)))"
    by (simp add: server_first_message_def)
  show "attribute (server_first_message c v combined) (CHR ''r'') = Some combined"
    unfolding first by (rule attribute_first(1)) (use p in simp_all)
  have "attribute (server_first_message c v combined) k = attribute ([CHR ''s''] @ ''='' @ b64_encode c (salt v)
      @ CHR '','' # ([CHR ''i''] @ ''='' @ show_radix 10 (iterations v))) k" if "k \<noteq> CHR ''r''" for k
    unfolding first by (rule attribute_skip) (use p that in simp_all)
  note skip_r = this
  show "attribute (server_first_message c v combined) (CHR ''s'') = Some (b64_encode c (salt v))"
    by (subst skip_r, simp, rule attribute_first(1)) (use p in simp_all)
  show "attribute (server_first_message c v combined) (CHR ''i'') = Some (show_radix 10 (iterations v))"
    by (subst skip_r, simp, subst attribute_skip)
      (use p attribute_first(2) [of "CHR ''i''" "show_radix 10 (iterations v)"] in simp_all)
qed

lemma attribute_without_proof:
  assumes "plain_text combined"
  shows "attribute (login_without_proof combined) (CHR ''r'') = Some combined"
    "attribute (login_without_proof combined) (CHR ''c'') = Some ''biws''"
proof -
  have eq: "login_without_proof combined
      = [CHR ''c''] @ ''='' @ ''biws'' @ CHR '','' # ([CHR ''r''] @ ''='' @ combined)"
    by (simp add: login_without_proof_def)
  show "attribute (login_without_proof combined) (CHR ''c'') = Some ''biws''"
    unfolding eq by (rule attribute_first(1)) simp_all
  have "attribute (login_without_proof combined) (CHR ''r'') = attribute ([CHR ''r''] @ ''='' @ combined) (CHR ''r'')"
    unfolding eq by (rule attribute_skip) simp_all
  also have "\<dots> = Some combined" by (rule attribute_first(2)) (use plain_textD(1) [OF assms] in simp_all)
  finally show "attribute (login_without_proof combined) (CHR ''r'') = Some combined" .
qed

lemma utf8_messages:
  assumes "crypto_ok c" "plain_text combined"
  shows "utf8_valid (server_first_message c v combined)" "utf8_valid (final_message c v ck cn combined)"
  using plain_textD(5) [OF assms(2)] plain_textD(5) [OF plain_text_number [of "iterations v"]]
    plain_textD(5) [OF crypto_okD(4) [OF assms(1)]]
  by (auto simp: server_first_message_def final_message_def login_without_proof_def intro!: utf8_ascii)

lemma continue_response_ok:
  assumes "crypto_ok c" "plain_text (cn @ sn)" "iterations v < 2 ^ 32"
  shows "continue_response c \<lparr>client_key = ck, cred_verifier = v\<rparr> cn (server_first_message c v (cn @ sn))
    = Inr (login_text c v cn (cn @ sn), final_message c v ck cn (cn @ sn))"
proof -
  have "check_same_verifier c (server_first_message c v (cn @ sn)) v = Inr ()"
    using assms(3) by (simp add: check_same_verifier_def attribute_server_first [OF assms(1,2)]
        crypto_okD(3) [OF assms(1)] from_str_radix_show_radix)
  then show ?thesis
    using utf8_messages(1) [OF assms(1,2), of v] attribute_server_first(1) [OF assms(1,2), of v]
    by (simp add: continue_response_def starts_with_iff Let_def login_text_def final_message_def login_without_proof_def)
qed

lemma check_final_ok:
  assumes "crypto_ok c" "plain_text combined" "length ck = 32" "sha256 c ck = stored_key v"
  shows "check_final c v ''n,,'' (''n=,r='' @ cn) combined (final_message c v ck cn combined)
    = Inr (ck, login_text c v cn combined)"
proof -
  let ?sig = "hmac c (stored_key v) (login_text c v cn combined)"
  have "rsplit_str '',p='' (final_message c v ck cn combined)
      = Some (login_without_proof combined, b64_encode c (xor ck ?sig))"
    using rsplit_str_append [of "CHR '',''" "''p=''" "b64_encode c (xor ck ?sig)" "login_without_proof combined"]
      plain_textD(1) [OF crypto_okD(4) [OF assms(1)]] by (simp add: final_message_def)
  moreover have "key_from_base64 c (b64_encode c (xor ck ?sig)) = Inr (xor ck ?sig)"
    by (rule key_decode [OF assms(1)]) (simp add: assms(3) crypto_okD(1) [OF assms(1)])
  moreover have "xor (xor ck ?sig) ?sig = ck" by (rule xor_cancel) (simp add: assms(3) crypto_okD(1) [OF assms(1)])
  moreover have "keys_equal (sha256 c ck) (stored_key v)" using assms(4) by (simp add: keys_equal_iff)
  ultimately show ?thesis
    using utf8_messages(2) [OF assms(1,2)] attribute_without_proof [OF assms(2)] crypto_okD(6) [OF assms(1)]
    by (simp add: check_final_def Let_def login_text_def)
qed

text \<open>
  A client that holds the key, with the messages the proxy itself sends as a
  client; and a server as RFC 5802 describes it, with the checks the proxy makes
  as a server.  \<open>tail\<close> is what the server sends once the login is done.
\<close>

definition scram_client :: "crypto \<Rightarrow> credentials \<Rightarrow> string \<Rightarrow> bytes list \<Rightarrow> bytes" where
  "scram_client c cred cn sent =
    (case sent of
       [m1] \<Rightarrow> (case sasl_response (''n=,r='' @ cn) (drop 9 m1) of
           Inr r \<Rightarrow> write_message (CHR ''p'') r | Inl _ \<Rightarrow> [])
     | [m1, m2] \<Rightarrow> (case continue_response c cred cn (drop 9 m2) of
           Inr (_, r) \<Rightarrow> write_message (CHR ''p'') r | Inl _ \<Rightarrow> [])
     | _ \<Rightarrow> [])"

definition client_opening :: "bytes \<Rightarrow> (string \<times> string \<times> string) option" where
  "client_opening r1 =
    (case parse_initial_response (drop 5 r1) of
       Inr (client_first, gs2) \<Rightarrow>
         (let bare = drop (length gs2) client_first
          in map_option (\<lambda>cn. (gs2, bare, cn)) (attribute bare (CHR ''r'')))
     | Inl _ \<Rightarrow> None)"

definition scram_server :: "crypto \<Rightarrow> verifier \<Rightarrow> string \<Rightarrow> bytes \<Rightarrow> bytes list \<Rightarrow> bytes" where
  "scram_server c v sn tail sent =
    (case sent of
       [_] \<Rightarrow> write_message (CHR ''R'') (auth_message AUTH_SASL (MECHANISM @ [NUL, NUL]))
     | [_, r1] \<Rightarrow> (case client_opening r1 of
           Some (_, _, cn) \<Rightarrow>
             write_message (CHR ''R'') (auth_message AUTH_SASL_CONTINUE (server_first_message c v (cn @ sn)))
         | None \<Rightarrow> [])
     | [_, r1, r2] \<Rightarrow> (case client_opening r1 of
           Some (gs2, bare, cn) \<Rightarrow>
             (case check_final c v gs2 bare (cn @ sn) (drop 5 r2) of
                Inr (_, auth) \<Rightarrow>
                  write_message (CHR ''R'') (auth_message AUTH_SASL_FINAL
                    (''v='' @ b64_encode c (hmac c (server_key v) auth)))
                  @ write_message (CHR ''R'') (be_bytes 4 AUTH_OK) @ tail
              | Inl _ \<Rightarrow> write_message (CHR ''E'') [])
         | None \<Rightarrow> [])
     | _ \<Rightarrow> [])"

definition opening_message :: "string \<Rightarrow> bytes" where
  "opening_message cn =
    MECHANISM @ [NUL] @ be_bytes 4 (length (''n,,n=,r='' @ cn)) @ ''n,,n=,r='' @ cn"

lemma sasl_response_ok: "sasl_response (''n=,r='' @ cn) (MECHANISM @ [NUL, NUL]) = Inr (opening_message cn)"
proof -
  have "MECHANISM \<in> set (split_byte NUL (MECHANISM @ [NUL, NUL]))" by code_simp
  then show ?thesis by (simp add: sasl_response_def opening_message_def)
qed

lemma parse_opening:
  assumes "plain_text cn"
  shows "parse_initial_response (opening_message cn) = Inr (''n,,n=,r='' @ cn, ''n,,'')"
    "attribute (''n=,r='' @ cn) (CHR ''r'') = Some cn"
proof -
  have "split_once NUL (opening_message cn) = Some (MECHANISM, be_bytes 4 (length (''n,,n=,r='' @ cn)) @ ''n,,n=,r='' @ cn)"
    unfolding opening_message_def append_Cons append_Nil
    by (rule split_once_append) (simp add: MECHANISM_def)
  moreover have "utf8_valid (''n,,n=,r='' @ cn)" "utf8_valid MECHANISM"
    using plain_textD(5) [OF assms] by (auto intro!: utf8_ascii simp: MECHANISM_def)
  moreover have "drop (length MECHANISM + 5) (opening_message cn) = ''n,,n=,r='' @ cn"
    by (simp add: opening_message_def)
  moreover have "length MECHANISM + 5 \<le> length (opening_message cn)" by (simp add: opening_message_def)
  moreover have "split_once (CHR '','') (''n,,n=,r='' @ cn) = Some (''n'', '',n=,r='' @ cn)"
    "split_once (CHR '','') ('',n=,r='' @ cn) = Some ([], ''n=,r='' @ cn)" by simp_all
  ultimately show "parse_initial_response (opening_message cn) = Inr (''n,,n=,r='' @ cn, ''n,,'')"
    unfolding parse_initial_response_def by (simp add: Let_def)
  have "attribute (''n=,r='' @ cn) (CHR ''r'') = attribute ([CHR ''r''] @ ''='' @ cn) (CHR ''r'')"
    using attribute_skip [of "[]" "CHR ''r''" "CHR ''n''" "[CHR ''r''] @ ''='' @ cn"] by simp
  then show "attribute (''n=,r='' @ cn) (CHR ''r'') = Some cn"
    using attribute_first(2) [of "CHR ''r''" cn] plain_textD(1) [OF assms] by simp
qed

lemma drop_auth [simp]: "drop 9 (write_message k (auth_message code d)) = d"
  "drop 5 (write_message k d) = d"
  by (simp_all add: write_message_def auth_message_def)

lemma length_auth [simp]: "length (auth_message code d) = 4 + length d"
  by (simp add: auth_message_def)

text \<open>Messages that fit into a frame.\<close>

definition fits :: "crypto \<Rightarrow> verifier \<Rightarrow> string \<Rightarrow> bool" where
  "fits c v combined \<longleftrightarrow> length (server_first_message c v combined) \<le> 100000"

lemma fits_bounds:
  assumes "fits c v (cn @ sn)" "crypto_ok c" "length ck = 32"
  shows "length (opening_message cn) + 4 \<le> MAX_FRAME"
    "length (final_message c v ck cn (cn @ sn)) + 4 \<le> MAX_FRAME"
    "length (server_first_message c v (cn @ sn)) + 8 \<le> MAX_FRAME"
    "length (b64_encode c (hmac c k m)) + 10 \<le> MAX_FRAME"
proof -
  have len: "length cn + length sn \<le> 100000"
    using assms(1) by (simp add: fits_def server_first_message_def)
  have b64: "length (b64_encode c b) \<le> 4 * length b" for b by (rule crypto_okD(5) [OF assms(2)])
  show "length (opening_message cn) + 4 \<le> MAX_FRAME"
    using len by (simp add: opening_message_def MECHANISM_def MAX_FRAME_def)
  show "length (final_message c v ck cn (cn @ sn)) + 4 \<le> MAX_FRAME"
    using len b64 [of "xor ck (hmac c (stored_key v) (login_text c v cn (cn @ sn)))"] crypto_okD(1) [OF assms(2)] assms(3)
    by (simp add: final_message_def login_without_proof_def MAX_FRAME_def)
  show "length (server_first_message c v (cn @ sn)) + 8 \<le> MAX_FRAME"
    using assms(1) by (simp add: fits_def MAX_FRAME_def)
  show "length (b64_encode c (hmac c k m)) + 10 \<le> MAX_FRAME"
    using b64 [of "hmac c k m"] crypto_okD(1) [OF assms(2)] by (simp add: MAX_FRAME_def)
qed

lemma authenticate_scram_client:
  assumes "crypto_ok c" "plain_text (cn @ sn)" "iterations v < 2 ^ 32" "fits c v (cn @ sn)"
    "length ck = 32" "sha256 c ck = stored_key v"
  shows "fst (authenticate_client c v sn (scram_client c \<lparr>client_key = ck, cred_verifier = v\<rparr> cn))
    = Inr \<lparr>client_key = ck, cred_verifier = v\<rparr>"
proof -
  let ?cred = "\<lparr>client_key = ck, cred_verifier = v\<rparr>"
  let ?m1 = "write_message (CHR ''R'') (auth_message AUTH_SASL (MECHANISM @ [NUL, NUL]))"
  let ?m2 = "write_message (CHR ''R'') (auth_message AUTH_SASL_CONTINUE (server_first_message c v (cn @ sn)))"
  have plain: "plain_text cn" using assms(2) by simp
  have c1: "scram_client c ?cred cn [?m1] = write_message (CHR ''p'') (opening_message cn)"
    using sasl_response_ok [of cn] by (simp add: scram_client_def)
  have c2: "scram_client c ?cred cn [?m1, ?m2] = write_message (CHR ''p'') (final_message c v ck cn (cn @ sn))"
    using continue_response_ok [OF assms(1-3)] by (simp add: scram_client_def)
  have r1: "read_frame (write_message (CHR ''p'') (opening_message cn)) = Inr ((CHR ''p'', opening_message cn), [])"
    using read_login_message [OF fits_bounds(1) [OF assms(4,1,5)], of "CHR ''p''" "[]"] by simp
  have r2: "read_frame (write_message (CHR ''p'') (final_message c v ck cn (cn @ sn)))
      = Inr ((CHR ''p'', final_message c v ck cn (cn @ sn)), [])"
    using read_login_message [OF fits_bounds(2) [OF assms(4,1,5)], of "CHR ''p''" "[]"] by simp
  have strip: "strip_prefix ''n,,'' (''n,,n=,r='' @ cn) = Some (''n=,r='' @ cn)"
    by (simp add: strip_prefix_def)
  have final: "check_final c v ''n,,'' (''n=,r='' @ cn) (cn @ sn) (final_message c v ck cn (cn @ sn))
      = Inr (ck, login_text c v cn (cn @ sn))"
    by (rule check_final_ok [OF assms(1,2,5,6)])
  show ?thesis
    unfolding authenticate_client_def Let_def c1 r1 sum.case prod.case
    by (simp add: parse_opening [OF plain] strip c2 r2 final del: append_assoc append_Cons)
qed

text \<open>One message of the backend: read, and handled.\<close>

lemma auth_code: "n < 2 ^ 32 \<Longrightarrow> from_be_bytes (take 4 (auth_message n d)) = n" "drop 4 (auth_message n d) = d"
  by (simp_all add: auth_message_def from_be_bytes_be_bytes)

lemma login_loop_message:
  assumes "length d + 8 \<le> MAX_FRAME" "n < 2 ^ 32"
  shows "login_loop (Suc fuel) c cred nonce backend sent auth (write_message (CHR ''R'') (auth_message n d) @ rest) =
    (if n = AUTH_OK then Some (Inr rest)
     else if n = AUTH_SASL then
       (case sasl_response (''n=,r='' @ nonce) d of
          Inl e \<Rightarrow> Some (Inl (LoginFailed e))
        | Inr response \<Rightarrow>
            let sent' = sent @ [write_message (CHR ''p'') response]
            in login_loop fuel c cred nonce backend sent' auth (rest @ backend sent'))
     else if n = AUTH_SASL_CONTINUE then
       (case continue_response c cred nonce d of
          Inl e \<Rightarrow> Some (Inl (LoginFailed e))
        | Inr (auth', response) \<Rightarrow>
            let sent' = sent @ [write_message (CHR ''p'') response]
            in login_loop fuel c cred nonce backend sent' auth' (rest @ backend sent'))
     else if n = AUTH_SASL_FINAL then
       (case check_server_final c (cred_verifier cred) auth d of
          Inl e \<Rightarrow> Some (Inl (LoginFailed e))
        | Inr _ \<Rightarrow> login_loop fuel c cred nonce backend sent auth rest)
     else Some (Inl (LoginFailed ''backend asked for another auth method, and the proxy needs SCRAM'')))"
proof -
  have "read_frame (write_message (CHR ''R'') (auth_message n d) @ rest) = Inr ((CHR ''R'', auth_message n d), rest)"
    by (rule read_login_message) (use assms(1) in simp)
  then show ?thesis
    unfolding login_loop.simps Let_def by (simp add: auth_code(1) [OF assms(2)] auth_code(2))
qed

lemma check_server_final_ok:
  assumes "crypto_ok c"
  shows "check_server_final c v auth (''v='' @ b64_encode c (hmac c (server_key v) auth)) = Inr ()"
proof -
  have "attribute (''v='' @ b64_encode c (hmac c (server_key v) auth)) (CHR ''v'')
      = Some (b64_encode c (hmac c (server_key v) auth))"
    using attribute_first(2) [of "CHR ''v''"] plain_textD(1) [OF crypto_okD(4) [OF assms]] by simp
  moreover have "utf8_valid (''v='' @ b64_encode c (hmac c (server_key v) auth))"
    using plain_textD(5) [OF crypto_okD(4) [OF assms]] by (auto intro!: utf8_ascii)
  ultimately show ?thesis
    using key_decode [OF assms crypto_okD(1) [OF assms]]
    by (simp add: check_server_final_def keys_equal_iff)
qed

lemma client_opening_ok:
  "plain_text cn \<Longrightarrow> client_opening (write_message (CHR ''p'') (opening_message cn)) = Some (''n,,'', ''n=,r='' @ cn, cn)"
  using parse_opening [of cn] by (simp add: client_opening_def)

lemma login_scram_server:
  assumes "crypto_ok c" "plain_text (cn @ sn)" "iterations v < 2 ^ 32" "fits c v (cn @ sn)"
    "length ck = 32" "sha256 c ck = stored_key v" "4 \<le> fuel"
  shows "login_to_backend fuel c \<lparr>client_key = ck, cred_verifier = v\<rparr> cn startup (scram_server c v sn tail)
    = Some (read_rest tail [])"
proof -
  let ?b = "scram_server c v sn tail" and ?cred = "\<lparr>client_key = ck, cred_verifier = v\<rparr>"
  let ?r1 = "write_message (CHR ''p'') (opening_message cn)"
  let ?r2 = "write_message (CHR ''p'') (final_message c v ck cn (cn @ sn))"
  let ?text = "login_text c v cn (cn @ sn)"
  define k where "k = fuel - 4"
  have fuel: "fuel = Suc (Suc (Suc (Suc k)))" using assms(7) by (simp add: k_def)
  have plain: "plain_text cn" using assms(2) by simp
  have b1: "?b [startup] = write_message (CHR ''R'') (auth_message AUTH_SASL (MECHANISM @ [NUL, NUL])) @ []"
    by (simp add: scram_server_def)
  have b2: "?b ([startup] @ [?r1])
      = write_message (CHR ''R'') (auth_message AUTH_SASL_CONTINUE (server_first_message c v (cn @ sn))) @ []"
    using client_opening_ok [OF plain] by (simp add: scram_server_def)
  have final: "check_final c v ''n,,'' (''n=,r='' @ cn) (cn @ sn) (final_message c v ck cn (cn @ sn)) = Inr (ck, ?text)"
    by (rule check_final_ok [OF assms(1,2,5,6)])
  have b3: "?b (([startup] @ [?r1]) @ [?r2])
      = write_message (CHR ''R'') (auth_message AUTH_SASL_FINAL (''v='' @ b64_encode c (hmac c (server_key v) ?text)))
        @ write_message (CHR ''R'') (auth_message AUTH_OK []) @ tail"
    using client_opening_ok [OF plain] final by (simp add: scram_server_def auth_message_def)
  note bounds = fits_bounds [OF assms(4,1,5)]
  have s1: "login_loop fuel c ?cred cn ?b [startup] [] (?b [startup])
      = login_loop (Suc (Suc (Suc k))) c ?cred cn ?b ([startup] @ [?r1]) [] (?b ([startup] @ [?r1]))"
    unfolding fuel b1 by (subst login_loop_message)
      (use sasl_response_ok [of cn] in \<open>simp_all add: AUTH_SASL_def AUTH_OK_def MECHANISM_def MAX_FRAME_def Let_def\<close>)
  have s2: "login_loop (Suc (Suc (Suc k))) c ?cred cn ?b ([startup] @ [?r1]) [] (?b ([startup] @ [?r1]))
      = login_loop (Suc (Suc k)) c ?cred cn ?b (([startup] @ [?r1]) @ [?r2]) ?text (?b (([startup] @ [?r1]) @ [?r2]))"
    unfolding b2 by (subst login_loop_message)
      (use continue_response_ok [OF assms(1-3)] bounds(3)
        in \<open>simp_all add: AUTH_SASL_def AUTH_OK_def AUTH_SASL_CONTINUE_def Let_def\<close>)
  have s3: "login_loop (Suc (Suc k)) c ?cred cn ?b sent ?text (?b (([startup] @ [?r1]) @ [?r2]))
      = login_loop (Suc k) c ?cred cn ?b sent ?text (write_message (CHR ''R'') (auth_message AUTH_OK []) @ tail)" for sent
    unfolding b3 by (subst login_loop_message)
      (use check_server_final_ok [OF assms(1)] bounds(4) [of "server_key v" ?text]
        in \<open>simp_all add: AUTH_SASL_def AUTH_OK_def AUTH_SASL_CONTINUE_def AUTH_SASL_FINAL_def\<close>)
  have s4: "login_loop (Suc k) c ?cred cn ?b sent ?text (write_message (CHR ''R'') (auth_message AUTH_OK []) @ tail)
      = Some (Inr tail)" for sent
    by (subst login_loop_message) (simp_all add: AUTH_OK_def MAX_FRAME_def)
  show ?thesis unfolding login_to_backend_def s1 s2 s3 s4 by simp
qed

text \<open>What follows the login, through \<open>ReadyForQuery\<close>.\<close>

definition startup_message :: "char \<times> bytes \<Rightarrow> bool" where
  "startup_message m \<longleftrightarrow> fst m \<notin> {CHR ''Z'', CHR ''E''} \<and> length (snd m) + 4 \<le> MAX_FRAME"

lemma read_rest_reply:
  "list_all startup_message ms \<Longrightarrow> read_rest (encode_reply ms st @ r) acc = Inr (acc @ encode_reply ms st)"
proof (induction ms arbitrary: acc)
  case Nil
  have "read_frame (write_ready_for_query st @ r) = Inr ((CHR ''Z'', [st]), r)"
    unfolding write_ready_for_query_def by (rule read_login_message) (simp add: MAX_FRAME_def)
  then show ?case by (subst read_rest.simps) (simp add: encode_frame_message write_ready_for_query_def)
next
  case (Cons m ms)
  obtain k body where m: "m = (k, body)" by force
  have "read_frame (write_message k body @ encode_reply ms st @ r) = Inr ((k, body), encode_reply ms st @ r)"
    by (rule read_login_message) (use Cons.prems m in \<open>simp add: startup_message_def\<close>)
  then show ?case using Cons m
    by (subst read_rest.simps) (simp add: startup_message_def encode_frame_message)
qed

subsection \<open>Stored verifiers\<close>

lemma verifier_fields:
  assumes "crypto_ok c" "its < 2 ^ 32"
  shows "parse_verifier c (make_verifier c password sl its) =
    Some \<lparr>iterations = its, salt = sl, stored_key = sha256 c (hmac c (salted_password c password sl its) ''Client Key''),
      server_key = hmac c (salted_password c password sl its) ''Server Key''\<rparr>"
proof -
  let ?salted = "salted_password c password sl its"
  let ?stored = "sha256 c (hmac c ?salted ''Client Key'')" and ?server = "hmac c ?salted ''Server Key''"
  note b64 = plain_textD [OF crypto_okD(4) [OF assms(1)]] and num = plain_textD [OF plain_text_number [of its]]
  have keys: "ok_opt (key_from_base64 c (b64_encode c ?stored)) = Some ?stored"
    "ok_opt (key_from_base64 c (b64_encode c ?server)) = Some ?server"
    using key_decode [OF assms(1)] crypto_okD(1,2) [OF assms(1)] by (simp_all add: ok_opt_def)
  have s0: "strip_prefix ''SCRAM-SHA-256$'' (make_verifier c password sl its)
      = Some ((show_radix 10 its @ '':'' @ b64_encode c sl) @ CHR ''$'' # (b64_encode c ?stored @ '':'' @ b64_encode c ?server))"
    by (simp add: make_verifier_def strip_prefix_Some Let_def)
  have s1: "split_once (CHR ''$'') ((show_radix 10 its @ '':'' @ b64_encode c sl) @ CHR ''$'' # x)
      = Some (show_radix 10 its @ '':'' @ b64_encode c sl, x)" for x
    by (rule split_once_append) (use b64 num in simp)
  have s2: "split_once (CHR '':'') (show_radix 10 its @ '':'' @ b64_encode c sl) = Some (show_radix 10 its, b64_encode c sl)"
    using split_once_append [OF num(3)] by simp
  have s3: "split_once (CHR '':'') (b64_encode c ?stored @ '':'' @ x) = Some (b64_encode c ?stored, x)" for x
    using split_once_append [OF b64(3)] by simp
  show ?thesis
    unfolding parse_verifier_def s0 Option.bind_lunit s1 prod.case s2 s3
    using keys assms(2) by (simp add: crypto_okD(3) [OF assms(1)] from_str_radix_show_radix Let_def)
qed


section \<open>Properties\<close>

text \<open>The text stored for a password reads back as the verifier it was made from.\<close>

theorem verifier_roundtrip:
  assumes "crypto_ok c" "its < 2 ^ 32"
  shows "parse_verifier c (make_verifier c password sl its) =
    (let salted = salted_password c password sl its
     in Some \<lparr>iterations = its, salt = sl, stored_key = sha256 c (hmac c salted ''Client Key''),
          server_key = hmac c salted ''Server Key''\<rparr>)"
  unfolding Let_def by (rule verifier_fields [OF assms])

text \<open>A stand-in for the primitives: hexadecimal text, and keys from the lengths.\<close>

definition hex_char :: "char \<Rightarrow> string" where
  "hex_char x = [from_digit (of_char x div 16), from_digit (of_char x mod 16)]"

fun unhex :: "string \<Rightarrow> bytes option" where
  "unhex [] = Some []"
| "unhex [a] = None"
| "unhex (a # b # s) =
    (case (to_digit 16 a, to_digit 16 b, unhex s) of
       (Some x, Some y, Some r) \<Rightarrow> Some (char_of (x * 16 + y) # r) | _ \<Rightarrow> None)"

definition toy_crypto :: crypto where
  "toy_crypto = \<lparr>hmac = (\<lambda>k m. replicate 31 (char_of (length k)) @ [char_of (length m)]),
     sha256 = (\<lambda>m. replicate 32 (char_of (length m))),
     b64_encode = (\<lambda>b. if b = ''n,,'' then ''biws'' else concat (map hex_char b)),
     b64_decode = (\<lambda>t. if t = ''biws'' then Some ''n,,'' else unhex t)\<rparr>"

lemma hex_digit: "(of_char x :: nat) div 16 < 16"
  by (rule less_mult_imp_div_less) (use of_char_bound [of x] in simp)

lemma unhex_hex: "unhex (concat (map hex_char b)) = Some b"
proof (induction b)
  case (Cons x b)
  have "to_digit 16 (from_digit (of_char x div 16)) = Some (of_char x div 16)"
    "to_digit 16 (from_digit (of_char x mod 16)) = Some (of_char x mod 16)"
    using hex_digit [of x] by (auto intro!: to_digit_from_digit)
  then show ?case using Cons by (simp add: hex_char_def)
qed simp

lemma hex_plain: "\<forall>x \<in> set (concat (map hex_char b)). is_ascii_alphanumeric x"
proof -
  have "(of_char x :: nat) div 16 < 36" for x using hex_digit [of x] by simp
  then show ?thesis by (auto simp: hex_char_def intro!: from_digit_alnum)
qed

lemma toy_crypto_ok: "crypto_ok toy_crypto"
proof -
  have "unhex ''biws'' = None" by code_simp
  then have "concat (map hex_char b) \<noteq> ''biws''" for b using unhex_hex [of b] by (auto simp del: unhex.simps)
  moreover have "plain_text (concat (map hex_char b))" for b by (rule alnum_plain [OF hex_plain])
  moreover have "plain_text ''biws''" by (simp add: plain_text_def)
  moreover have "length (concat (map hex_char b)) = 2 * length b" for b by (induction b) (simp_all add: hex_char_def)
  ultimately show ?thesis by (auto simp: crypto_ok_def toy_crypto_def unhex_hex)
qed

theorem verifier_roundtrip_witness:
  "\<exists>v. parse_verifier toy_crypto (make_verifier toy_crypto ''secret'' ''salt'' 4) = Some v \<and> salt v = ''salt'' \<and> iterations v = 4"
  using verifier_roundtrip [OF toy_crypto_ok, of 4 "''secret''" "''salt''"] by (simp add: Let_def)

definition auth_ok_message :: bytes where
  "auth_ok_message = write_message (CHR ''R'') (be_bytes 4 AUTH_OK)"

lemma auth_ok_other: "d \<noteq> [] \<Longrightarrow> auth_ok_message \<noteq> write_message k (auth_message n d)"
proof
  assume "d \<noteq> []" "auth_ok_message = write_message k (auth_message n d)"
  then have "length auth_ok_message = length (write_message k (auth_message n d))" by (simp only:)
  then show False using \<open>d \<noteq> []\<close> by (simp add: auth_ok_message_def)
qed

lemma authenticate_client_accepts:
  assumes "auth_ok_message \<in> set (snd (authenticate_client c v nonce client))"
  shows "\<exists>gs2 first_bare cn body key auth. attribute first_bare (CHR ''r'') = Some cn
    \<and> check_final c v gs2 first_bare (cn @ nonce) body = Inr (key, auth)
    \<and> fst (authenticate_client c v nonce client) = Inr \<lparr>client_key = key, cred_verifier = v\<rparr>"
proof -
  let ?m1 = "write_message (CHR ''R'') (auth_message AUTH_SASL (MECHANISM @ [NUL, NUL]))"
  have m1: "auth_ok_message \<noteq> ?m1" by (rule auth_ok_other) simp
  have m2: "auth_ok_message \<noteq> write_message (CHR ''R'') (auth_message n (server_first_message c v x))" for n x
    by (rule auth_ok_other) (simp add: server_first_message_def)
  show ?thesis
  proof (cases "read_frame (client [?m1])")
    case (Inl e)
    then show ?thesis using assms m1 by (simp add: authenticate_client_def)
  next
    case (Inr f)
    obtain kind body rest where f: "f = ((kind, body), rest)" by (cases f) force
    show ?thesis
      using assms m1 m2 unfolding authenticate_client_def Let_def Inr f sum.case prod.case
      by (fastforce split: if_splits sum.splits option.splits prod.splits)
  qed
qed


text \<open>C31.  A client that knows a password logs in to a proxy that holds the verifier
  made for it, and the credentials the proxy keeps from that login let it log in
  to every server that holds the same verifier, without the password.  Four
  messages of the server are enough fuel.\<close>

theorem password_logs_in_everywhere:
  assumes "crypto_ok c" "its < 2 ^ 32" "parse_verifier c (make_verifier c password sl its) = Some v"
    and "key = hmac c (salted_password c password sl its) ''Client Key''"
    and "plain_text (cn @ sn)" "fits c v (cn @ sn)" "plain_text (cn' @ sn')" "fits c v (cn' @ sn')"
    and "list_all startup_message ms" "4 \<le> fuel"
  shows "\<exists>cred. fst (authenticate_client c v sn (scram_client c \<lparr>client_key = key, cred_verifier = v\<rparr> cn)) = Inr cred
    \<and> login_to_backend fuel c cred cn' startup (scram_server c v sn' (encode_reply ms st))
        = Some (Inr (encode_reply ms st))"
proof -
  have v: "v = \<lparr>iterations = its, salt = sl, stored_key = sha256 c key,
      server_key = hmac c (salted_password c password sl its) ''Server Key''\<rparr>"
    using verifier_fields [OF assms(1,2)] assms(3,4) by simp
  then have fields: "iterations v < 2 ^ 32" "sha256 c key = stored_key v" using assms(2) by simp_all
  have len: "length key = 32" using assms(4) crypto_okD(1) [OF assms(1)] by simp
  show ?thesis
    using authenticate_scram_client [OF assms(1,5) fields(1) assms(6) len fields(2)]
      login_scram_server [OF assms(1,7) fields(1) assms(8) len fields(2) assms(10)]
      read_rest_reply [OF assms(9), of st "[]" "[]"] by simp
qed

definition toy_verifier :: verifier where
  "toy_verifier = the (parse_verifier toy_crypto (make_verifier toy_crypto ''secret'' ''salt'' 2))"

theorem password_logs_in_everywhere_witness:
  "\<exists>cred. fst (authenticate_client toy_crypto toy_verifier ''efgh''
       (scram_client toy_crypto \<lparr>client_key = hmac toy_crypto (salted_password toy_crypto ''secret'' ''salt'' 2) ''Client Key'',
          cred_verifier = toy_verifier\<rparr> ''abcd'')) = Inr cred
    \<and> login_to_backend 4 toy_crypto cred ''ijkl'' [] (scram_server toy_crypto toy_verifier ''mnop''
         (encode_reply [(CHR ''S'', ''x'')] (CHR ''I'')))
        = Some (Inr (encode_reply [(CHR ''S'', ''x'')] (CHR ''I'')))"
proof (rule password_logs_in_everywhere [OF toy_crypto_ok, where its = 2 and password = "''secret''" and sl = "''salt''"])
  show "parse_verifier toy_crypto (make_verifier toy_crypto ''secret'' ''salt'' 2) = Some toy_verifier"
    using verifier_fields [OF toy_crypto_ok, of 2] by (simp add: toy_verifier_def)
  have "length (server_first_message toy_crypto toy_verifier ''abcdefgh'') \<le> 100000"
    "length (server_first_message toy_crypto toy_verifier ''ijklmnop'') \<le> 100000" by code_simp+
  then show "fits toy_crypto toy_verifier (''abcd'' @ ''efgh'')" "fits toy_crypto toy_verifier (''ijkl'' @ ''mnop'')"
    by (simp_all add: fits_def)
qed (simp_all add: plain_text_def startup_message_def MAX_FRAME_def)


end
