(* ===== verification/Proxy_Connection.thy ===== *)
theory Proxy_Connection
  imports Session_Router Scram
begin

text \<open>
  One client of the proxy (\<open>ProxyConnection::run\<close> in \<open>proxy/connection.rs\<close>): the
  checks before its login, and the loop that routes its messages.  What other
  tasks share is read anew for each message, and what the pool and the backend
  answer is arbitrary; both come with the message.  A run gives the list of what
  the session did.  Texts of error messages are left out, their severity and
  SQLSTATE are kept.
\<close>

section \<open>What a session sees and does\<close>

text \<open>The clock, the router, and the topology as two reads in a row returned it.\<close>

record view =
  clock :: nat
  routing :: router
  topology :: cluster_topology
  topology_next :: cluster_topology

text \<open>The pool's answer to \<open>acquire\<close>, whether the message could be written to the
  backend, the status of its reply, and whether the client can be written to.\<close>

record answers =
  acquired :: "string + nat"
  written :: "string + unit"
  piped :: "string + char"
  client_writable :: bool

text \<open>A backend connection with the node and the address it belongs to.\<close>

type_synonym held = "nat \<times> string \<times> string"

datatype action =
    Acquire string string "string + nat"
  | Forward held bytes "string + char option"
  | Release held
  | ErrorTo string string

datatype flow = Continue | Break | Abort

record proxy_connection =
  session :: session_state
  current :: "held option"


section \<open>The message loop\<close>

fun answers_now :: "frontend_message \<Rightarrow> bool" where
  "answers_now SyncMsg = True"
| "answers_now CopyDone = True"
| "answers_now (CopyFail _) = True"
| "answers_now _ = False"

text \<open>An error for the client; a client that cannot be written to ends the session.\<close>

definition write_error ::
  "answers \<Rightarrow> string \<Rightarrow> string \<Rightarrow> flow \<Rightarrow> proxy_connection \<Rightarrow> flow \<times> proxy_connection \<times> action list" where
  "write_error ans severity code next pc =
    (if client_writable ans then (next, pc, [ErrorTo severity code]) else (Abort, pc, []))"

definition ensure_backend ::
  "answers \<Rightarrow> string \<Rightarrow> string \<Rightarrow> held option \<Rightarrow> (string + held) \<times> held option \<times> action list" where
  "ensure_backend ans nid addr cur =
    (case cur of
       Some (c, n, a) \<Rightarrow>
         if n = nid \<and> a = addr then (Inr (c, n, a), cur, [])
         else (case acquired ans of
             Inl e \<Rightarrow> (Inl e, cur, [Acquire nid addr (Inl e)])
           | Inr d \<Rightarrow> (Inr (d, nid, addr), Some (d, nid, addr), [Acquire nid addr (Inr d)]))
     | None \<Rightarrow>
         (case acquired ans of
             Inl e \<Rightarrow> (Inl e, cur, [Acquire nid addr (Inl e)])
           | Inr d \<Rightarrow> (Inr (d, nid, addr), Some (d, nid, addr), [Acquire nid addr (Inr d)])))"

definition forward_and_pipe :: "answers \<Rightarrow> string + char" where
  "forward_and_pipe ans = and_then (written ans) (\<lambda>_. piped ans)"

text \<open>After a reply: the status is noted, and between transactions the backend goes back.\<close>

definition after_reply :: "char \<Rightarrow> proxy_connection \<Rightarrow> proxy_connection \<times> action list" where
  "after_reply rfq pc =
    (let s = update_from_ready_for_query rfq (session pc) in
     if txn_state s = Idle then
       (pc\<lparr>session := s, current := None\<rparr>, case current pc of Some h \<Rightarrow> [Release h] | None \<Rightarrow> [])
     else (pc\<lparr>session := s\<rparr>, []))"

text \<open>A message for the backend at \<open>(nid, addr)\<close>, whose reply is awaited or not.\<close>

definition send_to ::
  "answers \<Rightarrow> bool \<Rightarrow> bytes \<Rightarrow> string \<Rightarrow> string \<Rightarrow> proxy_connection \<Rightarrow> flow \<times> proxy_connection \<times> action list" where
  "send_to ans reply raw nid addr pc =
    (case ensure_backend ans nid addr (current pc) of
       (Inl _, cur, acts) \<Rightarrow>
         (case write_error ans ''ERROR'' ''08006'' Continue (pc\<lparr>current := cur\<rparr>) of
            (fl, pc', es) \<Rightarrow> (fl, pc', acts @ es))
     | (Inr h, cur, acts) \<Rightarrow>
         if reply then
           (case forward_and_pipe ans of
              Inl e \<Rightarrow> (Abort, pc\<lparr>current := cur\<rparr>, acts @ [Forward h raw (Inl e)])
            | Inr rfq \<Rightarrow>
                (case after_reply rfq (pc\<lparr>current := cur\<rparr>) of
                   (pc', rel) \<Rightarrow> (Continue, pc', acts @ [Forward h raw (Inr (Some rfq))] @ rel)))
         else
           (case written ans of
              Inl e \<Rightarrow> (Abort, pc\<lparr>current := cur\<rparr>, acts @ [Forward h raw (Inl e)])
            | Inr _ \<Rightarrow> (Continue, pc\<lparr>current := cur\<rparr>, acts @ [Forward h raw (Inr None)])))"

definition on_query ::
  "view \<Rightarrow> answers \<Rightarrow> string \<Rightarrow> bytes \<Rightarrow> proxy_connection \<Rightarrow> flow \<times> proxy_connection \<times> action list" where
  "on_query v ans sql raw pc =
    (case route_intent (classify_statement sql) (session pc) of
       (target, s) \<Rightarrow>
         let pc = pc\<lparr>session := s\<rparr> in
         (case current pc of
            Some (_, nid, addr) \<Rightarrow> send_to ans True raw nid addr pc
          | None \<Rightarrow>
              if draining (routing v) \<and> target = ToPrimary then write_error ans ''FATAL'' ''57P01'' Break pc
              else (case resolve_backend (routing v) (topology v) (topology_next v) target of
                 Some (nid, addr) \<Rightarrow> send_to ans True raw nid addr pc
               | None \<Rightarrow> write_error ans ''ERROR'' ''57P03'' Continue pc)))"

definition on_extended ::
  "view \<Rightarrow> answers \<Rightarrow> frontend_message \<Rightarrow> bytes \<Rightarrow> proxy_connection \<Rightarrow> flow \<times> proxy_connection \<times> action list" where
  "on_extended v ans msg raw pc =
    (case current pc of
       Some (_, nid, addr) \<Rightarrow> send_to ans (answers_now msg) raw nid addr pc
     | None \<Rightarrow>
         (case zip_option (router_primary_node_id (topology v)) (primary_addr (topology_next v)) of
            Some (nid, addr) \<Rightarrow> send_to ans (answers_now msg) raw nid addr pc
          | None \<Rightarrow> write_error ans ''ERROR'' ''57P03'' Continue pc))"

fun on_message ::
  "view \<Rightarrow> answers \<Rightarrow> frontend_message \<Rightarrow> bytes \<Rightarrow> proxy_connection \<Rightarrow> flow \<times> proxy_connection \<times> action list" where
  "on_message v ans Terminate raw pc = (Break, pc, [])"
| "on_message v ans msg raw pc =
    (if \<not> has_quorum (clock v) (routing v) then write_error ans ''FATAL'' ''57P03'' Break pc
     else case msg of
       Query sql \<Rightarrow> on_query v ans sql raw pc
     | PasswordMessage _ \<Rightarrow> (Continue, pc, [])
     | StartupMessage _ \<Rightarrow> (Continue, pc, [])
     | SslRequest \<Rightarrow> (Continue, pc, [])
     | CancelRequest _ _ \<Rightarrow> (Continue, pc, [])
     | _ \<Rightarrow> on_extended v ans msg raw pc)"

definition release_rest :: "proxy_connection \<Rightarrow> action list" where
  "release_rest pc = (case current pc of Some h \<Rightarrow> [Release h] | None \<Rightarrow> [])"

text \<open>The loop, over the messages the client sends until it disconnects; the result
  says whether the session ended without an error.\<close>

fun message_loop ::
  "(view \<times> answers \<times> frontend_message \<times> bytes) list \<Rightarrow> proxy_connection \<Rightarrow> bool \<times> action list" where
  "message_loop [] pc = (True, release_rest pc)"
| "message_loop ((v, ans, msg, raw) # rest) pc =
    (case on_message v ans msg raw pc of
       (Continue, pc', acts) \<Rightarrow> (let (r, more) = message_loop rest pc' in (r, acts @ more))
     | (Break, pc', acts) \<Rightarrow> (True, acts @ release_rest pc')
     | (Abort, pc', acts) \<Rightarrow> (False, acts))"

definition new_connection :: "string \<Rightarrow> string \<Rightarrow> string \<Rightarrow> proxy_connection" where
  "new_connection db u app =
    \<lparr>session = default_session\<lparr>s_database := db, s_user := u, s_application_name := app\<rparr>, current = None\<rparr>"


section \<open>Before the loop\<close>

datatype start_result =
    StartRefused string string
  | StartForwarded bytes
  | StartFailed
  | Started string string string string bytes nat

text \<open>
  The verifier of a role (\<open>AuthQuery::verifier\<close>): a lookup in Postgres, again with
  the next password when the current one is refused; a role without a verifier
  gets a mock.  The SQL lookup is a parameter; it fails with a SQLSTATE.
\<close>

definition refused_password :: "string \<Rightarrow> bool" where
  "refused_password sqlstate \<longleftrightarrow> sqlstate = ''28P01''"

definition auth_verifier ::
  "crypto \<Rightarrow> (string \<Rightarrow> string \<Rightarrow> string \<Rightarrow> string + string option) \<Rightarrow> string \<Rightarrow> string option \<Rightarrow> bytes
    \<Rightarrow> string \<Rightarrow> string \<Rightarrow> string + verifier" where
  "auth_verifier c lookup password next_password mock_secret addr role =
    (let stored = (case lookup addr password role of
         Inl e \<Rightarrow> if refused_password e then
             (case next_password of Some next \<Rightarrow> lookup addr next role | None \<Rightarrow> Inl e) else Inl e
       | result \<Rightarrow> result)
     in and_then stored (\<lambda>s. Inr
          (case Option.bind s (parse_verifier c) of Some v \<Rightarrow> v | None \<Rightarrow> mock c role mock_secret)))"

text \<open>
  \<open>verifiers\<close> is the auth query at the primary's address, \<open>client\<close> the client as the
  login sees it, and \<open>pool_login\<close> opens a connection and logs in with the startup
  message and the credentials.
\<close>

definition start_session ::
  "view \<Rightarrow> bool \<Rightarrow> crypto \<Rightarrow> string \<Rightarrow> (string \<Rightarrow> string \<Rightarrow> string + verifier) \<Rightarrow> (bytes list \<Rightarrow> bytes)
    \<Rightarrow> (string \<Rightarrow> string \<Rightarrow> bytes \<Rightarrow> credentials \<Rightarrow> backend_login_error + nat \<times> bytes)
    \<Rightarrow> client_stream \<Rightarrow> start_result" where
  "start_session v require_tls c nonce verifiers client pool_login stream =
    (if require_tls \<and> (case stream of PlainStream _ \<Rightarrow> True | TlsStream _ \<Rightarrow> False) then StartRefused ''FATAL'' ''28000''
     else case read_startup_message (case stream of PlainStream s \<Rightarrow> s | TlsStream s \<Rightarrow> s) of
       Inr (StartupMessage params, _) \<Rightarrow>
         let db = hm_get_or params ''database'' []; u = hm_get_or params ''user'' []
         in
         if draining (routing v) then StartRefused ''FATAL'' ''57P01''
         else if \<not> has_quorum (clock v) (routing v) then StartRefused ''FATAL'' ''57P03''
         else (case zip_option (router_primary_node_id (topology v)) (primary_addr (topology_next v)) of
           None \<Rightarrow> StartRefused ''FATAL'' ''57P03''
         | Some (nid, addr) \<Rightarrow>
         (case verifiers addr u of
           Inl _ \<Rightarrow> StartRefused ''FATAL'' ''57P03''
         | Inr ver \<Rightarrow>
         (case fst (authenticate_client c ver nonce client) of
           Inl Rejected \<Rightarrow> StartRefused ''FATAL'' ''28P01''
         | Inl (Protocol _) \<Rightarrow> StartFailed
         | Inr cred \<Rightarrow>
         (case pool_login nid addr (encode_startup_message params) cred of
           Inl (Refused frame) \<Rightarrow> StartForwarded frame
         | Inl (LoginFailed _) \<Rightarrow> StartRefused ''FATAL'' ''08006''
         | Inr (conn, rest) \<Rightarrow> Started db u nid addr rest conn))))
     | _ \<Rightarrow> StartFailed)"



section \<open>Lemmas\<close>

text \<open>
  What a list of actions does with backend connections: the connection held after
  it, or nothing when it uses one it does not hold, takes one while it holds
  another, or gives back one it does not have.
\<close>

fun uses :: "held option \<Rightarrow> action list \<Rightarrow> held option option" where
  "uses h [] = Some h"
| "uses h (Acquire n a (Inl e) # acts) = (if h = None then uses None acts else None)"
| "uses h (Acquire n a (Inr c) # acts) = (if h = None then uses (Some (c, n, a)) acts else None)"
| "uses h (Forward g raw r # acts) = (if h = Some g then uses h acts else None)"
| "uses h (Release g # acts) = (if h = Some g then uses None acts else None)"
| "uses h (ErrorTo s c # acts) = uses h acts"

lemma uses_append: "uses h (xs @ ys) = Option.bind (uses h xs) (\<lambda>g. uses g ys)"
  by (induction h xs rule: uses.induct) auto

text \<open>A session in a transaction holds a backend.\<close>

definition pinned :: "proxy_connection \<Rightarrow> bool" where
  "pinned pc \<longleftrightarrow> (txn_state (session pc) \<noteq> Idle \<longrightarrow> current pc \<noteq> None)"

text \<open>What every step of the loop keeps.\<close>

definition step_ok :: "proxy_connection \<Rightarrow> flow \<times> proxy_connection \<times> action list \<Rightarrow> bool" where
  "step_ok pc r \<longleftrightarrow> (case r of (fl, pc', acts) \<Rightarrow> pinned pc' \<and> uses (current pc) acts = Some (current pc'))"

lemma step_ok_write_error: "pinned pc \<Longrightarrow> step_ok pc (write_error ans sev code fl pc)"
  by (simp add: step_ok_def write_error_def)

lemma step_ok_after_reply:
  assumes "after_reply rfq pc = (pc', rel)" "current pc = Some h"
  shows "pinned pc'" "uses (current pc) rel = Some (current pc')"
  using assms by (cases h; auto simp: after_reply_def Let_def pinned_def split: if_splits)+

lemma step_ok_send_to:
  assumes "pinned pc" "current pc = None \<or> (\<exists>c. current pc = Some (c, nid, addr))"
  shows "step_ok pc (send_to ans reply raw nid addr pc)"
proof -
  obtain r cur acts where e: "ensure_backend ans nid addr (current pc) = (r, cur, acts)" by (metis prod_cases3)
  have took: "uses (current pc) acts = Some cur" "current pc \<noteq> None \<Longrightarrow> cur = current pc"
    "\<And>h. r = Inr h \<Longrightarrow> cur = Some h"
    using e assms(2) by (auto simp: ensure_backend_def split: sum.splits)
  show ?thesis
  proof (cases r)
    case (Inl x)
    then show ?thesis using took(1,2) e assms(1)
      by (auto simp: send_to_def write_error_def step_ok_def uses_append pinned_def)
  next
    case (Inr h)
    show ?thesis
    proof (cases reply)
      case False
      then show ?thesis using Inr took e assms(1)
        by (auto simp: send_to_def step_ok_def uses_append pinned_def split: sum.splits)
    next
      case True
      have "step_ok pc (case after_reply rfq (pc\<lparr>current := cur\<rparr>) of
          (pc', rel) \<Rightarrow> (Continue, pc', acts @ [Forward h raw (Inr (Some rfq))] @ rel))" for rfq
        using took(1) took(3) [OF Inr] step_ok_after_reply [of rfq "pc\<lparr>current := cur\<rparr>"]
        by (auto simp: step_ok_def uses_append split: prod.split)
      then show ?thesis using True Inr took e assms(1)
        by (auto simp: send_to_def step_ok_def uses_append pinned_def split: sum.splits)
    qed
  qed
qed

lemma pinned_route: "pinned pc \<Longrightarrow> route_intent i (session pc) = (target, s) \<Longrightarrow> pinned (pc\<lparr>session := s\<rparr>)"
  by (cases i) (auto simp: pinned_def split: if_splits)

lemma step_ok_query: "pinned pc \<Longrightarrow> step_ok pc (on_query v ans sql raw pc)"
proof -
  assume pin: "pinned pc"
  obtain target s where r: "route_intent (classify_statement sql) (session pc) = (target, s)" by force
  have pin': "pinned (pc\<lparr>session := s\<rparr>)" by (rule pinned_route [OF pin r])
  have "step_ok (pc\<lparr>session := s\<rparr>) (on_query v ans sql raw pc)"
    using pin' step_ok_send_to [OF pin'] step_ok_write_error [OF pin']
    by (auto simp: on_query_def r Let_def split: option.split)
  then show ?thesis by (simp add: step_ok_def)
qed

lemma step_ok_extended: "pinned pc \<Longrightarrow> step_ok pc (on_extended v ans msg raw pc)"
  using step_ok_send_to [of pc] step_ok_write_error [of pc]
  by (auto simp: on_extended_def split: option.split)

lemma step_ok_message: "pinned pc \<Longrightarrow> step_ok pc (on_message v ans msg raw pc)"
  by (cases msg) (simp_all add: step_ok_query step_ok_extended step_ok_write_error, simp_all add: step_ok_def)

lemma loop_uses:
  "pinned pc \<Longrightarrow> message_loop ms pc = (r, acts) \<Longrightarrow> \<exists>h. uses (current pc) acts = Some h \<and> (r \<longrightarrow> h = None)"
proof (induction ms arbitrary: pc acts)
  case Nil
  then show ?case by (auto simp: release_rest_def split: option.splits)
next
  case (Cons m ms)
  obtain v ans msg raw where m: "m = (v, ans, msg, raw)" by (metis prod_cases4)
  obtain fl pc' now where s: "on_message v ans msg raw pc = (fl, pc', now)" by (metis prod_cases3)
  have ok: "pinned pc'" "uses (current pc) now = Some (current pc')"
    using step_ok_message [OF Cons.prems(1), of v ans msg raw] by (simp_all add: s step_ok_def)
  show ?case
  proof (cases fl)
    case Continue
    obtain more where "message_loop ms pc' = (r, more)" "acts = now @ more"
      using Cons.prems(2) by (auto simp: m s Continue split: prod.splits)
    then show ?thesis using Cons.IH [OF ok(1)] ok(2) by (auto simp: uses_append)
  next
    case Break
    then show ?thesis using Cons.prems(2) ok(2)
      by (auto simp: m s uses_append release_rest_def split: option.splits)
  next
    case Abort
    then show ?thesis using Cons.prems(2) ok(2) by (simp add: m s)
  qed
qed

text \<open>
  The transaction a list of actions leaves open, by the statuses the backends
  reported: \<open>None\<close> when a message of an open transaction goes elsewhere, or its
  backend is given up.
\<close>

definition open_status :: "char \<Rightarrow> bool" where
  "open_status st \<longleftrightarrow> st = CHR ''T'' \<or> st = CHR ''E''"

definition status_of :: "held option \<Rightarrow> held \<Rightarrow> string + char option \<Rightarrow> held option" where
  "status_of h g r =
    (case r of Inr (Some st) \<Rightarrow> if open_status st then Some g else None | _ \<Rightarrow> h)"

fun tracks :: "held option \<Rightarrow> action list \<Rightarrow> held option option" where
  "tracks h [] = Some h"
| "tracks h (Forward g raw r # acts) = (if h = None \<or> h = Some g then tracks (status_of h g r) acts else None)"
| "tracks h (Acquire n a r # acts) = (if h = None then tracks None acts else None)"
| "tracks h (Release g # acts) = (if h = None then tracks None acts else None)"
| "tracks h (ErrorTo s c # acts) = tracks h acts"

definition in_txn :: "proxy_connection \<Rightarrow> held option" where
  "in_txn pc = (if txn_state (session pc) = Idle then None else current pc)"

lemma tracks_append: "tracks h (xs @ ys) = Option.bind (tracks h xs) (\<lambda>g. tracks g ys)"
  by (induction h xs rule: tracks.induct) auto

lemma txn_state_update:
  "txn_state (update_from_ready_for_query st s) = Idle \<longleftrightarrow> \<not> open_status st"
  by (auto simp: update_from_ready_for_query_def open_status_def)

definition step_tracks :: "proxy_connection \<Rightarrow> flow \<times> proxy_connection \<times> action list \<Rightarrow> bool" where
  "step_tracks pc r \<longleftrightarrow> (case r of (fl, pc', acts) \<Rightarrow> tracks (in_txn pc) acts = Some (in_txn pc') \<or> fl = Abort \<and> tracks (in_txn pc) acts \<noteq> None)"

lemma step_tracks_error: "step_tracks pc (write_error ans sev code fl pc)"
  by (simp add: step_tracks_def write_error_def)

lemma step_tracks_send_to:
  assumes "pinned pc" "current pc = None \<or> (\<exists>c. current pc = Some (c, nid, addr))"
  shows "step_tracks pc (send_to ans reply raw nid addr pc)"
proof -
  obtain r cur acts where e: "ensure_backend ans nid addr (current pc) = (r, cur, acts)" by (metis prod_cases3)
  have took: "tracks (in_txn pc) acts = Some (in_txn pc)" "in_txn (pc\<lparr>current := cur\<rparr>) = in_txn pc"
    "\<And>h. r = Inr h \<Longrightarrow> cur = Some h \<and> (in_txn pc = None \<or> in_txn pc = Some h)"
    using e assms by (auto simp: ensure_backend_def in_txn_def pinned_def split: sum.splits)
  have reply: "step_tracks pc (case after_reply rfq (pc\<lparr>current := cur\<rparr>) of
          (pc', rel) \<Rightarrow> (Continue, pc', acts @ [Forward h raw (Inr (Some rfq))] @ rel))" if "r = Inr h" for h rfq
    using took(1) took(3) [OF that] txn_state_update [of rfq "session pc"]
    by (auto simp: step_tracks_def tracks_append after_reply_def in_txn_def status_of_def Let_def)
  show ?thesis
  proof (cases r)
    case (Inl x)
    then show ?thesis using took e
      by (auto simp: send_to_def write_error_def step_tracks_def tracks_append)
  next
    case (Inr h)
    then show ?thesis using took took(3) [OF Inr] e reply [OF Inr]
      by (auto simp: send_to_def step_tracks_def tracks_append status_of_def split: sum.splits)
  qed
qed

lemma step_tracks_message: "pinned pc \<Longrightarrow> step_tracks pc (on_message v ans msg raw pc)"
proof -
  assume pin: "pinned pc"
  have ext: "step_tracks pc (on_extended v ans m raw pc)" for m
    using step_tracks_send_to [OF pin] step_tracks_error [of pc] by (auto simp: on_extended_def split: option.split)
  have query: "step_tracks pc (on_query v ans sql raw pc)" for sql
  proof -
    obtain target s where r: "route_intent (classify_statement sql) (session pc) = (target, s)" by force
    have pin': "pinned (pc\<lparr>session := s\<rparr>)" by (rule pinned_route [OF pin r])
    have "txn_state s = txn_state (session pc)"
      using r by (cases "classify_statement sql") (auto split: if_splits)
    then have "in_txn (pc\<lparr>session := s\<rparr>) = in_txn pc" by (simp add: in_txn_def)
    moreover have "step_tracks (pc\<lparr>session := s\<rparr>) (on_query v ans sql raw pc)"
      using step_tracks_send_to [OF pin'] step_tracks_error [of "pc\<lparr>session := s\<rparr>"]
      by (auto simp: on_query_def r Let_def split: option.split)
    ultimately show ?thesis by (simp add: step_tracks_def)
  qed
  show ?thesis by (cases msg) (simp_all add: ext query step_tracks_error, simp_all add: step_tracks_def)
qed

text \<open>All but the final release of a session tracks its transactions.\<close>

lemma loop_tracks:
  "pinned pc \<Longrightarrow> message_loop ms pc = (r, acts) \<Longrightarrow>
    \<exists>body tail. acts = body @ tail \<and> tracks (in_txn pc) body \<noteq> None \<and> (\<forall>a \<in> set tail. \<exists>h. a = Release h)"
proof (induction ms arbitrary: pc acts)
  case Nil
  then have "\<forall>a \<in> set acts. \<exists>h. a = Release h" by (auto simp: release_rest_def split: option.splits)
  moreover have "acts = [] @ acts" "tracks (in_txn pc) [] \<noteq> None" by simp_all
  ultimately show ?case by blast
next
  case (Cons m ms)
  obtain v ans msg raw where m: "m = (v, ans, msg, raw)" by (metis prod_cases4)
  obtain fl pc' now where s: "on_message v ans msg raw pc = (fl, pc', now)" by (metis prod_cases3)
  have pin: "pinned pc'" using step_ok_message [OF Cons.prems(1), of v ans msg raw] by (simp add: s step_ok_def)
  have tr: "tracks (in_txn pc) now = Some (in_txn pc') \<or> fl = Abort \<and> tracks (in_txn pc) now \<noteq> None"
    using step_tracks_message [OF Cons.prems(1), of v ans msg raw] by (simp add: s step_tracks_def)
  show ?case
  proof (cases fl)
    case Continue
    obtain more where more: "message_loop ms pc' = (r, more)" "acts = now @ more"
      using Cons.prems(2) by (auto simp: m s Continue split: prod.splits)
    obtain body tail where b: "more = body @ tail" "tracks (in_txn pc') body \<noteq> None" "\<forall>a \<in> set tail. \<exists>h. a = Release h"
      using Cons.IH [OF pin more(1)] by blast
    show ?thesis using more(2) b tr Continue
      by (intro exI [of _ "now @ body"] exI [of _ tail]) (auto simp: tracks_append)
  next
    case Break
    then show ?thesis using Cons.prems(2) tr
      by (intro exI [of _ now] exI [of _ "release_rest pc'"]) (auto simp: m s release_rest_def split: option.splits)
  next
    case Abort
    then show ?thesis using Cons.prems(2) tr by (intro exI [of _ now] exI [of _ "[]"]) (auto simp: m s)
  qed
qed

lemma split_before_tail:
  "body @ tail = xs @ y # ys \<Longrightarrow> y \<notin> set tail \<Longrightarrow> \<exists>zs. body = xs @ y # zs"
proof (induction body arbitrary: xs)
  case (Cons b body)
  then show ?case by (cases xs) auto
qed auto

lemma tracks_next_forward:
  "tracks (Some h) (mid @ Forward g raw r # later) \<noteq> None \<Longrightarrow> \<forall>a \<in> set mid. \<forall>k x y. a \<noteq> Forward k x y \<Longrightarrow> g = h"
proof (induction mid)
  case Nil
  then show ?case by (auto split: if_splits)
next
  case (Cons a mid)
  then show ?case by (cases a) (auto split: if_splits)
qed


text \<open>What a message for one backend forwards.\<close>

lemma send_to_forwards:
  assumes "send_to ans reply raw nid addr pc = (fl, pc', acts)" "current pc = None \<or> (\<exists>c. current pc = Some (c, nid, addr))"
    "Forward (c, n, a) raw' r \<in> set acts"
  shows "n = nid \<and> a = addr \<and> raw' = raw"
proof -
  obtain res cur as where e: "ensure_backend ans nid addr (current pc) = (res, cur, as)" by (metis prod_cases3)
  have took: "\<And>h. res = Inr h \<Longrightarrow> snd h = (nid, addr)" "\<And>g x y. Forward g x y \<notin> set as"
    using e assms(2) by (auto simp: ensure_backend_def split: sum.splits)
  have rel: "Forward g x y \<notin> set (snd (after_reply rfq p))" for g x y rfq p
    by (auto simp: after_reply_def Let_def split: option.split)
  show ?thesis
  proof (cases res)
    case (Inl x)
    then show ?thesis using assms(1,3) e took(2) by (auto simp: send_to_def write_error_def split: if_splits)
  next
    case (Inr h)
    then have "snd h = (nid, addr)" by (rule took(1))
    then show ?thesis using assms(1,3) e took(2) Inr rel
      by (auto simp: send_to_def split: if_splits sum.splits prod.splits) (metis snd_conv)+
  qed
qed


section \<open>Properties\<close>

text \<open>C33.  A session uses backend connections as the pool expects: it forwards only on
  a connection it holds, holds one at a time, gives back only what it holds, and
  has given back everything when it ends without an error.\<close>

theorem session_returns_connections:
  assumes "message_loop ms (new_connection db u app) = (r, acts)"
  shows "\<exists>h. uses None acts = Some h \<and> (r \<longrightarrow> h = None)"
  using loop_uses [OF _ assms] by (simp add: pinned_def new_connection_def default_session_def)

text \<open>C30.  A transaction stays on its backend: when a backend reports an open or
  failed transaction, the next message the session forwards, whatever it is, goes
  to the same connection.\<close>

theorem transaction_stays_on_backend:
  assumes "message_loop ms (new_connection db u app) = (r, acts)"
    and "acts = before @ Forward h raw (Inr (Some st)) # mid @ Forward h' raw' r' # later"
    and "open_status st" "\<forall>a \<in> set mid. \<forall>g x y. a \<noteq> Forward g x y"
  shows "h' = h"
proof -
  have "pinned (new_connection db u app)" by (simp add: pinned_def new_connection_def default_session_def)
  from loop_tracks [OF this assms(1)] obtain body tail where
    b: "acts = body @ tail" "tracks (in_txn (new_connection db u app)) body \<noteq> None"
    and tail: "\<forall>a \<in> set tail. \<exists>h. a = Release h" by blast
  have "Forward h' raw' r' \<notin> set tail" using tail by auto
  moreover have "body @ tail = (before @ Forward h raw (Inr (Some st)) # mid) @ Forward h' raw' r' # later"
    using b(1) assms(2) by simp
  ultimately obtain rest where "body = (before @ Forward h raw (Inr (Some st)) # mid) @ Forward h' raw' r' # rest"
    using split_before_tail by metis
  then have "tracks (in_txn (new_connection db u app)) (before @ Forward h raw (Inr (Some st)) # (mid @ Forward h' raw' r' # rest)) \<noteq> None"
    using b(2) by simp
  then have "tracks (Some h) (mid @ Forward h' raw' r' # rest) \<noteq> None"
    using assms(3) by (auto simp: tracks_append status_of_def split: if_splits bind_splits)
  then show ?thesis by (rule tracks_next_forward [OF _ assms(4)])
qed

text \<open>A cluster with one primary, and a session that opens a transaction in it and leaves.\<close>

definition one_node :: cluster_topology where
  "one_node = default_topology\<lparr>primary_node_id := ''a'', node_roles := [(''a'', Primary)],
     node_configs := [(''a'', \<lparr>node_id = ''a'', agent_addr = ''a:7001'', postgres_addr = ''a:5432'', priority = 1, tags = []\<rparr>)]\<rparr>"

definition plain_view :: view where
  "plain_view = \<lparr>clock = 0, routing = new_router True 0, topology = one_node, topology_next = one_node\<rparr>"

definition answering :: "char \<Rightarrow> answers" where
  "answering st = \<lparr>acquired = Inr 7, written = Inr (), piped = Inr st, client_writable = True\<rparr>"

definition demo_session :: "(view \<times> answers \<times> frontend_message \<times> bytes) list" where
  "demo_session = [(plain_view, answering (CHR ''T''), Query ''BEGIN'', ''1''),
     (plain_view, answering (CHR ''T''), Query ''SELECT 1'', ''2''), (plain_view, answering (CHR ''T''), Terminate, ''3'')]"

lemma demo_session_run:
  "message_loop demo_session (new_connection ''shop'' ''app'' []) = (True,
    [Acquire ''a'' ''a:5432'' (Inr 7), Forward (7, ''a'', ''a:5432'') ''1'' (Inr (Some (CHR ''T''))),
     Forward (7, ''a'', ''a:5432'') ''2'' (Inr (Some (CHR ''T''))), Release (7, ''a'', ''a:5432'')])"
  by code_simp

theorem session_returns_connections_witness:
  "\<exists>h. uses None [Acquire ''a'' ''a:5432'' (Inr 7), Forward (7, ''a'', ''a:5432'') ''1'' (Inr (Some (CHR ''T''))),
     Forward (7, ''a'', ''a:5432'') ''2'' (Inr (Some (CHR ''T''))), Release (7, ''a'', ''a:5432'')] = Some h
   \<and> (True \<longrightarrow> h = None)"
  by (rule session_returns_connections [OF demo_session_run])

theorem transaction_stays_on_backend_witness:
  "((7, ''a'', ''a:5432'') :: held) = (7, ''a'', ''a:5432'')"
  by (rule transaction_stays_on_backend [OF demo_session_run, where mid = "[]" and st = "CHR ''T''" and raw = "''1''" and raw' = "''2''"
        and before = "[Acquire ''a'' ''a:5432'' (Inr 7)]"]) (simp_all add: open_status_def)



text \<open>C35.  A session starts only for a client on TLS when TLS is required, while the
  proxy neither drains nor lacks the quorum, and only with credentials that the
  client's login proved against the verifier of its user at the primary; and the
  backend sees the parameters the client sent.\<close>

theorem session_starts_authenticated:
  assumes "start_session v require_tls c nonce verifiers client pool_login stream = Started db u nid addr rest conn"
  shows "(require_tls \<longrightarrow> (\<exists>s. stream = TlsStream s)) \<and> \<not> draining (routing v) \<and> has_quorum (clock v) (routing v)
    \<and> (\<exists>ver cred params. verifiers addr u = Inr ver \<and> fst (authenticate_client c ver nonce client) = Inr cred
        \<and> pool_login nid addr (encode_startup_message params) cred = Inr (conn, rest)
        \<and> u = hm_get_or params ''user'' [] \<and> db = hm_get_or params ''database'' []
        \<and> router_primary_node_id (topology v) = Some nid \<and> primary_addr (topology_next v) = Some addr)"
proof -
  have tls: "require_tls \<longrightarrow> (\<exists>s. stream = TlsStream s)"
    using assms by (cases stream) (auto simp: start_session_def)
  obtain params rest' where startup: "read_startup_message (case stream of PlainStream s \<Rightarrow> s | TlsStream s \<Rightarrow> s)
      = Inr (StartupMessage params, rest')"
    using assms unfolding start_session_def
    by (auto split: if_splits sum.splits prod.splits frontend_message.splits)
  let ?u = "hm_get_or params ''user'' []"
  have checks: "\<not> draining (routing v)" "has_quorum (clock v) (routing v)"
    using assms tls by (auto simp: start_session_def startup Let_def split: if_splits)
  obtain n a where pair: "zip_option (router_primary_node_id (topology v)) (primary_addr (topology_next v)) = Some (n, a)"
    using assms tls checks by (auto simp: start_session_def startup Let_def split: if_splits option.splits)
  obtain ver where ver: "verifiers a ?u = Inr ver"
    using assms tls checks by (auto simp: start_session_def startup Let_def pair split: if_splits sum.splits)
  obtain cred where cred: "fst (authenticate_client c ver nonce client) = Inr cred"
    using assms tls checks
    by (auto simp: start_session_def startup Let_def pair ver split: if_splits sum.splits client_auth_error.splits)
  have "pool_login n a (encode_startup_message params) cred = Inr (conn, rest)" "n = nid" "a = addr"
    "u = ?u" "db = hm_get_or params ''database'' []"
    using assms tls checks
    by (auto simp: start_session_def startup Let_def pair ver cred split: if_splits sum.splits backend_login_error.splits)
  then show ?thesis using tls checks pair ver cred unfolding zip_option_Some by blast
qed

definition demo_start :: start_result where
  "demo_start = start_session plain_view True toy_crypto ''efgh'' (\<lambda>_ _. Inr toy_verifier)
     (scram_client toy_crypto \<lparr>client_key = hmac toy_crypto (salted_password toy_crypto ''secret'' ''salt'' 2) ''Client Key'',
        cred_verifier = toy_verifier\<rparr> ''abcd'')
     (\<lambda>_ _ _ _. Inr (3, ''Z'')) (TlsStream (encode_startup_message demo_params))"

theorem session_starts_authenticated_witness:
  "demo_start = Started ''shop'' ''app'' ''a'' ''a:5432'' ''Z'' 3 \<and> has_quorum (clock plain_view) (routing plain_view)"
proof -
  have "demo_start = Started ''shop'' ''app'' ''a'' ''a:5432'' ''Z'' 3" by code_simp
  then show ?thesis using session_starts_authenticated unfolding demo_start_def by blast
qed

text \<open>
  A drain refuses simple queries between transactions, but a message of the
  extended protocol still reaches the primary; and a client that leaves in a
  transaction gives its backend to the pool with the transaction open.
\<close>

lemma drain_lets_extended_queries_through:
  "Forward (7, ''a'', ''a:5432'') ''1'' (Inr None) \<in> set (snd (snd (on_message
     (plain_view\<lparr>routing := router_begin_drain (new_router True 0)\<rparr>) (answering (CHR ''I''))
     (Parse [] ''DELETE FROM t'' []) ''1'' (new_connection ''shop'' ''app'' []))))"
  by code_simp

lemma open_transaction_is_pooled:
  "\<exists>before h raw. snd (message_loop demo_session (new_connection ''shop'' ''app'' []))
    = before @ [Forward h raw (Inr (Some (CHR ''T''))), Release h]"
  by (rule exI [of _ "take 2 (snd (message_loop demo_session (new_connection ''shop'' ''app'' [])))"])
    (simp add: demo_session_run)

text \<open>A statement is routed by its first word, so a write after a read goes where the read may go.\<close>

lemma write_after_read_is_a_read: "classify_statement ''SELECT 1; DROP TABLE t'' = ReadIntent"
  by code_simp

end
