(* ===== verification/Conn_Pool.thy ===== *)
theory Conn_Pool
  imports Prelude "HOL-Library.Multiset"
begin

text \<open>
  The pool of backend connections (\<open>proxy/pool.rs\<close>).  A bucket is shared by the
  tasks of all clients of one database, user and backend, by the reaper and by
  drains; each rule of \<open>act\<close> is one access to what they share: the list behind its
  lock, or the atomic counter.  Any task may act next, so a theorem about the
  reachable states holds for every interleaving.  Whether a connection is alive
  and whether a login succeeds is left open.  Connections are numbered in the
  order they are opened.
\<close>

section \<open>Keys\<close>

record pool_key =
  database :: string
  user :: string
  backend :: string

definition new_pool_key :: "string \<Rightarrow> string \<Rightarrow> string \<Rightarrow> string \<Rightarrow> pool_key" where
  "new_pool_key db u n addr = \<lparr>database = db, user = u, backend = n @ '':'' @ addr\<rparr>"

definition string_key :: "pool_key \<Rightarrow> string" where
  "string_key k = database k @ ''|'' @ user k @ ''|'' @ backend k"


section \<open>A bucket\<close>

record pool_bucket =
  idle :: "nat list"
  conn_total :: u64
  bucket_max :: u64
  lock :: "nat option"
  opened :: nat

definition new_bucket :: "u64 \<Rightarrow> pool_bucket" where
  "new_bucket m = \<lparr>idle = [], conn_total = 0, bucket_max = m, lock = None, opened = 0\<rparr>"

definition increment :: "pool_bucket \<Rightarrow> pool_bucket" where
  "increment b = b\<lparr>conn_total := conn_total b + 1\<rparr>"

definition decrement :: "pool_bucket \<Rightarrow> pool_bucket" where
  "decrement b = b\<lparr>conn_total := conn_total b - 1\<rparr>"

text \<open>Where a task is: in \<open>acquire\<close>, with a connection, in \<open>release\<close>, in \<open>inject\<close>, in
  \<open>drain_backend\<close>, or in \<open>evict_idle\<close>.\<close>

datatype phase =
    Acquiring | Popping | Discarding | Checking | Reserving | LoggingIn | Waiting
  | Using nat
  | Releasing nat | Dropping
  | Injecting nat | Injected nat | InjectLocked nat | EvictedOldest nat
  | DrainStart | Draining nat
  | EvictStart | Evicting "nat list" "nat list"
  | LostConn nat
  | Ended

inductive act :: "nat \<Rightarrow> pool_bucket \<Rightarrow> phase \<Rightarrow> pool_bucket \<Rightarrow> phase \<Rightarrow> bool" for i :: nat where
  take_lock: "lock b = None \<Longrightarrow> act i b Acquiring (b\<lparr>lock := Some i\<rparr>) Popping"
| pop_alive: "idle b = xs @ [c] \<Longrightarrow> act i b Popping (b\<lparr>idle := xs, lock := None\<rparr>) (Using c)"
| pop_broken: "idle b = xs @ [c] \<Longrightarrow> act i b Popping (b\<lparr>idle := xs\<rparr>) Discarding"
| discard: "act i b Discarding (decrement b) Popping"
| pop_none: "idle b = [] \<Longrightarrow> act i b Popping (b\<lparr>lock := None\<rparr>) Checking"
| below_max: "conn_total b < bucket_max b \<Longrightarrow> act i b Checking b Reserving"
| at_max: "\<not> conn_total b < bucket_max b \<Longrightarrow> act i b Checking b Waiting"
| reserve: "act i b Reserving (increment b) LoggingIn"
| login_ok: "act i b LoggingIn (b\<lparr>opened := opened b + 1\<rparr>) (Using (opened b))"
| login_failed: "act i b LoggingIn b Dropping"
| drop_counted: "act i b Dropping (decrement b) Ended"
| woken: "act i b Waiting b Acquiring"
| exhausted: "act i b Waiting b Ended"
| give_back: "act i b (Using c) b (Releasing c)"
| session_error: "act i b (Using c) b (LostConn c)"
| release_alive: "lock b = None \<Longrightarrow> act i b (Releasing c) (b\<lparr>idle := idle b @ [c]\<rparr>) Ended"
| release_broken: "act i b (Releasing c) b Dropping"
| inject_count: "act i b (Injecting c) (increment b) (Injected c)"
| inject_lock: "lock b = None \<Longrightarrow> act i b (Injected c) (b\<lparr>lock := Some i\<rparr>) (InjectLocked c)"
| inject_room: "length (idle b) < unat (bucket_max b) \<Longrightarrow>
    act i b (InjectLocked c) (b\<lparr>idle := idle b @ [c], lock := None\<rparr>) Ended"
| inject_full: "unat (bucket_max b) \<le> length (idle b) \<Longrightarrow> idle b = d # xs \<Longrightarrow>
    act i b (InjectLocked c) (b\<lparr>idle := xs\<rparr>) (EvictedOldest c)"
| inject_panic: "unat (bucket_max b) \<le> length (idle b) \<Longrightarrow> idle b = [] \<Longrightarrow>
    act i b (InjectLocked c) (b\<lparr>lock := None\<rparr>) (LostConn c)"
| inject_push: "act i b (EvictedOldest c) ((decrement b)\<lparr>idle := idle b @ [c], lock := None\<rparr>) Ended"
| drain_clear: "lock b = None \<Longrightarrow> act i b DrainStart (b\<lparr>idle := []\<rparr>) (Draining (length (idle b)))"
| drain_count: "act i b (Draining (Suc n)) (decrement b) (Draining n)"
| drain_end: "act i b (Draining 0) b Ended"
| evict_lock: "lock b = None \<Longrightarrow>
    act i b EvictStart (b\<lparr>idle := [], lock := Some i\<rparr>) (Evicting (idle b) [])"
| evict_old: "act i b (Evicting (c # cs) kept) (decrement b) (Evicting cs kept)"
| evict_keep: "act i b (Evicting (c # cs) kept) b (Evicting cs (kept @ [c]))"
| evict_end: "act i b (Evicting [] kept) (b\<lparr>idle := kept, lock := None\<rparr>) Ended"

text \<open>A task acts, or a new one starts; a task that injects brings a connection of its own.\<close>

inductive pool_step :: "pool_bucket \<times> phase list \<Rightarrow> pool_bucket \<times> phase list \<Rightarrow> bool" where
  acts: "i < length ts \<Longrightarrow> act i b (ts ! i) b' p \<Longrightarrow> pool_step (b, ts) (b', ts[i := p])"
| starts: "p \<in> {Acquiring, DrainStart, EvictStart} \<Longrightarrow> pool_step (b, ts) (b, ts @ [p])"
| injects: "pool_step (b, ts) (b\<lparr>opened := opened b + 1\<rparr>, ts @ [Injecting (opened b)])"

inductive reachable :: "u64 \<Rightarrow> pool_bucket \<times> phase list \<Rightarrow> bool" for m where
  fresh: "reachable m (new_bucket m, [])"
| step: "reachable m s \<Longrightarrow> pool_step s s' \<Longrightarrow> reachable m s'"


section \<open>Lemmas\<close>

subsection \<open>What a task holds\<close>

text \<open>How much of the counter a task accounts for, the connections it has, and whether it has the lock.\<close>

fun weight :: "phase \<Rightarrow> nat" where
  "weight Discarding = 1"
| "weight LoggingIn = 1"
| "weight (Using _) = 1"
| "weight (Releasing _) = 1"
| "weight Dropping = 1"
| "weight (Injected _) = 1"
| "weight (InjectLocked _) = 1"
| "weight (EvictedOldest _) = 2"
| "weight (Draining n) = n"
| "weight (Evicting cs kept) = length cs + length kept"
| "weight (LostConn _) = 1"
| "weight _ = 0"

fun holds :: "phase \<Rightarrow> nat multiset" where
  "holds (Using c) = {#c#}"
| "holds (Releasing c) = {#c#}"
| "holds (Injecting c) = {#c#}"
| "holds (Injected c) = {#c#}"
| "holds (InjectLocked c) = {#c#}"
| "holds (EvictedOldest c) = {#c#}"
| "holds (Evicting cs kept) = mset cs + mset kept"
| "holds (LostConn c) = {#c#}"
| "holds _ = {#}"

fun locks :: "phase \<Rightarrow> bool" where
  "locks Popping = True"
| "locks Discarding = True"
| "locks (InjectLocked _) = True"
| "locks (EvictedOldest _) = True"
| "locks (Evicting _ _) = True"
| "locks _ = False"

fun evicts :: "phase \<Rightarrow> bool" where
  "evicts (Evicting _ _) = True"
| "evicts _ = False"

lemmas bucket_ops = increment_def decrement_def

text \<open>What one access keeps.  The list changes only under the lock.\<close>

lemma act_locks: "act i b p b' p' \<Longrightarrow> locks p \<longleftrightarrow> lock b = Some i \<Longrightarrow>
    (locks p' \<longleftrightarrow> lock b' = Some i) \<and> (lock b' = lock b \<or> lock b \<in> {None, Some i} \<and> lock b' \<in> {None, Some i})"
  by (induction rule: act.induct) (auto simp: bucket_ops)

lemma act_idle: "act i b p b' p' \<Longrightarrow> locks p \<longleftrightarrow> lock b = Some i \<Longrightarrow> idle b' = idle b \<or> lock b \<in> {None, Some i}"
  by (induction rule: act.induct) (auto simp: bucket_ops)

lemma act_evicts: "act i b p b' p' \<Longrightarrow> evicts p \<longrightarrow> idle b = [] \<Longrightarrow> evicts p' \<longrightarrow> idle b' = []"
  by (induction rule: act.induct) (auto simp: bucket_ops)

lemma act_total: "act i b p b' p' \<Longrightarrow> evicts p \<longrightarrow> idle b = [] \<Longrightarrow>
    conn_total b' + of_nat (length (idle b)) + of_nat (weight p)
      = conn_total b + of_nat (length (idle b')) + of_nat (weight p')"
  by (induction rule: act.induct) (auto simp: bucket_ops)

lemma act_holds: "act i b p b' p' \<Longrightarrow> evicts p \<longrightarrow> idle b = [] \<Longrightarrow>
    opened b' = opened b \<and> mset (idle b') + holds p' \<subseteq># mset (idle b) + holds p
    \<or> opened b' = opened b + 1 \<and> mset (idle b') + holds p' = mset (idle b) + holds p + {#opened b#}"
  by (induction rule: act.induct) (auto simp: bucket_ops)

lemma act_max: "act i b p b' p' \<Longrightarrow> bucket_max b' = bucket_max b"
  by (induction rule: act.induct) (auto simp: bucket_ops)

subsection \<open>The invariant\<close>

definition weights :: "phase list \<Rightarrow> nat" where
  "weights ts = sum_list (map weight ts)"

definition places :: "pool_bucket \<Rightarrow> phase list \<Rightarrow> nat multiset" where
  "places b ts = mset (idle b) + sum_list (map holds ts)"

definition pool_inv :: "pool_bucket \<times> phase list \<Rightarrow> bool" where
  "pool_inv s \<longleftrightarrow> (case s of (b, ts) \<Rightarrow>
    (\<forall>i. i < length ts \<longrightarrow> (locks (ts ! i) \<longleftrightarrow> lock b = Some i))
    \<and> (\<forall>i. lock b = Some i \<longrightarrow> i < length ts)
    \<and> ((\<exists>p \<in> set ts. evicts p) \<longrightarrow> idle b = [])
    \<and> conn_total b = of_nat (length (idle b)) + of_nat (weights ts)
    \<and> (\<forall>c. count (places b ts) c \<le> 1) \<and> (\<forall>c. c \<in># places b ts \<longrightarrow> c < opened b))"

lemma split_task:
  assumes "i < length ts"
  obtains ys zs where "ts = ys @ ts ! i # zs" "\<And>p. ts[i := p] = ys @ p # zs"
  using id_take_nth_drop [OF assms] upd_conv_take_nth_drop [OF assms] by blast

lemma evicts_locks: "evicts p \<Longrightarrow> locks p"
  by (cases p) simp_all

text \<open>One and two members of a sum.\<close>

lemma one_of_sum: "k < length xs \<Longrightarrow> f (xs ! k) \<subseteq># sum_list (map f xs)"
proof (induction xs arbitrary: k)
  case (Cons x xs)
  then show ?case by (cases k) (auto intro: subset_mset.add_increasing)
qed simp

lemma two_of_sum:
  "i < length ts \<Longrightarrow> j < length ts \<Longrightarrow> i \<noteq> j \<Longrightarrow> f (ts ! i) + f (ts ! j) \<subseteq># sum_list (map f ts)"
proof (induction ts arbitrary: i j)
  case (Cons x xs)
  have one: "k < length xs \<Longrightarrow> f (xs ! k) \<subseteq># sum_list (map f xs)" for k by (rule one_of_sum)
  show ?case
  proof (cases i; cases j)
    fix i' j' assume "i = Suc i'" "j = Suc j'"
    then show ?thesis using Cons.IH [of i' j'] Cons.prems by (simp add: subset_mset.add_increasing)
  qed (use Cons.prems one in \<open>auto simp: add.commute subset_mset.add_left_mono\<close>)
qed simp

lemma mset_le_count: "(A :: nat multiset) \<subseteq># B \<Longrightarrow> count A c \<le> count B c"
  by (rule mset_subset_eq_count)

lemma pool_inv_acts:
  assumes inv: "pool_inv (b, ts)" and i: "i < length ts" and act: "act i b (ts ! i) b' p"
  shows "pool_inv (b', ts[i := p])"
proof -
  have locks: "\<And>j. j < length ts \<Longrightarrow> locks (ts ! j) \<longleftrightarrow> lock b = Some j" "\<And>j. lock b = Some j \<Longrightarrow> j < length ts"
    and evict: "\<And>q. q \<in> set ts \<Longrightarrow> evicts q \<Longrightarrow> idle b = []"
    and total: "conn_total b = of_nat (length (idle b)) + of_nat (weights ts)"
    and once: "\<And>c. count (places b ts) c \<le> 1" and old: "\<And>c. c \<in># places b ts \<Longrightarrow> c < opened b"
    using inv by (auto simp: pool_inv_def)
  have own: "locks (ts ! i) \<longleftrightarrow> lock b = Some i" by (rule locks(1) [OF i])
  have mine: "evicts (ts ! i) \<longrightarrow> idle b = []" using evict [of "ts ! i"] i by simp
  note L = act_locks [OF act own]
  have others: "locks (ts ! j) \<longleftrightarrow> lock b' = Some j" if "j < length ts" "j \<noteq> i" for j
    using locks(1) [OF that(1)] L that(2) by auto
  have 1: "locks (ts[i := p] ! j) \<longleftrightarrow> lock b' = Some j" if "j < length ts" for j
    using that others [OF that] L by (cases "j = i") simp_all
  have 2: "lock b' = Some j \<Longrightarrow> j < length ts" for j using L locks(2) i by auto
  obtain ys zs where split: "ts = ys @ ts ! i # zs" "\<And>q. ts[i := q] = ys @ q # zs"
    using split_task [OF i] by metis
  have 3: "idle b' = []" if q: "q \<in> set (ts[i := p])" "evicts q" for q
  proof -
    obtain j where j: "j < length ts" "q = ts[i := p] ! j" using q(1) by (metis in_set_conv_nth length_list_update)
    show ?thesis
    proof (cases "j = i")
      case True
      then show ?thesis using act_evicts [OF act mine] q(2) j i by simp
    next
      case False
      then have held: "evicts (ts ! j)" "lock b = Some j"
        using q(2) j locks(1) [OF j(1)] evicts_locks by auto
      then have "idle b' = idle b" using act_idle [OF act own] False by auto
      then show ?thesis using evict [of "ts ! j"] held(1) j(1) by simp
    qed
  qed
  have w: "weights ts = weight (ts ! i) + weights (ys @ zs)" "weights (ts[i := p]) = weight p + weights (ys @ zs)"
    by (subst split(1)) (simp_all add: weights_def split(2))
  have 4: "conn_total b' = of_nat (length (idle b')) + of_nat (weights (ts[i := p]))"
    using act_total [OF act mine] total unfolding w by (simp add: algebra_simps)
  let ?R = "sum_list (map holds (ys @ zs))"
  have pl: "places b ts = (mset (idle b) + holds (ts ! i)) + ?R"
    "places b' (ts[i := p]) = (mset (idle b') + holds p) + ?R"
    by (subst split(1)) (simp_all add: places_def split(2))
  have 5: "count (places b' (ts[i := p])) c \<le> 1 \<and> (c \<in># places b' (ts[i := p]) \<longrightarrow> c < opened b')" for c
    using act_holds [OF act mine]
  proof
    assume h: "opened b' = opened b \<and> mset (idle b') + holds p \<subseteq># mset (idle b) + holds (ts ! i)"
    then have sub: "places b' (ts[i := p]) \<subseteq># places b ts" unfolding pl by (simp add: subset_mset.add_right_mono)
    then have "count (places b' (ts[i := p])) c \<le> count (places b ts) c" by (rule mset_le_count)
    then show ?thesis using once [of c] old [of c] mset_subset_eqD [OF sub] h by fastforce
  next
    assume h: "opened b' = opened b + 1 \<and> mset (idle b') + holds p = mset (idle b) + holds (ts ! i) + {#opened b#}"
    then have eq: "places b' (ts[i := p]) = places b ts + {#opened b#}" unfolding pl by simp
    have "count (places b ts) (opened b) = 0" using old [of "opened b"] by (metis less_irrefl not_in_iff)
    then show ?thesis unfolding eq using once [of c] old [of c] h by auto
  qed
  show ?thesis unfolding pool_inv_def prod.case length_list_update using 1 2 3 4 5 by blast
qed

lemma pool_inv_arrival:
  assumes "pool_inv (b, ts)" "\<not> locks p" "weight p = 0"
    "holds p = {#} \<and> b' = b \<or> holds p = {#opened b#} \<and> b' = b\<lparr>opened := opened b + 1\<rparr>"
  shows "pool_inv (b', ts @ [p])"
proof -
  have locks: "\<And>j. j < length ts \<Longrightarrow> locks (ts ! j) \<longleftrightarrow> lock b = Some j" "\<And>j. lock b = Some j \<Longrightarrow> j < length ts"
    and evict: "\<And>q. q \<in> set ts \<Longrightarrow> evicts q \<Longrightarrow> idle b = []"
    and total: "conn_total b = of_nat (length (idle b)) + of_nat (weights ts)"
    and once: "\<And>c. count (places b ts) c \<le> 1" and old: "\<And>c. c \<in># places b ts \<Longrightarrow> c < opened b"
    using assms(1) by (auto simp: pool_inv_def)
  have same: "lock b' = lock b" "idle b' = idle b" "conn_total b' = conn_total b" "opened b \<le> opened b'"
    using assms(4) by auto
  have 1: "locks ((ts @ [p]) ! j) \<longleftrightarrow> lock b = Some j" if "j < length (ts @ [p])" for j
    using that locks assms(2) by (cases "j < length ts") (auto simp: nth_append)
  have 2: "evicts q \<Longrightarrow> q \<in> set (ts @ [p]) \<Longrightarrow> idle b = []" for q
    using evict evicts_locks assms(2) by auto
  have "count (places b ts) (opened b) = 0" using old [of "opened b"] by (metis less_irrefl not_in_iff)
  moreover have eq: "places b' (ts @ [p]) = places b ts + holds p" by (simp add: places_def same)
  ultimately have 3: "count (places b' (ts @ [p])) c \<le> 1 \<and> (c \<in># places b' (ts @ [p]) \<longrightarrow> c < opened b')" for c
    unfolding eq using assms(4) once [of c] old [of c] by auto
  have 4: "lock b = Some j \<Longrightarrow> j < length (ts @ [p])" for j using locks(2) [of j] by simp
  show ?thesis unfolding pool_inv_def prod.case same
    using 1 2 3 4 total assms(3) by (simp add: weights_def) blast
qed

lemma reachable_inv: "reachable m s \<Longrightarrow> pool_inv s \<and> bucket_max (fst s) = m"
proof (induction rule: reachable.induct)
  case fresh
  then show ?case by (simp add: pool_inv_def new_bucket_def weights_def places_def)
next
  case (step s s')
  from step.hyps(2) show ?case
  proof cases
    case (acts i ts b b' p)
    then show ?thesis using step.IH pool_inv_acts act_max by fastforce
  next
    case (starts p b ts)
    then show ?thesis using step.IH pool_inv_arrival [of b ts p b] by auto
  next
    case (injects b ts)
    then show ?thesis
      using step.IH pool_inv_arrival [of b ts "Injecting (opened b)" "b\<lparr>opened := opened b + 1\<rparr>"] by auto
  qed
qed

subsection \<open>Runs\<close>

lemma reachable_acts:
  "reachable m (b, ts) \<Longrightarrow> i < length ts \<Longrightarrow> act i b (ts ! i) b' p \<Longrightarrow> s' = (b', ts[i := p]) \<Longrightarrow> reachable m s'"
  by (auto intro: reachable.step pool_step.acts)

lemma reachable_starts: "reachable m (b, ts) \<Longrightarrow> p \<in> {Acquiring, DrainStart, EvictStart} \<Longrightarrow> reachable m (b, ts @ [p])"
  by (blast intro: reachable.step pool_step.starts)

text \<open>Two tasks that both find the bucket empty and below its limit.\<close>

abbreviation "bucket_at t k \<equiv> \<lparr>idle = [], conn_total = t, bucket_max = 1, lock = None, opened = k\<rparr>"
abbreviation "locked_bucket i \<equiv> \<lparr>idle = [], conn_total = 0, bucket_max = 1, lock = Some i, opened = 0\<rparr>"

lemma both_reserving: "reachable 1 (bucket_at 0 0, [Reserving, Reserving])"
proof -
  have "reachable 1 (bucket_at 0 0, [])" using reachable.fresh [of 1] by (simp add: new_bucket_def)
  then have "reachable 1 (bucket_at 0 0, [Acquiring, Acquiring])"
    using reachable_starts [of 1 _ "[]" Acquiring] reachable_starts [of 1 _ "[Acquiring]" Acquiring] by simp
  then have "reachable 1 (locked_bucket 0, [Popping, Acquiring])"
    by (rule reachable_acts [where i = 0 and b' = "locked_bucket 0" and p = Popping])
      (use take_lock [of "bucket_at 0 0" 0] in simp_all)
  then have "reachable 1 (bucket_at 0 0, [Checking, Acquiring])"
    by (rule reachable_acts [where i = 0 and b' = "bucket_at 0 0" and p = Checking])
      (use pop_none [of "locked_bucket 0" 0] in simp_all)
  then have "reachable 1 (bucket_at 0 0, [Reserving, Acquiring])"
    by (rule reachable_acts [where i = 0 and b' = "bucket_at 0 0" and p = Reserving])
      (use below_max [of "bucket_at 0 0" 0] in simp_all)
  then have "reachable 1 (locked_bucket 1, [Reserving, Popping])"
    by (rule reachable_acts [where i = 1 and b' = "locked_bucket 1" and p = Popping])
      (use take_lock [of "bucket_at 0 0" 1] in simp_all)
  then have "reachable 1 (bucket_at 0 0, [Reserving, Checking])"
    by (rule reachable_acts [where i = 1 and b' = "bucket_at 0 0" and p = Checking])
      (use pop_none [of "locked_bucket 1" 1] in simp_all)
  then show ?thesis
    by (rule reachable_acts [where i = 1 and b' = "bucket_at 0 0" and p = Reserving])
      (use below_max [of "bucket_at 0 0" 1] in simp_all)
qed

text \<open>The check of the limit and the reservation are two accesses, so both tasks open
  a connection although the limit is one.\<close>

lemma limit_is_raced: "reachable 1 (bucket_at 2 2, [Using 0, Using 1])"
proof -
  have "reachable 1 (bucket_at 1 0, [LoggingIn, Reserving])"
    by (rule reachable_acts [OF both_reserving, where i = 0 and b' = "bucket_at 1 0" and p = LoggingIn])
      (use reserve [of 0 "bucket_at 0 0"] in \<open>simp_all add: increment_def\<close>)
  then have "reachable 1 (bucket_at 2 0, [LoggingIn, LoggingIn])"
    by (rule reachable_acts [where i = 1 and b' = "bucket_at 2 0" and p = LoggingIn])
      (use reserve [of 1 "bucket_at 1 0"] in \<open>simp_all add: increment_def\<close>)
  then have "reachable 1 (bucket_at 2 1, [Using 0, LoggingIn])"
    by (rule reachable_acts [where i = 0 and b' = "bucket_at 2 1" and p = "Using 0"])
      (use login_ok [of 0 "bucket_at 2 0"] in simp_all)
  then show ?thesis
    by (rule reachable_acts [where i = 1 and b' = "bucket_at 2 2" and p = "Using 1"])
      (use login_ok [of 1 "bucket_at 2 1"] in \<open>simp_all add: numeral_2_eq_2\<close>)
qed

text \<open>A session that ends in an error keeps its place in the counter for ever.\<close>

lemma lost_connections_fill_the_bucket:
  "reachable 1 (bucket_at 2 2, [LostConn 0, LostConn 1])" "\<not> act i (bucket_at 2 2) Checking b' Reserving"
proof -
  have "reachable 1 (bucket_at 2 2, [LostConn 0, Using 1])"
    by (rule reachable_acts [OF limit_is_raced, where i = 0 and b' = "bucket_at 2 2" and p = "LostConn 0"])
      (use session_error [of 0 "bucket_at 2 2" 0] in simp_all)
  then show "reachable 1 (bucket_at 2 2, [LostConn 0, LostConn 1])"
    by (rule reachable_acts [where i = 1 and b' = "bucket_at 2 2" and p = "LostConn 1"])
      (use session_error [of 1 "bucket_at 2 2" 1] in simp_all)
  show "\<not> act i (bucket_at 2 2) Checking b' Reserving" by (auto elim: act.cases)
qed


section \<open>Properties\<close>

text \<open>C29.  No backend connection is ever in two hands: in every interleaving of
  clients, drains and the reaper, a connection one task has is with no other
  task and not among the idle ones, and no connection is idle twice.\<close>

theorem connection_never_shared:
  assumes "reachable m (b, ts)" "i < length ts" "j < length ts" "i \<noteq> j" "c \<in># holds (ts ! i)"
  shows "c \<notin># holds (ts ! j) \<and> c \<notin> set (idle b) \<and> distinct (idle b)"
proof -
  have once: "count (places b ts) d \<le> 1" for d
    using reachable_inv [OF assms(1)] by (simp add: pool_inv_def)
  have "holds (ts ! i) + holds (ts ! j) \<subseteq># sum_list (map holds ts)"
    using assms(2-4) by (rule two_of_sum)
  then have "count (holds (ts ! i)) c + count (holds (ts ! j)) c \<le> count (sum_list (map holds ts)) c"
    using mset_le_count by fastforce
  moreover have "0 < count (holds (ts ! i)) c" using assms(5) by simp
  moreover have "count (mset (idle b)) c + count (sum_list (map holds ts)) c \<le> 1"
    using once [of c] by (simp add: places_def)
  ultimately have "count (holds (ts ! j)) c = 0" "count (mset (idle b)) c = 0" by linarith+
  moreover have "count (mset (idle b)) d \<le> 1" for d using once [of d] by (simp add: places_def)
  then have "distinct (idle b)" unfolding distinct_count_atmost_1 by (auto simp: le_Suc_eq count_eq_zero_iff)
  ultimately show ?thesis by (simp add: not_in_iff [symmetric] count_eq_zero_iff)
qed

theorem connection_never_shared_witness:
  "0 \<notin># holds (Using 1) \<and> 0 \<notin> set (idle (bucket_at 2 2)) \<and> distinct (idle (bucket_at 2 2))"
  using connection_never_shared [OF limit_is_raced, of 0 1 0] by simp



text \<open>Two sessions get the same bucket exactly when they have the same database,
  user and backend, as long as no database and no user name contains a bar.\<close>

theorem string_key_injective:
  assumes "CHR ''|'' \<notin> set (database k)" "CHR ''|'' \<notin> set (user k)"
    "CHR ''|'' \<notin> set (database j)" "CHR ''|'' \<notin> set (user j)"
  shows "string_key k = string_key j \<longleftrightarrow> k = j"
proof
  assume eq: "string_key k = string_key j"
  have split: "split_once (CHR ''|'') (string_key q) = Some (database q, user q @ CHR ''|'' # backend q)"
    "split_once (CHR ''|'') (user q @ CHR ''|'' # backend q) = Some (user q, backend q)" if "q \<in> {k, j}" for q
    using that assms split_once_append [of "CHR ''|''" "database q"] split_once_append [of "CHR ''|''" "user q"]
    by (auto simp: string_key_def)
  have first: "database k = database j \<and> user k @ CHR ''|'' # backend k = user j @ CHR ''|'' # backend j"
    using split(1) [of k] split(1) [of j] eq by simp
  have "Some (user k, backend k) = split_once (CHR ''|'') (user k @ CHR ''|'' # backend k)"
    by (rule split(2) [symmetric]) simp
  also have "\<dots> = split_once (CHR ''|'') (user j @ CHR ''|'' # backend j)"
    by (rule arg_cong [OF conjunct2 [OF first]])
  also have "\<dots> = Some (user j, backend j)" by (rule split(2)) simp
  finally have "user k = user j \<and> backend k = backend j" by simp
  with first have "database k = database j" "user k = user j" "backend k = backend j" by blast+
  then show "k = j" by simp
qed simp

theorem string_key_injective_witness:
  "string_key (new_pool_key ''shop'' ''app'' ''pg1'' ''db:5432'')
    \<noteq> string_key (new_pool_key ''shop'' ''admin'' ''pg1'' ''db:5432'')"
  using string_key_injective [of "new_pool_key ''shop'' ''app'' ''pg1'' ''db:5432''"
      "new_pool_key ''shop'' ''admin'' ''pg1'' ''db:5432''"]
  by (simp add: new_pool_key_def)

text \<open>With a bar, two users share a bucket, and one is handed connections that are
  logged in as the other.\<close>

lemma string_key_collision:
  "string_key (new_pool_key ''a|b'' ''c'' n addr) = string_key (new_pool_key ''a'' ''b|c'' n addr)"
  by (simp add: string_key_def new_pool_key_def)

end
