(* ===== verification/Conn_Limits.thy ===== *)
theory Conn_Limits
  imports Prelude
begin

text \<open>
  The caps on client connections (\<open>proxy/limits.rs\<close>) and the accept loop that
  applies them with the allowlist (\<open>proxy/allowlist.rs\<close>, \<open>ProxyServer::run\<close>).  A
  tokio semaphore is the number of its free permits.  A guard is dropped with the
  connection it belongs to, wherever the connection's task ends.
\<close>

section \<open>Limits\<close>

record 'a connection_limits =
  total_free :: nat
  pending_free :: nat
  per_address :: "('a, nat) hashmap"
  per_address_max :: nat
  login_timeout :: nat

record 'a login_guard =
  permit :: bool
  address :: 'a
  logged_in :: bool

text \<open>\<open>Admitted\<close>: the permit of the total, and the guard.\<close>

type_synonym 'a admitted = "'a login_guard"

definition with_limits :: "nat \<Rightarrow> nat \<Rightarrow> nat \<Rightarrow> nat \<Rightarrow> 'a connection_limits" where
  "with_limits max_total max_pending per_addr timeout =
    \<lparr>total_free = max_total, pending_free = max_pending, per_address = [], per_address_max = per_addr,
     login_timeout = timeout\<rparr>"

definition release_address :: "'a \<Rightarrow> ('a, nat) hashmap \<Rightarrow> ('a, nat) hashmap" where
  "release_address a counts =
    (case hm_get counts a of
       None \<Rightarrow> counts
     | Some n \<Rightarrow> if n - 1 = 0 then hm_remove a counts else hm_insert a (n - 1) counts)"

text \<open>\<open>LoginGuard::finish\<close>, which \<open>drop\<close> calls too: the taken permit goes back to the semaphore.\<close>

definition finish_login :: "'a connection_limits \<Rightarrow> 'a login_guard \<Rightarrow> 'a connection_limits \<times> 'a login_guard" where
  "finish_login l g =
    (if permit g then
       (l\<lparr>per_address := release_address (address g) (per_address l), pending_free := pending_free l + 1\<rparr>,
        g\<lparr>permit := False, logged_in := True\<rparr>)
     else (l, g))"

definition drop_admitted :: "'a connection_limits \<Rightarrow> 'a admitted \<Rightarrow> 'a connection_limits" where
  "drop_admitted l g = (let l' = fst (finish_login l g) in l'\<lparr>total_free := total_free l' + 1\<rparr>)"

text \<open>Each early return drops the permits taken so far.\<close>

definition admit :: "'a \<Rightarrow> 'a connection_limits \<Rightarrow> 'a connection_limits \<times> 'a admitted option" where
  "admit a l =
    (if total_free l = 0 then (l, None)
     else
       let counts = hm_or_insert a 0 (per_address l);
           n = hm_get_or counts a 0
       in if per_address_max l \<le> n then (l\<lparr>per_address := counts\<rparr>, None)
          else
            let counts' = hm_insert a (n + 1) counts
            in if pending_free l = 0 then (l\<lparr>per_address := release_address a counts'\<rparr>, None)
               else (l\<lparr>total_free := total_free l - 1, pending_free := pending_free l - 1, per_address := counts'\<rparr>,
                     Some \<lparr>permit = True, address = a, logged_in = False\<rparr>))"


section \<open>Allowlist\<close>

text \<open>Networks, their parser and membership come from the ipnet crate, and an address
  in canonical form from the standard library; the definitions take them.\<close>

datatype 'n allowlist = Open | Only "'n list"

definition parse_allowlist :: "(string \<Rightarrow> 'n option) \<Rightarrow> string list option \<Rightarrow> string + 'n allowlist" where
  "parse_allowlist parse cidrs =
    (case cidrs of
       None \<Rightarrow> Inr Open
     | Some cs \<Rightarrow> and_then (collect_results (map (\<lambda>c. ok_or (parse c) (''invalid CIDR '' @ c)) cs)) (\<lambda>nets. Inr (Only nets)))"

fun allows :: "('n \<Rightarrow> 'a \<Rightarrow> bool) \<Rightarrow> ('a \<Rightarrow> 'a) \<Rightarrow> 'n allowlist \<Rightarrow> 'a \<Rightarrow> bool" where
  "allows contains canonical Open a \<longleftrightarrow> True"
| "allows contains canonical (Only nets) a \<longleftrightarrow> list_ex (\<lambda>net. contains net (canonical a)) nets"

text \<open>A reload that fails keeps the old list.\<close>

definition reload :: "(string \<Rightarrow> 'n option) \<Rightarrow> (string + string list option) \<Rightarrow> 'n allowlist \<Rightarrow> 'n allowlist" where
  "reload parse config old =
    (case and_then config (parse_allowlist parse) of Inr list \<Rightarrow> list | Inl _ \<Rightarrow> old)"


section \<open>The accept loop\<close>

text \<open>The state of the server, with the admitted connections by number.\<close>

record ('a, 'n) server =
  limits :: "'a connection_limits"
  allowed :: "'n allowlist"
  clients :: "'a admitted list"
  refused :: nat

text \<open>A connection is accepted, logs in, or ends (by itself, by an error, or at the
  login deadline); and the list is reloaded.\<close>

datatype 'a server_event =
    Accepted 'a
  | LoggedInAt nat
  | EndedAt nat
  | Deadline nat
  | Reloaded "string + string list option"

definition remove_nth :: "nat \<Rightarrow> 'b list \<Rightarrow> 'b list" where
  "remove_nth i xs = take i xs @ drop (Suc i) xs"

definition end_client :: "nat \<Rightarrow> ('a, 'n) server \<Rightarrow> ('a, 'n) server" where
  "end_client i s =
    (if i < length (clients s) then
       s\<lparr>limits := drop_admitted (limits s) (clients s ! i), clients := remove_nth i (clients s)\<rparr>
     else s)"

fun server_step ::
  "('n \<Rightarrow> 'a \<Rightarrow> bool) \<Rightarrow> ('a \<Rightarrow> 'a) \<Rightarrow> (string \<Rightarrow> 'n option) \<Rightarrow> 'a server_event
    \<Rightarrow> ('a, 'n) server \<Rightarrow> ('a, 'n) server" where
  "server_step contains canonical parse (Accepted a) s =
    (if \<not> allows contains canonical (allowed s) a then s
     else case admit a (limits s) of
       (l, None) \<Rightarrow> s\<lparr>limits := l, refused := refused s + 1\<rparr>
     | (l, Some g) \<Rightarrow> s\<lparr>limits := l, clients := clients s @ [g]\<rparr>)"
| "server_step contains canonical parse (LoggedInAt i) s =
    (if i < length (clients s) then
       (let (l, g) = finish_login (limits s) (clients s ! i)
        in s\<lparr>limits := l, clients := (clients s)[i := g]\<rparr>)
     else s)"
| "server_step contains canonical parse (EndedAt i) s = end_client i s"
| "server_step contains canonical parse (Deadline i) s =
    (if i < length (clients s) \<and> logged_in (clients s ! i) then s else end_client i s)"
| "server_step contains canonical parse (Reloaded config) s = s\<lparr>allowed := reload parse config (allowed s)\<rparr>"

definition new_server :: "'a connection_limits \<Rightarrow> 'n allowlist \<Rightarrow> ('a, 'n) server" where
  "new_server l list = \<lparr>limits = l, allowed = list, clients = [], refused = 0\<rparr>"

abbreviation run_server where
  "run_server contains canonical parse evs s \<equiv> fold (server_step contains canonical parse) evs s"


section \<open>Lemmas\<close>

text \<open>The clients that still hold a pending permit, in total and from one address.\<close>

definition pending_clients :: "'a admitted list \<Rightarrow> nat" where
  "pending_clients cs = length (filter permit cs)"

definition pending_from :: "'a \<Rightarrow> 'a admitted list \<Rightarrow> nat" where
  "pending_from a cs = length (filter (\<lambda>g. permit g \<and> address g = a) cs)"

text \<open>The permits add up, the counts are the clients that are pending, within the caps.\<close>

definition accounts :: "nat \<Rightarrow> nat \<Rightarrow> ('a, 'n) server \<Rightarrow> bool" where
  "accounts max_total max_pending s \<longleftrightarrow>
    total_free (limits s) + length (clients s) = max_total
    \<and> pending_free (limits s) + pending_clients (clients s) = max_pending
    \<and> (\<forall>a. hm_get_or (per_address (limits s)) a 0 = pending_from a (clients s))
    \<and> (\<forall>a. pending_from a (clients s) \<le> per_address_max (limits s))
    \<and> (\<forall>g \<in> set (clients s). permit g \<longleftrightarrow> \<not> logged_in g)
    \<and> hm_wf (per_address (limits s))"

lemma remove_nth_split: "i < length xs \<Longrightarrow> \<exists>ys x zs. xs = ys @ x # zs \<and> length ys = i \<and> x = xs ! i \<and> remove_nth i xs = ys @ zs"
  using id_take_nth_drop [of i xs] by (intro exI [of _ "take i xs"] exI [of _ "xs ! i"] exI [of _ "drop (Suc i) xs"])
    (simp add: remove_nth_def)

lemma hm_get_or_insert_eq: "hm_get_or (hm_insert a n m) b 0 = (if b = a then n else hm_get_or m b (0 :: nat))"
  by (simp add: hm_get_or_def hm_simps)

lemma hm_get_or_remove: "hm_get_or (hm_remove a m) b 0 = (if b = a then 0 else hm_get_or m b (0 :: nat))"
  by (simp add: hm_get_or_def hm_simps)

lemma hm_get_or_or_insert: "hm_get_or (hm_or_insert a 0 m) b 0 = hm_get_or m b (0 :: nat)"
  by (simp add: hm_get_or_def hm_or_insert_def hm_simps split: option.split)

lemma release_address_count:
  "hm_get_or (release_address a m) b 0 = (if b = a then hm_get_or m a 0 - 1 else hm_get_or m b (0 :: nat))"
  by (cases "hm_get m a") (auto simp: release_address_def hm_get_or_def hm_simps)

lemma release_address_wf [simp]: "hm_wf m \<Longrightarrow> hm_wf (release_address a m)"
  by (auto simp: release_address_def split: option.split)

lemmas count_simps = hm_get_or_insert_eq hm_get_or_remove hm_get_or_or_insert release_address_count

text \<open>A client at position \<open>i\<close>, taken out or replaced.\<close>

lemma pending_split:
  "pending_clients (ys @ x # zs) = (if permit x then 1 else 0) + pending_clients (ys @ zs)"
  "pending_from a (ys @ x # zs) = (if permit x \<and> address x = a then 1 else 0) + pending_from a (ys @ zs)"
  by (simp_all add: pending_clients_def pending_from_def)

lemma finish_login_accounts:
  assumes "accounts T P s" "clients s = ys @ g # zs" "finish_login (limits s) g = (l, g')"
  shows "accounts T P (s\<lparr>limits := l, clients := ys @ g' # zs\<rparr>)"
    "permit g' = False" "total_free l = total_free (limits s)" "per_address_max l = per_address_max (limits s)"
proof -
  show g': "permit g' = False" "total_free l = total_free (limits s)" "per_address_max l = per_address_max (limits s)"
    using assms(3) by (auto simp: finish_login_def split: if_splits)
  show "accounts T P (s\<lparr>limits := l, clients := ys @ g' # zs\<rparr>)"
  proof (cases "permit g")
    case False
    then show ?thesis using assms by (auto simp: finish_login_def accounts_def pending_split)
  next
    case True
    then have eqs: "l = (limits s)\<lparr>per_address := release_address (address g) (per_address (limits s)),
        pending_free := pending_free (limits s) + 1\<rparr>" "g' = g\<lparr>permit := False, logged_in := True\<rparr>"
      using assms(3) by (auto simp: finish_login_def)
    have old: "total_free (limits s) + length (ys @ g # zs) = T"
      "pending_free (limits s) + pending_clients (ys @ g # zs) = P"
      "\<And>a. hm_get_or (per_address (limits s)) a 0 = pending_from a (ys @ g # zs)"
      "\<And>a. pending_from a (ys @ g # zs) \<le> per_address_max (limits s)"
      "\<And>h. h \<in> set (ys @ g # zs) \<Longrightarrow> permit h \<longleftrightarrow> \<not> logged_in h" "hm_wf (per_address (limits s))"
      using assms(1,2) by (auto simp: accounts_def)
    have new: "pending_from a (ys @ zs) \<le> per_address_max (limits s)" for a
      using old(4) [of a] by (simp add: pending_split split: if_splits)
    have "hm_get_or (release_address (address g) (per_address (limits s))) a 0 = pending_from a (ys @ zs)" for a
      using old(3) [of a] True by (auto simp: count_simps pending_split)
    then show ?thesis using old True new by (auto simp: accounts_def eqs pending_split)
  qed
qed

lemma end_client_accounts: "accounts T P s \<Longrightarrow> accounts T P (end_client i s)"
proof (cases "i < length (clients s)")
  case True
  assume acc: "accounts T P s"
  obtain ys g zs where split: "clients s = ys @ g # zs" "g = clients s ! i" "remove_nth i (clients s) = ys @ zs"
    using remove_nth_split [OF True] by blast
  obtain l g' where f: "finish_login (limits s) g = (l, g')" by force
  note fin = finish_login_accounts [OF acc split(1) f]
  have e: "end_client i s = s\<lparr>limits := l\<lparr>total_free := total_free l + 1\<rparr>, clients := ys @ zs\<rparr>"
    unfolding end_client_def if_P [OF True] split(3) split(2) [symmetric] by (simp add: drop_admitted_def f)
  show ?thesis unfolding e using fin(1,2) by (auto simp: accounts_def pending_split)
qed (simp add: end_client_def)

lemma admit_accounts:
  assumes "accounts T P s" "admit a (limits s) = (l, r)"
  shows "accounts T P (s\<lparr>limits := l, clients := clients s @ (case r of None \<Rightarrow> [] | Some g \<Rightarrow> [g])\<rparr>)"
    "per_address_max l = per_address_max (limits s)"
proof -
  show "per_address_max l = per_address_max (limits s)"
    using assms(2) by (auto simp: admit_def Let_def split: if_splits)
  have count: "hm_get_or (hm_or_insert a 0 (per_address (limits s))) b 0 = pending_from b (clients s)" for b
    using assms(1) by (simp add: count_simps accounts_def)
  have snoc: "pending_clients (clients s @ [g]) = (if permit g then 1 else 0) + pending_clients (clients s)"
    "pending_from b (clients s @ [g]) = (if permit g \<and> address g = b then 1 else 0) + pending_from b (clients s)" for g b
    using pending_split(1) [of "clients s" g "[]"] pending_split(2) [of b "clients s" g "[]"] by simp_all
  have same: "hm_get_or (release_address a (hm_insert a (pending_from a (clients s) + 1)
      (hm_or_insert a 0 (per_address (limits s))))) b 0 = pending_from b (clients s)" for b
    unfolding release_address_count hm_get_or_insert_eq count by simp
  show "accounts T P (s\<lparr>limits := l, clients := clients s @ (case r of None \<Rightarrow> [] | Some g \<Rightarrow> [g])\<rparr>)"
  proof (cases r)
    case None
    then show ?thesis using assms count same
      by (auto simp: admit_def Let_def accounts_def split: if_splits)
  next
    case (Some g)
    then have room: "0 < total_free (limits s)" "0 < pending_free (limits s)"
      "pending_from a (clients s) < per_address_max (limits s)"
      and eqs: "g = \<lparr>permit = True, address = a, logged_in = False\<rparr>"
      "l = (limits s)\<lparr>total_free := total_free (limits s) - 1, pending_free := pending_free (limits s) - 1,
         per_address := hm_insert a (pending_from a (clients s) + 1) (hm_or_insert a 0 (per_address (limits s)))\<rparr>"
      using assms(2) count by (auto simp: admit_def Let_def split: if_splits)
    have "hm_get_or (per_address l) b 0 = pending_from b (clients s @ [g])" for b
      unfolding eqs by (simp add: hm_get_or_insert_eq count snoc)
    then show ?thesis using assms(1) room Some snoc by (auto simp: accounts_def eqs)
  qed
qed

lemma server_step_accounts:
  assumes "accounts T P s"
  shows "accounts T P (server_step contains canonical parse ev s)"
proof (cases ev)
  case (Accepted a)
  obtain l r where r: "admit a (limits s) = (l, r)" by force
  have "accounts T P (s\<lparr>limits := l, clients := clients s @ (case r of None \<Rightarrow> [] | Some g \<Rightarrow> [g])\<rparr>)"
    by (rule admit_accounts(1) [OF assms r])
  then have "accounts T P (case (l, r) of
       (l, None) \<Rightarrow> s\<lparr>limits := l, refused := refused s + 1\<rparr>
     | (l, Some g) \<Rightarrow> s\<lparr>limits := l, clients := clients s @ [g]\<rparr>)"
    by (cases r) (simp_all add: accounts_def)
  then show ?thesis using assms by (simp add: Accepted r)
next
  case (LoggedInAt i)
  show ?thesis
  proof (cases "i < length (clients s)")
    case True
    obtain ys g zs where split: "clients s = ys @ g # zs" "length ys = i" "g = clients s ! i"
      using remove_nth_split [OF True] by blast
    obtain l g' where f: "finish_login (limits s) g = (l, g')" by force
    have upd: "(clients s)[i := g'] = ys @ g' # zs" unfolding split(1) split(2) [symmetric] by simp
    show ?thesis using finish_login_accounts(1) [OF assms split(1) f]
      by (simp add: LoggedInAt True split(3) [symmetric] f upd)
  qed (use assms LoggedInAt in simp)
next
  case (Reloaded config)
  then show ?thesis using assms by (simp add: accounts_def)
qed (simp_all add: assms end_client_accounts)

lemma run_server_accounts: "accounts T P s \<Longrightarrow> accounts T P (run_server contains canonical parse evs s)"
  by (induction evs arbitrary: s) (simp_all add: server_step_accounts)

lemma new_server_accounts: "accounts T P (new_server (with_limits T P M timeout) list)"
  by (simp add: accounts_def new_server_def with_limits_def pending_clients_def pending_from_def hm_get_or_def)

lemma run_server_max:
  "per_address_max (limits (run_server contains canonical parse evs s)) = per_address_max (limits s)"
proof (induction evs arbitrary: s)
  case (Cons ev evs)
  have fin: "per_address_max (fst (finish_login l g)) = per_address_max l" for l :: "'a connection_limits" and g
    by (simp add: finish_login_def)
  have ended: "per_address_max (limits (end_client i s)) = per_address_max (limits s)" for i
    using fin [of "limits s" "clients s ! i"] by (simp add: end_client_def drop_admitted_def Let_def)
  have adm: "per_address_max (fst (admit a (limits s))) = per_address_max (limits s)" for a
    by (simp add: admit_def Let_def)
  have "per_address_max (limits (server_step contains canonical parse ev s)) = per_address_max (limits s)"
  proof (cases ev)
    case (Accepted a)
    then show ?thesis using adm [of a] by (auto split: prod.splits option.splits)
  next
    case (LoggedInAt i)
    then show ?thesis using fin [of "limits s" "clients s ! i"] by (auto split: prod.splits)
  qed (simp_all add: ended)
  then show ?case using Cons by simp
qed simp



section \<open>Properties\<close>

text \<open>C37.  However clients come, log in, end or run into the deadline, at most the
  configured number are connected, at most the configured number are pending,
  and at most the configured number are pending from any one address; the free
  permits are exactly what the connected clients leave, and the table counts the
  pending clients of each address.\<close>

theorem connection_caps_hold:
  "let s = run_server contains canonical parse evs (new_server (with_limits T P M timeout) list)
   in length (clients s) + total_free (limits s) = T
    \<and> pending_clients (clients s) + pending_free (limits s) = P
    \<and> (\<forall>a. pending_from a (clients s) \<le> M \<and> hm_get_or (per_address (limits s)) a 0 = pending_from a (clients s))"
proof -
  let ?s = "run_server contains canonical parse evs (new_server (with_limits T P M timeout) list)"
  have "accounts T P ?s" by (rule run_server_accounts [OF new_server_accounts])
  moreover have "per_address_max (limits ?s) = M"
    by (simp add: run_server_max new_server_def with_limits_def)
  ultimately show ?thesis unfolding accounts_def Let_def by (metis add.commute)
qed

text \<open>A client that is refused takes nothing: no permit, no place among the
  clients, and no count of its address; and a client the allowlist refuses is not
  even counted.\<close>

theorem refused_client_costs_nothing:
  assumes "accounts T P s" "clients (server_step contains canonical parse (Accepted a) s) = clients s"
  shows "total_free (limits (server_step contains canonical parse (Accepted a) s)) = total_free (limits s)
    \<and> pending_free (limits (server_step contains canonical parse (Accepted a) s)) = pending_free (limits s)
    \<and> hm_get_or (per_address (limits (server_step contains canonical parse (Accepted a) s))) b 0
        = hm_get_or (per_address (limits s)) b 0"
proof -
  have "accounts T P (server_step contains canonical parse (Accepted a) s)" by (rule server_step_accounts [OF assms(1)])
  then show ?thesis using assms unfolding accounts_def by (metis add_right_cancel)
qed

theorem refused_client_costs_nothing_witness:
  "total_free (limits (server_step (=) (\<lambda>a. a) (\<lambda>_. None) (Accepted 7)
     (server_step (=) (\<lambda>a. a) (\<lambda>_. None) (Accepted 7) (new_server (with_limits 9 9 1 10) (Only [7 :: nat]))))) = 8"
proof -
  let ?s = "server_step (=) (\<lambda>a. a) (\<lambda>_. None) (Accepted 7) (new_server (with_limits 9 9 1 10) (Only [7 :: nat]))"
  have acc: "accounts 9 9 ?s" by (rule server_step_accounts [OF new_server_accounts])
  have "clients (server_step (=) (\<lambda>a. a) (\<lambda>_. None) (Accepted 7) ?s) = clients ?s" "total_free (limits ?s) = 8"
    by (simp_all add: new_server_def with_limits_def admit_def Let_def hm_or_insert_def hm_get_or_def)
  then show ?thesis using refused_client_costs_nothing [OF acc] by metis
qed

end
