(* ===== verification/Scheduler.thy ===== *)
theory Scheduler
  imports Prelude Complex_Main "HOL-Library.Signed_Division"
begin

text \<open>
  The placement of nodes on hosts (\<open>pgcluster-admin/src/scheduler.rs\<close> and
  \<open>choose_hosts\<close> of \<open>model.rs\<close>): what a host has left after its reserves, which
  hosts have room, and one host per failure domain.  An \<open>f64\<close> is a rational
  number with exact arithmetic, so a theorem that relies on a sum or a product
  holds up to the rounding of the code; \<open>EPSILON\<close> is the slack the code allows
  for it.  A JSON number is never a NaN, so the order on the values is total.
\<close>

section \<open>Numbers\<close>

type_synonym f64 = rat

definition EPSILON :: f64 where
  "EPSILON = 1 / 10 ^ 9"

text \<open>The least finite \<open>f64\<close>.\<close>

definition f64_MIN :: f64 where
  "f64_MIN = - (of_int ((2 ^ 53 - 1) * 2 ^ 971))"

text \<open>The text of a number: its integer part, and its decimals where it has any.\<close>

fun decimals :: "nat \<Rightarrow> f64 \<Rightarrow> string" where
  "decimals 0 r = []"
| "decimals (Suc k) r =
    (if r = 0 then []
     else let d = \<lfloor>r * 10\<rfloor> in from_digit (nat d) # decimals k (r * 10 - of_int d))"

definition show_f64 :: "f64 \<Rightarrow> string" where
  "show_f64 r =
    (let a = \<bar>r\<bar>; i = \<lfloor>a\<rfloor>; d = decimals 17 (a - of_int i)
     in (if r < 0 then ''-'' else '''') @ show_radix 10 (nat i) @ (if d = [] then [] else CHR ''.'' # d))"

definition show_int :: "int \<Rightarrow> string" where
  "show_int i = (if i < 0 then ''-'' else '''') @ show_radix 10 (nat \<bar>i\<bar>)"

section \<open>Resources and hosts\<close>

record resources =
  vcpu :: f64
  memory_gb :: f64
  storage_gb :: f64

record scheduler_config =
  os_reserved_memory_gb :: f64
  page_cache_share :: f64
  storage_reserve_share :: f64
  port_base_start :: int
  port_base_end :: int

definition PORT_BLOCK :: int where
  "PORT_BLOCK = 10"

definition default_scheduler_config :: scheduler_config where
  "default_scheduler_config =
    \<lparr>os_reserved_memory_gb = 1, page_cache_share = 2 / 10, storage_reserve_share = 1 / 10,
     port_base_start = 20000, port_base_end = 32760\<rparr>"

definition share_ok :: "f64 \<Rightarrow> bool" where
  "share_ok x \<longleftrightarrow> 0 \<le> x \<and> x < 1"

definition validate_scheduler :: "scheduler_config \<Rightarrow> string + unit" where
  "validate_scheduler c =
    (if \<not> share_ok (page_cache_share c) \<or> \<not> share_ok (storage_reserve_share c)
     then Inl ''[scheduler] shares must be at least 0 and below 1''
     else if os_reserved_memory_gb c < 0
     then Inl ''[scheduler] os_reserved_memory_gb cannot be negative''
     else if port_base_start c < 1024 \<or> port_base_end c < port_base_start c
        \<or> port_base_end c > 65535 - PORT_BLOCK
     then Inl (''[scheduler] ports need 1024 <= port_base_start <= port_base_end <= ''
        @ show_int (65535 - PORT_BLOCK))
     else Inr ())"

definition port_blocks :: "scheduler_config \<Rightarrow> int" where
  "port_blocks c = (port_base_end c - port_base_start c) sdiv PORT_BLOCK + 1"

definition allocatable :: "scheduler_config \<Rightarrow> resources \<Rightarrow> resources" where
  "allocatable c capacity =
    (let memory = max (memory_gb capacity - os_reserved_memory_gb c) 0
     in \<lparr>vcpu = vcpu capacity,
         memory_gb = memory * (1 - page_cache_share c),
         storage_gb = storage_gb capacity * (1 - storage_reserve_share c)\<rparr>)"

definition fits :: "resources \<Rightarrow> resources \<Rightarrow> bool" where
  "fits free request \<longleftrightarrow>
    vcpu request \<le> vcpu free + EPSILON
    \<and> memory_gb request \<le> memory_gb free + EPSILON
    \<and> storage_gb request \<le> storage_gb free + EPSILON"

definition minus_resources :: "resources \<Rightarrow> resources \<Rightarrow> resources" where
  "minus_resources a b =
    \<lparr>vcpu = vcpu a - vcpu b, memory_gb = memory_gb a - memory_gb b,
     storage_gb = storage_gb a - storage_gb b\<rparr>"

definition round_f64 :: "f64 \<Rightarrow> f64" where
  "round_f64 x = of_int \<lfloor>max x 0 * 10\<rfloor> / 10"

definition describe :: "resources \<Rightarrow> string" where
  "describe r =
    show_f64 (round_f64 (vcpu r)) @ '' vCPU, '' @ show_f64 (round_f64 (memory_gb r))
    @ '' GB memory and '' @ show_f64 (round_f64 (storage_gb r)) @ '' GB storage''"

record host_load =
  load_id :: string
  load_name :: string
  load_address :: "string option"
  load_failure_domain :: "string option"
  load_capacity :: "resources option"
  used_vcpu :: f64
  used_memory_gb :: f64
  used_storage_gb :: f64
  instances :: int
  online :: bool
  load_draining :: bool

definition used :: "host_load \<Rightarrow> resources" where
  "used h = \<lparr>vcpu = used_vcpu h, memory_gb = used_memory_gb h, storage_gb = used_storage_gb h\<rparr>"

definition free :: "scheduler_config \<Rightarrow> host_load \<Rightarrow> resources option" where
  "free c h = map_option (\<lambda>capacity. minus_resources (allocatable c capacity) (used h)) (load_capacity h)"

definition domain :: "host_load \<Rightarrow> string" where
  "domain h = (case load_failure_domain h of Some d \<Rightarrow> d | None \<Rightarrow> load_id h)"

definition has_room :: "scheduler_config \<Rightarrow> host_load \<Rightarrow> resources \<Rightarrow> bool" where
  "has_room c h request \<longleftrightarrow>
    instances h < port_blocks c \<and> (case free c h of Some f \<Rightarrow> fits f request | None \<Rightarrow> False)"

section \<open>Placement\<close>

text \<open>The hosts \<open>filter(|host| used.insert(domain(host)))\<close> keeps.\<close>

fun first_of_each :: "('a \<Rightarrow> string) \<Rightarrow> string list \<Rightarrow> 'a list \<Rightarrow> 'a list" where
  "first_of_each key seen [] = []"
| "first_of_each key seen (h # hs) =
    (if key h \<in> set seen then first_of_each key seen hs
     else h # first_of_each key (key h # seen) hs)"

definition choose_hosts :: "'a list \<Rightarrow> nat \<Rightarrow> ('a \<Rightarrow> string) \<Rightarrow> 'a list option" where
  "choose_hosts candidates n key =
    (let chosen = take n (first_of_each key [] candidates)
     in if length chosen = n then Some chosen else None)"

datatype placement = Placed "host_load list" | TooFewHosts | NoRoom string

definition no_room :: "scheduler_config \<Rightarrow> host_load list \<Rightarrow> nat \<Rightarrow> resources \<Rightarrow> string" where
  "no_room c hosts n request =
    (let nodes = (if n = 1 then ''one host has''
                  else show_radix 10 n @ '' hosts in separate failure domains have'');
         largest = max_by_key memory_gb (List.map_filter (free c) hosts);
         full = length (filter (\<lambda>h. instances h \<ge> port_blocks c) hosts)
     in ''no '' @ nodes @ '' room for '' @ describe request
        @ (case largest of
             Some l \<Rightarrow> ''. The most any host has free is '' @ describe l
           | None \<Rightarrow> '''')
        @ (if full > 0 then ''. '' @ show_radix 10 full @ '' host(s) have no free port block''
           else ''''))"

definition place :: "scheduler_config \<Rightarrow> host_load list \<Rightarrow> nat \<Rightarrow> resources \<Rightarrow> placement" where
  "place c hosts n request =
    (let free_memory = (\<lambda>h. case free c h of None \<Rightarrow> f64_MIN | Some f \<Rightarrow> memory_gb f);
         by_free = sort_desc_by free_memory hosts;
         roomy = filter (\<lambda>h. has_room c h request) by_free
     in case choose_hosts roomy n domain of
          Some chosen \<Rightarrow> Placed chosen
        | None \<Rightarrow>
            (if choose_hosts by_free n domain = None then TooFewHosts
             else NoRoom (no_room c by_free n request)))"

definition too_large :: "scheduler_config \<Rightarrow> host_load list \<Rightarrow> resources \<Rightarrow> string option" where
  "too_large c hosts request =
    (let sizes = List.map_filter (\<lambda>h. map_option (allocatable c) (load_capacity h)) hosts
     in if sizes = [] \<or> list_ex (\<lambda>size. fits size request) sizes then None
        else case max_by_key memory_gb sizes of
               None \<Rightarrow> None
             | Some largest \<Rightarrow>
                 Some (''no host is large enough for '' @ describe request
                   @ ''. The largest offers '' @ describe largest @ '' after reserves''))"

section \<open>Lemmas\<close>

subsection \<open>One host for each failure domain\<close>

lemma set_first_of_each: "set (first_of_each key seen hs) \<subseteq> set hs"
  by (induction hs arbitrary: seen) auto

lemma keys_first_of_each: "key ` set (first_of_each key seen hs) = key ` set hs - set seen"
  by (induction hs arbitrary: seen) auto

lemma distinct_first_of_each: "distinct (map key (first_of_each key seen hs))"
proof (induction hs arbitrary: seen)
  case (Cons h hs)
  have "key h \<notin> key ` set (first_of_each key (key h # seen) hs)"
    unfolding keys_first_of_each by simp
  then show ?case using Cons by simp
qed simp

lemma length_first_of_each: "length (first_of_each key [] hs) = card (key ` set hs)"
  using distinct_card [OF distinct_first_of_each [of key "[]" hs]] keys_first_of_each [of key "[]" hs]
  by simp

lemma choose_hosts_Some:
  assumes "choose_hosts hs n key = Some chosen"
  shows "length chosen = n" "distinct (map key chosen)" "set chosen \<subseteq> set hs"
proof -
  have c: "chosen = take n (first_of_each key [] hs)" "length chosen = n"
    using assms by (auto simp: choose_hosts_def Let_def split: if_splits)
  then show "length chosen = n" by blast
  show "distinct (map key chosen)"
    unfolding c(1) take_map [symmetric] by (intro distinct_take distinct_first_of_each)
  show "set chosen \<subseteq> set hs"
    unfolding c(1) by (rule order_trans [OF set_take_subset set_first_of_each])
qed

lemma choose_hosts_None: "choose_hosts hs n key = None \<longleftrightarrow> card (key ` set hs) < n"
  by (auto simp: choose_hosts_def Let_def length_first_of_each)

lemma choose_hosts_ex: "n \<le> card (key ` set hs) \<Longrightarrow> \<exists>chosen. choose_hosts hs n key = Some chosen"
  using choose_hosts_None [of hs n key] by fastforce

lemma hd_first_of_each: "hs \<noteq> [] \<Longrightarrow> hd (first_of_each key [] hs) = hd hs \<and> first_of_each key [] hs \<noteq> []"
  by (cases hs) simp_all

subsection \<open>Placement\<close>

definition roomy_domains :: "scheduler_config \<Rightarrow> host_load list \<Rightarrow> resources \<Rightarrow> string set" where
  "roomy_domains c hosts request = domain ` {h \<in> set hosts. has_room c h request}"

text \<open>The candidates of a placement, the ones with the most free memory first.\<close>

definition free_memory :: "scheduler_config \<Rightarrow> host_load \<Rightarrow> f64" where
  "free_memory c h = (case free c h of None \<Rightarrow> f64_MIN | Some f \<Rightarrow> memory_gb f)"

definition by_free :: "scheduler_config \<Rightarrow> host_load list \<Rightarrow> host_load list" where
  "by_free c = sort_desc_by (free_memory c)"

lemma set_by_free [simp]: "set (by_free c hosts) = set hosts"
  by (simp add: by_free_def)

lemma place_cases:
  "place c hosts n request =
    (case choose_hosts (filter (\<lambda>h. has_room c h request) (by_free c hosts)) n domain of
       Some chosen \<Rightarrow> Placed chosen
     | None \<Rightarrow> (if choose_hosts (by_free c hosts) n domain = None then TooFewHosts
               else NoRoom (no_room c (by_free c hosts) n request)))"
  unfolding place_def by_free_def free_memory_def [abs_def] Let_def by (rule refl)

lemma roomy_choice:
  "choose_hosts (filter (\<lambda>h. has_room c h request) (by_free c hosts)) n domain = None
    \<longleftrightarrow> card (roomy_domains c hosts request) < n"
  by (simp add: choose_hosts_None roomy_domains_def)

lemma roomy_domains_le: "card (roomy_domains c hosts request) \<le> card (domain ` set hosts)"
  unfolding roomy_domains_def by (intro card_mono) auto

lemma placed_iff:
  "(\<exists>chosen. place c hosts n request = Placed chosen) \<longleftrightarrow> n \<le> card (roomy_domains c hosts request)"
  using roomy_choice [of c request hosts n] unfolding place_cases
  by (auto split: option.splits)

lemma placed_choice:
  assumes "place c hosts n request = Placed chosen"
  shows "length chosen = n" "distinct (map domain chosen)"
    "h \<in> set chosen \<Longrightarrow> h \<in> set hosts \<and> has_room c h request"
proof -
  have "choose_hosts (filter (\<lambda>h. has_room c h request) (by_free c hosts)) n domain = Some chosen"
    using assms unfolding place_cases by (auto split: option.splits if_splits)
  note ch = choose_hosts_Some [OF this]
  show "length chosen = n" "distinct (map domain chosen)" by (rule ch(1), rule ch(2))
  show "h \<in> set hosts \<and> has_room c h request" if "h \<in> set chosen"
    using ch(3) that by auto
qed

lemma too_few_iff: "place c hosts n request = TooFewHosts \<longleftrightarrow> card (domain ` set hosts) < n"
  using roomy_choice [of c request hosts n] roomy_domains_le [of c hosts request]
    choose_hosts_None [of "by_free c hosts" n domain]
  unfolding place_cases by (auto split: option.splits)

lemma no_room_iff:
  "(\<exists>m. place c hosts n request = NoRoom m)
    \<longleftrightarrow> card (roomy_domains c hosts request) < n \<and> n \<le> card (domain ` set hosts)"
  using roomy_choice [of c request hosts n] choose_hosts_None [of "by_free c hosts" n domain]
  unfolding place_cases by (auto split: option.splits)

section \<open>Properties\<close>

lemma sorted_first_of_each: "sorted_wrt r hs \<Longrightarrow> sorted_wrt r (first_of_each key seen hs)"
  by (induction key seen hs rule: first_of_each.induct) (auto dest: subsetD [OF set_first_of_each])

lemma placed_sorted:
  assumes "place c hosts n request = Placed chosen"
  shows "sorted_wrt (\<lambda>g h. free_memory c h \<le> free_memory c g) chosen"
proof -
  have "sorted_wrt (\<lambda>g h. free_memory c h \<le> free_memory c g) (by_free c hosts)"
    using sorted_sort_desc_by [of "free_memory c" hosts] by (simp add: by_free_def sorted_wrt_map)
  then have "sorted_wrt (\<lambda>g h. free_memory c h \<le> free_memory c g) (filter (\<lambda>h. has_room c h request) (by_free c hosts))"
    by (rule sorted_wrt_filter)
  moreover obtain m where "chosen = take m (first_of_each domain [] (filter (\<lambda>h. has_room c h request) (by_free c hosts)))"
    using assms unfolding place_cases choose_hosts_def Let_def by (auto split: option.splits if_splits)
  ultimately show ?thesis by (simp add: sorted_wrt_take sorted_first_of_each)
qed


end
