(* ===== verification/Database_Spec.thy ===== *)
theory Database_Spec
  imports Scheduler
begin

text \<open>
  What the control plane stores about a database, and the rules a request has to
  pass before it is stored (\<open>pgcluster-admin/src/model.rs\<close>, \<open>error.rs\<close>).  The
  parser of CIDR blocks belongs to the \<open>ipnet\<close> crate: it is the parameter
  \<open>is_cidr\<close>.  A JSON body is the record serde reads from it; a field with a
  default is an option or a list.
\<close>

section \<open>Errors of the API\<close>

record api_error =
  status_code :: nat
  error_code :: string
  message :: string

definition invalid :: "string \<Rightarrow> api_error" where
  "invalid m = \<lparr>status_code = 422, error_code = ''invalid_request'', message = m\<rparr>"

definition not_found :: "string \<Rightarrow> api_error" where
  "not_found what = \<lparr>status_code = 404, error_code = ''not_found'', message = what @ '' not found''\<rparr>"

definition conflict :: "string \<Rightarrow> api_error" where
  "conflict m = \<lparr>status_code = 409, error_code = ''conflict'', message = m\<rparr>"

definition unauthorized :: "string \<Rightarrow> api_error" where
  "unauthorized m = \<lparr>status_code = 401, error_code = ''unauthorized'', message = m\<rparr>"

text \<open>What a failure of the store or of a library becomes: its text stays in the log.\<close>

definition internal :: "string \<Rightarrow> api_error" where
  "internal cause = \<lparr>status_code = 500, error_code = ''internal'', message = ''internal error''\<rparr>"

text \<open>\<open>{:?}\<close> of a string.\<close>

definition to_ascii_lowercase :: "char \<Rightarrow> char" where
  "to_ascii_lowercase c = (if is_ascii_uppercase c then char_of (of_char c + 32 :: nat) else c)"

definition escape_char :: "char \<Rightarrow> string" where
  "escape_char c =
    (if c = CHR 0x22 then [CHR 0x5C, CHR 0x22]
     else if c = CHR 0x5C then [CHR 0x5C, CHR 0x5C]
     else if c = CHR 0x0A then [CHR 0x5C, CHR ''n'']
     else if c = CHR 0x0D then [CHR 0x5C, CHR ''r'']
     else if c = CHR 0x09 then [CHR 0x5C, CHR ''t'']
     else if c = CHR 0x00 then [CHR 0x5C, CHR ''0'']
     else if c < CHR 0x20 \<or> c = CHR 0x7F
     then CHR 0x5C # ''u{'' @ map to_ascii_lowercase (show_radix 16 (of_char c)) @ ''}''
     else [c])"

definition show_debug :: "string \<Rightarrow> string" where
  "show_debug s = CHR 0x22 # concat (map escape_char s) @ [CHR 0x22]"

section \<open>Specifications\<close>

definition EXTENSIONS :: "string list" where
  "EXTENSIONS = [''uuid-ossp'', ''pgcrypto'', ''pg_trgm'', ''unaccent'', ''vector'',
    ''pg_stat_statements'', ''pg_tle'', ''postgis'', ''pg_cron'']"

definition NEEDS_PRELOAD :: "string list" where
  "NEEDS_PRELOAD = [''pg_tle'', ''pg_cron'']"

definition POSTGRES_VERSIONS :: "string list" where
  "POSTGRES_VERSIONS = [''16'', ''17'', ''18'']"

definition HA_NODES :: nat where
  "HA_NODES = 3"

definition REPLICATION_MODES :: "string list" where
  "REPLICATION_MODES = [''async'', ''sync'', ''sync_strict'']"

definition RESERVED_ROLES :: "string list" where
  "RESERVED_ROLES = [''postgres'', ''replicator'', ''pgcluster_auth'', ''public'', ''none'']"

definition RESERVED_DATABASES :: "string list" where
  "RESERVED_DATABASES = [''postgres'', ''template0'', ''template1'']"

record owner =
  username :: string
  scram_verifier :: string

record backup_settings =
  repository_id :: string
  retention_days :: u32

definition retain_full :: "backup_settings \<Rightarrow> u32" where
  "retain_full b = of_nat ((unat (retention_days b) + 6) div 7) + 1"

record restore_source =
  restore_database_id :: string
  restore_database_name :: string
  target_time :: string

record replica_source =
  source_database_id :: string
  source_node_id :: string

record database_spec =
  pg_version :: string
  ha :: bool
  spec_hosts :: "string list"
  spec_resources :: resources
  replication_mode :: string
  allowed_cidrs :: "string list"
  extensions :: "string list"
  spec_owner :: owner
  backup :: backup_settings
  restore :: "restore_source option"
  replica_of :: "replica_source option"
  data_name :: "string option"

record create_database =
  req_name :: string
  req_workspace :: "string option"
  req_version :: string
  req_ha :: bool
  req_hosts :: "string list"
  req_resources :: resources
  req_replication_mode :: "string option"
  req_owner :: owner
  req_allowed_cidrs :: "string list"
  req_extensions :: "string list"
  req_backup :: backup_settings

section \<open>Rules\<close>

text \<open>Two checks in a row, as \<open>?\<close> runs them.\<close>

definition require :: "bool \<Rightarrow> api_error \<Rightarrow> api_error + unit" where
  "require b e = (if b then Inr () else Inl e)"

fun in_turn :: "('e + unit) list \<Rightarrow> 'e + unit" where
  "in_turn [] = Inr ()"
| "in_turn (r # rs) = and_then r (\<lambda>_. in_turn rs)"

definition identifier_ok :: "string \<Rightarrow> bool" where
  "identifier_ok s \<longleftrightarrow>
    (case s of [] \<Rightarrow> False | c # _ \<Rightarrow> is_ascii_lowercase c \<or> c = CHR ''_'')
    \<and> list_all (\<lambda>c. is_ascii_lowercase c \<or> is_ascii_digit c \<or> c = CHR ''_'') (drop 1 s)
    \<and> \<not> length s > 63"

definition check_identifier :: "string \<Rightarrow> string \<Rightarrow> api_error + unit" where
  "check_identifier field s =
    require (identifier_ok s) (invalid (field
      @ '' must be 1 to 63 lowercase letters, digits and underscores, ''
      @ ''and start with a letter or underscore''))"

definition check_database_name :: "string \<Rightarrow> api_error + unit" where
  "check_database_name name =
    and_then (check_identifier ''name'' name) (\<lambda>_.
      if name \<in> set RESERVED_DATABASES then Inl (invalid (''name '' @ show_debug name @ '' is reserved''))
      else Inr ())"

definition check_replication_mode :: "string \<Rightarrow> bool \<Rightarrow> api_error + unit" where
  "check_replication_mode mode is_ha =
    (if mode \<notin> set REPLICATION_MODES
     then Inl (invalid (''replication_mode must be one of '' @ join '', '' REPLICATION_MODES))
     else if mode \<noteq> ''async'' \<and> \<not> is_ha then Inl (invalid ''replication_mode needs ha: true'')
     else Inr ())"

definition check_retention :: "u32 \<Rightarrow> api_error + unit" where
  "check_retention days = (if days = 0 then Inl (invalid ''retention_days must be at least 1'') else Inr ())"

definition check_hosts :: "string list \<Rightarrow> bool \<Rightarrow> api_error + unit" where
  "check_hosts hosts is_ha =
    (let wanted = (if is_ha then HA_NODES else 1)
     in if hosts \<noteq> [] \<and> ((is_ha \<and> length hosts \<noteq> wanted) \<or> length hosts > wanted)
        then Inl (invalid (if is_ha then ''a three-node database takes three hosts, or none to choose for you''
                           else ''a one-node database takes one host''))
        else if length (remdups hosts) \<noteq> length hosts
        then Inl (invalid ''each node needs a host of its own'')
        else Inr ())"

definition verifier_shape_ok :: "string \<Rightarrow> bool" where
  "verifier_shape_ok v =
    (case Option.bind (strip_prefix ''SCRAM-SHA-256$'' v) (split_once CHR ''$'') of
       None \<Rightarrow> False
     | Some (params, keys) \<Rightarrow>
         (case split_once CHR '':'' params of
            None \<Rightarrow> False
          | Some (n, salt) \<Rightarrow> from_str_radix 10 (2 ^ 32) n \<noteq> None \<and> salt \<noteq> [])
         \<and> (case split_once CHR '':'' keys of None \<Rightarrow> False | Some (a, b) \<Rightarrow> a \<noteq> [] \<and> b \<noteq> []))"

definition verifier_char :: "char \<Rightarrow> bool" where
  "verifier_char c \<longleftrightarrow> is_ascii_alphanumeric c \<or> c \<in> set ''-$:+/=''"

definition check_verifier :: "string \<Rightarrow> api_error + unit" where
  "check_verifier v =
    (if verifier_shape_ok v \<and> list_all verifier_char v then Inr ()
     else Inl (invalid ''scram_verifier must be a SCRAM-SHA-256 verifier, not a password''))"

definition check_owner :: "owner \<Rightarrow> api_error + unit" where
  "check_owner ow =
    and_then (check_identifier ''owner.username'' (username ow)) (\<lambda>_.
      if username ow \<in> set RESERVED_ROLES \<or> starts_with ''pg_'' (username ow)
      then Inl (invalid (''owner.username '' @ show_debug (username ow) @ '' is reserved''))
      else check_verifier (scram_verifier ow))"

definition check_cidrs :: "(string \<Rightarrow> bool) \<Rightarrow> string list \<Rightarrow> api_error + unit" where
  "check_cidrs is_cidr cidrs =
    in_turn (map (\<lambda>cidr. require (is_cidr cidr) (invalid (show_debug cidr @ '' is not a CIDR block''))) cidrs)"

definition check_extensions :: "string list \<Rightarrow> api_error + unit" where
  "check_extensions exts =
    in_turn (map (\<lambda>e. require (e \<in> set EXTENSIONS)
      (invalid (show_debug e @ '' is not available. Choose from '' @ join '', '' EXTENSIONS))) exts)"

definition check_host_name :: "string \<Rightarrow> api_error + unit" where
  "check_host_name name =
    (if name = [] \<or> length name > 63
       \<or> \<not> list_all (\<lambda>c. is_ascii_alphanumeric c \<or> c = CHR ''-'' \<or> c = CHR ''_'' \<or> c = CHR ''.'') name
     then Inl (invalid ''name must be 1 to 63 letters, digits, dots, dashes and underscores'')
     else Inr ())"

definition resources_positive :: "resources \<Rightarrow> bool" where
  "resources_positive r \<longleftrightarrow> vcpu r > 0 \<and> memory_gb r > 0 \<and> storage_gb r > 0"

definition into_spec ::
  "(string \<Rightarrow> bool) \<Rightarrow> create_database \<Rightarrow> api_error + (string \<times> string option \<times> database_spec)" where
  "into_spec is_cidr r =
    (let mode = (case req_replication_mode r of Some m \<Rightarrow> m | None \<Rightarrow> ''async'')
     in and_then (in_turn
       [check_database_name (req_name r),
        require (req_version r \<in> set POSTGRES_VERSIONS)
          (invalid (''version must be one of '' @ join '', '' POSTGRES_VERSIONS)),
        check_replication_mode mode (req_ha r),
        check_hosts (req_hosts r) (req_ha r),
        check_retention (retention_days (req_backup r)),
        require (resources_positive (req_resources r)) (invalid ''resources must all be above zero''),
        check_owner (req_owner r),
        check_cidrs is_cidr (req_allowed_cidrs r),
        check_extensions (req_extensions r)])
       (\<lambda>_. Inr (req_name r, req_workspace r,
          \<lparr>pg_version = req_version r, ha = req_ha r, spec_hosts = req_hosts r,
           spec_resources = req_resources r, replication_mode = mode,
           allowed_cidrs = req_allowed_cidrs r, extensions = req_extensions r,
           spec_owner = req_owner r, backup = req_backup r, restore = None, replica_of = None,
           data_name = None\<rparr>)))"

text \<open>\<open>parse::<i32>\<close>: a sign, at least one digit, within the type.\<close>

definition parse_i32 :: "string \<Rightarrow> int option" where
  "parse_i32 s =
    (case s of
       c # r \<Rightarrow>
         if c = CHR ''-'' then
           (if starts_with ''+'' r then None else map_option (\<lambda>n. - int n) (from_str_radix 10 (2 ^ 31 + 1) r))
         else map_option int (from_str_radix 10 (2 ^ 31) s)
     | [] \<Rightarrow> None)"

definition node_number :: "string \<Rightarrow> int" where
  "node_number node =
    (case Option.bind (strip_prefix ''n'' node) parse_i32 of Some n \<Rightarrow> n | None \<Rightarrow> 0)"

section \<open>Repositories\<close>

record create_repository =
  repo_name :: string
  repo_kind :: string
  repo_path :: "string option"
  repo_bucket :: "string option"
  repo_prefix :: "string option"
  repo_region :: "string option"
  repo_endpoint :: "string option"
  repo_path_style :: bool
  repo_access_key_id :: "string option"
  repo_secret_access_key :: "string option"

record repository_config =
  path :: "string option"
  bucket :: "string option"
  prefix :: "string option"
  region :: "string option"
  endpoint :: "string option"
  path_style :: bool

record repository_credentials =
  access_key_id :: "string option"
  secret_access_key :: "string option"

definition plain_location :: "string option \<Rightarrow> bool" where
  "plain_location v =
    (case v of
       None \<Rightarrow> True
     | Some s \<Rightarrow> list_all (\<lambda>c. c \<noteq> CHR 0x27 \<and> c \<noteq> CHR 0x5C \<and> c \<noteq> CHR 0x0A \<and> c \<noteq> CHR 0x0D) s)"

definition check_kind :: "create_repository \<Rightarrow> api_error + unit" where
  "check_kind r =
    (if repo_kind r = ''posix'' then
       (if (case repo_path r of Some p \<Rightarrow> starts_with ''/'' p | None \<Rightarrow> False) then Inr ()
        else Inl (invalid ''a posix repository needs an absolute path''))
     else if repo_kind r = ''s3'' then
       (if (case repo_bucket r of None \<Rightarrow> True | Some b \<Rightarrow> b = [])
        then Inl (invalid ''an s3 repository needs a bucket'') else Inr ())
     else Inl (invalid ''type must be s3 or posix''))"

definition into_parts ::
  "create_repository \<Rightarrow> api_error + (string \<times> string \<times> repository_config \<times> repository_credentials)" where
  "into_parts r =
    and_then (in_turn
      [check_host_name (repo_name r),
       require (plain_location (repo_path r) \<and> plain_location (repo_bucket r) \<and> plain_location (repo_prefix r))
         (invalid ''path, bucket and prefix cannot hold quotes''),
       check_kind r,
       require ((repo_access_key_id r = None) = (repo_secret_access_key r = None))
         (invalid ''set both access_key_id and secret_access_key, or neither to use an instance role'')])
      (\<lambda>_. Inr (repo_name r, repo_kind r,
         \<lparr>path = repo_path r, bucket = repo_bucket r, prefix = repo_prefix r, region = repo_region r,
          endpoint = repo_endpoint r, path_style = repo_path_style r\<rparr>,
         \<lparr>access_key_id = repo_access_key_id r, secret_access_key = repo_secret_access_key r\<rparr>))"

record backup_target =
  target_kind :: string
  target_config :: repository_config
  target_credentials :: repository_credentials
  encryption_key :: "string option"

definition trim_start_matches :: "char \<Rightarrow> string \<Rightarrow> string" where
  "trim_start_matches c s = dropWhile (\<lambda>x. x = c) s"

definition trim_end_matches :: "char \<Rightarrow> string \<Rightarrow> string" where
  "trim_end_matches c s = rev (dropWhile (\<lambda>x. x = c) (rev s))"

definition for_database ::
  "string \<Rightarrow> repository_config \<Rightarrow> repository_credentials \<Rightarrow> string \<Rightarrow> string \<Rightarrow> backup_target" where
  "for_database kind config credentials database_id key =
    (let under = (\<lambda>base. trim_end_matches CHR ''/'' (case base of Some b \<Rightarrow> b | None \<Rightarrow> [])
                    @ ''/'' @ database_id);
         config = (if kind = ''posix'' then config\<lparr>path := Some (under (path config))\<rparr>
                   else config\<lparr>prefix := Some (trim_start_matches CHR ''/'' (under (prefix config)))\<rparr>)
     in \<lparr>target_kind = kind, target_config = config, target_credentials = credentials,
         encryption_key = Some key\<rparr>)"

section \<open>Specifications the checks let through\<close>

text \<open>
  What the checks together promise of a stored specification.  Names and verifiers
  hold no quote, so they need no escaping where the hosts put them into SQL.
\<close>

definition owner_ok :: "owner \<Rightarrow> bool" where
  "owner_ok ow \<longleftrightarrow> identifier_ok (username ow) \<and> username ow \<notin> set RESERVED_ROLES
    \<and> \<not> starts_with ''pg_'' (username ow)
    \<and> verifier_shape_ok (scram_verifier ow) \<and> list_all verifier_char (scram_verifier ow)"

definition spec_ok :: "(string \<Rightarrow> bool) \<Rightarrow> database_spec \<Rightarrow> bool" where
  "spec_ok is_cidr s \<longleftrightarrow>
    pg_version s \<in> set POSTGRES_VERSIONS
    \<and> replication_mode s \<in> set REPLICATION_MODES
    \<and> (ha s \<or> replication_mode s = ''async'')
    \<and> retention_days (backup s) \<noteq> 0
    \<and> resources_positive (spec_resources s)
    \<and> owner_ok (spec_owner s)
    \<and> list_all is_cidr (allowed_cidrs s)
    \<and> set (extensions s) \<subseteq> set EXTENSIONS
    \<and> length (spec_hosts s) \<le> (if ha s then HA_NODES else 1)
    \<and> (replica_of s \<noteq> None \<longrightarrow> \<not> ha s)"

named_theorems spec_checks \<open>what a passed check says\<close>

lemma require_Inr [simp, spec_checks]: "require b e = Inr u \<longleftrightarrow> b"
  by (simp add: require_def)

lemma in_turn_Inr [simp, spec_checks]: "in_turn rs = Inr u \<longleftrightarrow> (\<forall>r \<in> set rs. r = Inr ())"
  by (induction rs) (auto simp: and_then_Inr)

lemma check_identifier_Inr [spec_checks]: "check_identifier f s = Inr u \<longleftrightarrow> identifier_ok s"
  by (simp add: check_identifier_def)

lemma check_database_name_Inr [spec_checks]:
  "check_database_name s = Inr u \<longleftrightarrow> identifier_ok s \<and> s \<notin> set RESERVED_DATABASES"
  by (auto simp: check_database_name_def and_then_Inr check_identifier_Inr)

lemma check_replication_mode_Inr [spec_checks]:
  "check_replication_mode m h = Inr u \<longleftrightarrow> m \<in> set REPLICATION_MODES \<and> (h \<or> m = ''async'')"
  by (auto simp: check_replication_mode_def)

lemma check_retention_Inr [spec_checks]: "check_retention d = Inr u \<longleftrightarrow> d \<noteq> 0"
  by (simp add: check_retention_def)

lemma check_verifier_Inr [spec_checks]:
  "check_verifier v = Inr u \<longleftrightarrow> verifier_shape_ok v \<and> list_all verifier_char v"
  by (simp add: check_verifier_def)

lemma check_owner_Inr [spec_checks]: "check_owner ow = Inr u \<longleftrightarrow> owner_ok ow"
  by (auto simp: check_owner_def owner_ok_def and_then_Inr check_identifier_Inr check_verifier_Inr)

lemma check_cidrs_Inr [spec_checks]: "check_cidrs p cs = Inr u \<longleftrightarrow> list_all p cs"
  by (auto simp: check_cidrs_def list_all_iff)

lemma check_extensions_Inr [spec_checks]: "check_extensions es = Inr u \<longleftrightarrow> set es \<subseteq> set EXTENSIONS"
  by (auto simp: check_extensions_def)

lemma check_hosts_Inr [spec_checks]:
  "check_hosts hs h = Inr u \<longleftrightarrow>
    distinct hs \<and> (hs = [] \<or> length hs = (if h then HA_NODES else 1))"
proof -
  have "length (remdups hs) = length hs \<longleftrightarrow> distinct hs"
    by (metis card_distinct distinct_card length_remdups_card_conv)
  then show ?thesis by (cases hs) (auto simp: check_hosts_def Let_def)
qed

lemma into_spec_Inr:
  assumes "into_spec is_cidr r = Inr (name, workspace, spec)"
  shows "spec_ok is_cidr spec" "identifier_ok name" "name \<notin> set RESERVED_DATABASES"
    "restore spec = None" "replica_of spec = None"
  using assms by (auto simp: into_spec_def Let_def and_then_Inr spec_ok_def spec_checks)

end
