(* ===== verification/Admin_Store.thy ===== *)
theory Admin_Store
  imports Database_Spec
begin

text \<open>
  The metadata database of the control plane: its tables (\<open>migrations/*.sql\<close>),
  the sealed secrets in them (\<open>secrets.rs\<close>), the operations recorded in it
  (\<open>operations.rs\<close>) and the queries the components share (\<open>reconciler.rs\<close>,
  \<open>scheduler.rs\<close>).  A table is the list of its rows, in the order they were
  inserted; \<open>UPDATE\<close> and \<open>DELETE\<close> are maps and filters of it, and an \<open>INSERT\<close> that
  breaks a key is an error.  A transaction is a function from the store to an
  error or a result with the store it leaves: an error leaves the store as it
  was.  \<open>now()\<close> is the time the transaction began, in microseconds.  Random values
  are drawn from a function of what they are drawn for.
\<close>

section \<open>JSON\<close>

datatype json =
  JNull | JBool bool | JNum f64 | JStr string | JArr "json list" | JObj "(string \<times> json) list"

fun jget :: "json \<Rightarrow> string \<Rightarrow> json" where
  "jget (JObj m) k = (case map_of m k of Some v \<Rightarrow> v | None \<Rightarrow> JNull)"
| "jget v k = JNull"

fun as_str :: "json \<Rightarrow> string option" where
  "as_str (JStr s) = Some s"
| "as_str v = None"

fun as_bool :: "json \<Rightarrow> bool option" where
  "as_bool (JBool b) = Some b"
| "as_bool v = None"

fun as_u64 :: "json \<Rightarrow> nat option" where
  "as_u64 (JNum r) = (if 0 \<le> r \<and> of_int \<lfloor>r\<rfloor> = r \<and> \<lfloor>r\<rfloor> < 2 ^ 64 then Some (nat \<lfloor>r\<rfloor>) else None)"
| "as_u64 v = None"

fun jopt :: "string option \<Rightarrow> json" where
  "jopt None = JNull"
| "jopt (Some s) = JStr s"

definition json_resources :: "resources \<Rightarrow> json" where
  "json_resources r =
    JObj [(''vcpu'', JNum (vcpu r)), (''memory_gb'', JNum (memory_gb r)), (''storage_gb'', JNum (storage_gb r))]"

section \<open>Secrets\<close>

record next_passwords =
  next_superuser_password :: string
  next_replication_password :: string
  next_auth_password :: string
  next_api_key :: string

record proxy_certificate =
  proxy_cert_pem :: string
  proxy_key_pem :: string

record database_secrets =
  ca_cert_pem :: string
  ca_key_pem :: string
  superuser_password :: string
  replication_password :: string
  auth_password :: string
  api_key :: string
  backup_key :: string
  source_backup_key :: "string option"
  previous_ca_cert_pem :: "string option"
  next_pw :: "next_passwords option"
  proxy_cert :: "proxy_certificate option"

record node_secrets =
  cert_pem :: string
  key_pem :: string

definition ca_bundle :: "database_secrets \<Rightarrow> string" where
  "ca_bundle s =
    (case previous_ca_cert_pem s of
       Some previous \<Rightarrow> ca_cert_pem s @ [CHR 0x0A] @ previous
     | None \<Rightarrow> ca_cert_pem s)"

text \<open>
  The libraries the control plane calls: the AEAD cipher (key, nonce, text,
  associated data), \<open>serde_json\<close> on the sealed types, SHA-256 in hex, the
  certificate authority of \<open>ca.rs\<close> (a thin wrapper of \<open>rcgen\<close>), the TLS
  configurations of \<open>tls.rs\<close> (\<open>rustls\<close>), base64, the parser of CIDR blocks and
  the check of a certificate against its key.
\<close>

record issued =
  issued_cert_pem :: string
  issued_key_pem :: string
  issued_not_after :: int

record ca =
  ca_cert :: string
  ca_key :: string

record libs =
  lib_encrypt :: "bytes \<Rightarrow> bytes \<Rightarrow> bytes \<Rightarrow> bytes \<Rightarrow> bytes option"
  lib_decrypt :: "bytes \<Rightarrow> bytes \<Rightarrow> bytes \<Rightarrow> bytes \<Rightarrow> bytes option"
  database_to_vec :: "database_secrets \<Rightarrow> bytes"
  database_from_slice :: "bytes \<Rightarrow> database_secrets option"
  node_to_vec :: "node_secrets \<Rightarrow> bytes"
  node_from_slice :: "bytes \<Rightarrow> node_secrets option"
  credentials_to_vec :: "repository_credentials \<Rightarrow> bytes"
  credentials_from_slice :: "bytes \<Rightarrow> repository_credentials option"
  string_to_vec :: "string \<Rightarrow> bytes"
  string_from_slice :: "bytes \<Rightarrow> string option"
  lib_sha256_hex :: "string \<Rightarrow> string"
  ca_generate :: "string \<Rightarrow> bytes \<Rightarrow> string + ca"
  ca_from_pem :: "string \<Rightarrow> string \<Rightarrow> string + ca"
  ca_issue_node :: "ca \<Rightarrow> string list \<Rightarrow> bytes \<Rightarrow> string + issued"
  ca_issue_server :: "ca \<Rightarrow> string list \<Rightarrow> bytes \<Rightarrow> string + issued"
  ca_store :: "ca \<Rightarrow> string + unit"
  value_to_vec :: "bytes \<Rightarrow> bytes option"
  tls_agent :: "string list \<Rightarrow> issued \<Rightarrow> string + unit"
  tls_server :: "issued \<Rightarrow> string + unit"
  lib_base64 :: "bytes \<Rightarrow> string"
  is_cidr :: "string \<Rightarrow> bool"
  check_certificate :: "string \<Rightarrow> string \<Rightarrow> string + unit"

record secret_box =
  cipher :: bytes
  previous_cipher :: "bytes option"

text \<open>\<open>AdminState\<close>: the key that seals secrets, the scheduler's settings, and the libraries.\<close>

record admin =
  admin_libs :: libs
  secrets :: secret_box
  scheduler :: scheduler_config

type_synonym random = "string \<Rightarrow> bytes"

definition NONCE_LEN :: nat where
  "NONCE_LEN = 24"

definition seal :: "admin \<Rightarrow> random \<Rightarrow> string \<Rightarrow> bytes \<Rightarrow> string + bytes" where
  "seal a rnd context plain =
    (let nonce = take NONCE_LEN (rnd (''nonce '' @ context))
     in case lib_encrypt (admin_libs a) (cipher (secrets a)) nonce plain context of
          None \<Rightarrow> Inl ''encrypt secrets''
        | Some sealed \<Rightarrow> Inr (nonce @ sealed))"

definition unseal :: "admin \<Rightarrow> string \<Rightarrow> bytes \<Rightarrow> string + bytes" where
  "unseal a context sealed =
    (if length sealed < NONCE_LEN then Inl ''sealed secrets are too short''
     else let nonce = take NONCE_LEN sealed; body = drop NONCE_LEN sealed;
              open_with = (\<lambda>key. lib_decrypt (admin_libs a) key nonce body context)
          in ok_or (case open_with (cipher (secrets a)) of
                      Some plain \<Rightarrow> Some plain
                    | None \<Rightarrow> Option.bind (previous_cipher (secrets a)) open_with)
               ''decrypt secrets: wrong key or altered data'')"

definition seal_database :: "admin \<Rightarrow> random \<Rightarrow> string \<Rightarrow> database_secrets \<Rightarrow> string + bytes" where
  "seal_database a rnd context v = seal a rnd context (database_to_vec (admin_libs a) v)"

definition open_database :: "admin \<Rightarrow> string \<Rightarrow> bytes \<Rightarrow> string + database_secrets" where
  "open_database a context sealed =
    and_then (unseal a context sealed)
      (\<lambda>plain. ok_or (database_from_slice (admin_libs a) plain) ''invalid JSON'')"

definition seal_node :: "admin \<Rightarrow> random \<Rightarrow> string \<Rightarrow> node_secrets \<Rightarrow> string + bytes" where
  "seal_node a rnd context v = seal a rnd context (node_to_vec (admin_libs a) v)"

definition open_node :: "admin \<Rightarrow> string \<Rightarrow> bytes \<Rightarrow> string + node_secrets" where
  "open_node a context sealed =
    and_then (unseal a context sealed)
      (\<lambda>plain. ok_or (node_from_slice (admin_libs a) plain) ''invalid JSON'')"

text \<open>\<open>reseal\<close> reads the plain text as JSON and writes the value again.\<close>

definition reseal :: "admin \<Rightarrow> random \<Rightarrow> string \<Rightarrow> bytes \<Rightarrow> string + bytes" where
  "reseal a rnd context sealed =
    and_then (unseal a context sealed) (\<lambda>plain.
      and_then (ok_or (value_to_vec (admin_libs a) plain) ''invalid JSON'') (seal a rnd context))"

definition hex_digit_of :: "nat \<Rightarrow> char" where
  "hex_digit_of d = to_ascii_lowercase (from_digit d)"

definition hex_encode :: "bytes \<Rightarrow> string" where
  "hex_encode bs = concat (map (\<lambda>b. let n = of_char b in [hex_digit_of (n div 16), hex_digit_of (n mod 16)]) bs)"

definition random_token :: "random \<Rightarrow> string \<Rightarrow> string" where
  "random_token rnd what = hex_encode (take 32 (rnd what))"

definition random_backup_key :: "admin \<Rightarrow> random \<Rightarrow> string" where
  "random_backup_key a rnd = lib_base64 (admin_libs a) (take 32 (rnd ''backup_key''))"

definition generate_passwords :: "random \<Rightarrow> next_passwords" where
  "generate_passwords rnd =
    \<lparr>next_superuser_password = random_token rnd ''superuser_password'',
     next_replication_password = random_token rnd ''replication_password'',
     next_auth_password = random_token rnd ''auth_password'',
     next_api_key = random_token rnd ''api_key''\<rparr>"

section \<open>Tables\<close>

type_synonym time = int

definition secs :: "int \<Rightarrow> time" where
  "secs n = n * 1000000"

record host_row =
  h_id :: string
  h_name :: string
  h_failure_domain :: "string option"
  h_address :: "string option"
  h_version :: "string option"
  h_capacity :: "resources option"
  h_generation :: int
  h_observed_generation :: int
  h_enrolled_at :: "time option"
  h_last_seen_at :: "time option"
  h_ca_fingerprint :: "string option"
  h_certificate_ca :: "string option"
  h_draining :: bool
  h_drain_error :: "string option"
  h_drained_at :: "time option"
  h_postgres_versions :: "(string \<times> string) list"

record database_row =
  d_id :: string
  d_name :: string
  d_workspace :: "string option"
  d_status :: string
  d_status_reason :: "string option"
  d_generation :: int
  d_spec :: database_spec
  d_ca_cert_pem :: "string option"
  d_secrets :: "bytes option"
  d_observed :: json
  d_access_open :: bool
  d_updated_at :: time

record node_row =
  n_database_id :: string
  n_node :: string
  n_host_id :: string
  n_port_base :: int
  n_secrets :: bytes
  n_retracted :: bool
  n_present :: bool
  n_observed_generation :: int
  n_state :: string
  n_error :: "string option"
  n_cert_not_after :: "time option"
  n_bootstrap :: string
  n_archived_until :: "time option"
  n_offline_since :: "time option"
  n_replacement_flagged :: bool
  n_server_version :: "string option"

record operation_row =
  o_id :: string
  o_seq :: nat
  o_database_id :: string
  o_kind :: string
  o_status :: string
  o_target_generation :: int
  o_deadline :: time
  o_error :: "string option"
  o_created_at :: time
  o_finished_at :: "time option"
  o_params :: json

record step_row =
  s_operation_id :: string
  s_seq :: nat
  s_name :: string
  s_status :: string
  s_attempts :: nat
  s_not_before :: time
  s_finished_at :: "time option"

record task_row =
  t_id :: string
  t_operation_id :: string
  t_database_id :: string
  t_kind :: string
  t_run_on :: string
  t_params :: json
  t_status :: string
  t_error :: "string option"
  t_output :: json
  t_created_at :: time
  t_finished_at :: "time option"

record event_row =
  e_type :: string
  e_database_id :: "string option"
  e_node :: "string option"
  e_detail :: json
  e_at :: time

record log_row =
  l_operation_id :: string
  l_source :: string
  l_message :: string
  l_at :: time

record repository_row =
  r_id :: string
  r_name :: string
  r_type :: string
  r_config :: repository_config
  r_credentials :: "bytes option"
  r_status :: string
  r_error :: "string option"
  r_check_host_id :: "string option"

record backup_row =
  b_database_id :: string
  b_id :: string
  b_label :: string
  b_completed_at :: time
  b_size_bytes :: int

record token_row =
  k_token_hash :: string
  k_host_id :: string
  k_expires_at :: time
  k_used_at :: "time option"

record rotation_row =
  phase :: string
  old_cert_pem :: string
  new_cert_pem :: string
  new_key :: bytes

record store =
  hosts :: "host_row list"
  databases :: "database_row list"
  nodes :: "node_row list"
  operations :: "operation_row list"
  steps :: "step_row list"
  tasks :: "task_row list"
  events :: "event_row list"
  logs :: "log_row list"
  repositories :: "repository_row list"
  backups :: "backup_row list"
  tokens :: "token_row list"
  next_seq :: nat
  ca_rotation :: "rotation_row option"

definition update_where :: "('r \<Rightarrow> bool) \<Rightarrow> ('r \<Rightarrow> 'r) \<Rightarrow> 'r list \<Rightarrow> 'r list" where
  "update_where p f rows = map (\<lambda>r. if p r then f r else r) rows"

definition delete_where :: "('r \<Rightarrow> bool) \<Rightarrow> 'r list \<Rightarrow> 'r list" where
  "delete_where p rows = filter (\<lambda>r. \<not> p r) rows"

text \<open>\<open>fetch_one\<close> on a query: the first row, or \<open>RowNotFound\<close>.\<close>

definition fetch_one :: "'r list \<Rightarrow> string + 'r" where
  "fetch_one rows = (case rows of [] \<Rightarrow> Inl ''no rows returned'' | r # _ \<Rightarrow> Inr r)"

definition database_at :: "store \<Rightarrow> string \<Rightarrow> database_row list" where
  "database_at s database_id = filter (\<lambda>d. d_id d = database_id) (databases s)"

definition active :: "operation_row \<Rightarrow> bool" where
  "active op \<longleftrightarrow> o_status op = ''pending'' \<or> o_status op = ''running''"

definition busy :: "store \<Rightarrow> string \<Rightarrow> bool" where
  "busy s database_id \<longleftrightarrow> list_ex (\<lambda>op. o_database_id op = database_id \<and> active op) (operations s)"

section \<open>Operations\<close>

datatype op_kind =
  Create | Update | RollingUpdate | ReplicationMode | Delete | Restart | Switchover | Backup | Replace
| RotateCa | RotatePasswords | Resize | Upgrade | CreateReplica | PromoteReplica

fun kind_as_str :: "op_kind \<Rightarrow> string" where
  "kind_as_str Create = ''create''"
| "kind_as_str Update = ''update''"
| "kind_as_str RollingUpdate = ''rolling_update''"
| "kind_as_str ReplicationMode = ''replication_mode''"
| "kind_as_str Delete = ''delete''"
| "kind_as_str Restart = ''restart''"
| "kind_as_str Switchover = ''switchover''"
| "kind_as_str Backup = ''backup''"
| "kind_as_str Replace = ''replace''"
| "kind_as_str RotateCa = ''rotate_ca''"
| "kind_as_str RotatePasswords = ''rotate_passwords''"
| "kind_as_str Resize = ''resize''"
| "kind_as_str Upgrade = ''upgrade''"
| "kind_as_str CreateReplica = ''create_replica''"
| "kind_as_str PromoteReplica = ''promote_replica''"

definition all_kinds :: "op_kind list" where
  "all_kinds = [Create, Update, RollingUpdate, ReplicationMode, Delete, Restart, Switchover, Backup, Replace,
    RotateCa, RotatePasswords, Resize, Upgrade, CreateReplica, PromoteReplica]"

definition parse_kind :: "string \<Rightarrow> op_kind option" where
  "parse_kind text = find (\<lambda>k. kind_as_str k = text) all_kinds"

fun kind_steps :: "op_kind \<Rightarrow> string list" where
  "kind_steps Create = [''place'', ''wait_applied'', ''first_backup'', ''open_access'', ''wait_applied'', ''activate'']"
| "kind_steps Update = [''wait_applied'', ''settle'']"
| "kind_steps RollingUpdate = [''wait_applied'', ''rolling_restart'', ''new_generation'', ''wait_applied'', ''settle'']"
| "kind_steps ReplicationMode = [''wait_applied'', ''set_replication_mode'', ''settle'']"
| "kind_steps Delete = [''remove_replica'', ''retract'', ''wait_removed'', ''finalize'']"
| "kind_steps Restart = [''rolling_restart'', ''settle'']"
| "kind_steps Switchover = [''switchover'', ''settle'']"
| "kind_steps Backup = [''backup'', ''settle'']"
| "kind_steps Replace = [''wait_peers'', ''replace_member'', ''retract_old'', ''wait_old_removed'', ''drop_old'',
    ''wait_applied'', ''settle'']"
| "kind_steps RotateCa = [''ca_trust_both'', ''wait_applied'', ''ca_issue'', ''wait_applied'', ''ca_trust_new'',
    ''wait_applied'', ''settle'']"
| "kind_steps RotatePasswords = [''passwords_offer'', ''wait_applied'', ''passwords_alter'', ''passwords_commit'',
    ''wait_applied'', ''settle'']"
| "kind_steps Resize = [''wait_applied'', ''resize_restart'', ''settle'']"
| "kind_steps CreateReplica = [''place_replica'', ''add_replica'', ''wait_applied'', ''activate'']"
| "kind_steps PromoteReplica = [''detach_replica'', ''promote'', ''wait_applied'', ''first_backup'', ''open_access'',
    ''wait_applied'', ''activate'']"
| "kind_steps Upgrade = [''upgrade_check'', ''rolling_restart'', ''wait_version'', ''settle'']"

definition OPERATION_TIMEOUT_SECONDS :: int where
  "OPERATION_TIMEOUT_SECONDS = 600"

definition DATA_OPERATION_TIMEOUT_SECONDS :: int where
  "DATA_OPERATION_TIMEOUT_SECONDS = 6 * 3600"

definition timeout_seconds :: "op_kind \<Rightarrow> int" where
  "timeout_seconds k =
    (if k \<in> {Create, Backup, Replace, Restart, Resize, Upgrade, CreateReplica, PromoteReplica}
     then DATA_OPERATION_TIMEOUT_SECONDS else OPERATION_TIMEOUT_SECONDS)"

text \<open>
  \<open>create_with\<close> inserts the operation and its steps.  The id is a random UUID; an
  id in use is refused by the primary key.
\<close>

definition new_step :: "string \<Rightarrow> time \<Rightarrow> nat \<times> string \<Rightarrow> step_row" where
  "new_step op_id now = (\<lambda>(i, name).
    \<lparr>s_operation_id = op_id, s_seq = i, s_name = name, s_status = ''pending'', s_attempts = 0,
     s_not_before = now, s_finished_at = None\<rparr>)"

definition create_with ::
  "random \<Rightarrow> time \<Rightarrow> string \<Rightarrow> op_kind \<Rightarrow> int \<Rightarrow> json \<Rightarrow> store \<Rightarrow> string + (operation_row \<times> store)" where
  "create_with rnd now database_id kind target_generation params s =
    (let op_id = rnd ''operation id'';
         op = \<lparr>o_id = op_id, o_seq = next_seq s, o_database_id = database_id, o_kind = kind_as_str kind,
               o_status = ''pending'', o_target_generation = target_generation,
               o_deadline = now + secs (timeout_seconds kind), o_error = None, o_created_at = now,
               o_finished_at = None, o_params = params\<rparr>
     in if op_id \<in> set (map o_id (operations s)) then Inl ''duplicate key''
        else Inr (op, s\<lparr>operations := operations s @ [op],
                        steps := steps s @ map (new_step op_id now) (enumerate 0 (kind_steps kind)),
                        next_seq := Suc (next_seq s)\<rparr>))"

definition create_operation ::
  "random \<Rightarrow> time \<Rightarrow> string \<Rightarrow> op_kind \<Rightarrow> int \<Rightarrow> store \<Rightarrow> string + (operation_row \<times> store)" where
  "create_operation rnd now database_id kind target_generation =
    create_with rnd now database_id kind target_generation (JObj [])"

definition add_event ::
  "time \<Rightarrow> string \<Rightarrow> string option \<Rightarrow> string option \<Rightarrow> json \<Rightarrow> store \<Rightarrow> store" where
  "add_event now kind database_id node detail s =
    s\<lparr>events := events s @ [\<lparr>e_type = kind, e_database_id = database_id, e_node = node, e_detail = detail, e_at = now\<rparr>]\<rparr>"

definition add_log :: "time \<Rightarrow> string \<Rightarrow> string \<Rightarrow> string \<Rightarrow> store \<Rightarrow> store" where
  "add_log now operation_id source m s =
    s\<lparr>logs := logs s @ [\<lparr>l_operation_id = operation_id, l_source = source, l_message = m, l_at = now\<rparr>]\<rparr>"

section \<open>Shared queries\<close>

definition ONLINE_WINDOW_SECONDS :: int where
  "ONLINE_WINDOW_SECONDS = 60"

definition seen_lately :: "time \<Rightarrow> host_row \<Rightarrow> bool" where
  "seen_lately now h \<longleftrightarrow>
    (case h_last_seen_at h of Some t \<Rightarrow> t > now - secs ONLINE_WINDOW_SECONDS | None \<Rightarrow> False)"

text \<open>\<open>nodes n JOIN hosts h ON h.id = n.host_id\<close> and \<open>nodes n JOIN databases d ON d.id = n.database_id\<close>.\<close>

definition nodes_hosts :: "store \<Rightarrow> (node_row \<times> host_row) list" where
  "nodes_hosts s =
    concat (map (\<lambda>n. map (Pair n) (filter (\<lambda>h. h_id h = n_host_id n) (hosts s))) (nodes s))"

definition nodes_databases :: "store \<Rightarrow> (node_row \<times> database_row) list" where
  "nodes_databases s =
    concat (map (\<lambda>n. map (Pair n) (filter (\<lambda>d. d_id d = n_database_id n) (databases s))) (nodes s))"

definition host_load_of :: "time \<Rightarrow> store \<Rightarrow> host_row \<Rightarrow> host_load" where
  "host_load_of now s h =
    (let u = map (\<lambda>(n, d). spec_resources (d_spec d)) (filter (\<lambda>(n, d). n_host_id n = h_id h) (nodes_databases s))
     in \<lparr>load_id = h_id h, load_name = h_name h, load_address = h_address h,
         load_failure_domain = h_failure_domain h, load_capacity = h_capacity h,
         used_vcpu = sum_list (map vcpu u), used_memory_gb = sum_list (map memory_gb u),
         used_storage_gb = sum_list (map storage_gb u), instances = int (length u),
         online = seen_lately now h, load_draining = h_draining h\<rparr>)"

definition host_loads :: "time \<Rightarrow> store \<Rightarrow> host_load list" where
  "host_loads now s = map (host_load_of now s) (sort_key h_id (hosts s))"

definition bump_host :: "string \<Rightarrow> store \<Rightarrow> store" where
  "bump_host host_id s =
    s\<lparr>hosts := update_where (\<lambda>h. h_id h = host_id) (\<lambda>h. h\<lparr>h_generation := h_generation h + 1\<rparr>) (hosts s)\<rparr>"

definition live_nodes :: "store \<Rightarrow> string \<Rightarrow> node_row list" where
  "live_nodes s database_id = filter (\<lambda>n. n_database_id n = database_id \<and> \<not> n_retracted n) (nodes s)"

definition bump_hosts :: "string \<Rightarrow> store \<Rightarrow> store" where
  "bump_hosts database_id s =
    s\<lparr>hosts := update_where (\<lambda>h. h_id h \<in> set (map n_host_id (live_nodes s database_id)))
                 (\<lambda>h. h\<lparr>h_generation := h_generation h + 1\<rparr>) (hosts s)\<rparr>"

end
