(* ===== verification/Reconciler.thy ===== *)
theory Reconciler
  imports Admin_Store
begin

text \<open>
  The reconciler (\<open>pgcluster-admin/src/reconciler.rs\<close>): the operations recorded in
  the store run one step at a time.  \<open>step_once\<close> claims a step, runs it and marks it
  in one transaction; every step of \<open>run_step\<close> is a function here.  A step that
  returns an error leaves the store as it was.  The queries order rows only where
  the code says so; elsewhere the model takes the order of insertion.
\<close>

section \<open>Claimed steps and their outcomes\<close>

record claimed =
  c_operation_id :: string
  c_seq :: nat
  c_name :: string
  c_attempts :: nat
  c_database_id :: string
  c_kind :: string
  c_target_generation :: int
  c_past_deadline :: bool
  c_params :: json

datatype outcome = Finished | Wait string | Failed string

definition WAIT_RETRY :: time where
  "WAIT_RETRY = secs 1"

definition CERT_RENEW_DAYS :: int where
  "CERT_RENEW_DAYS = 30"

definition REPLACEMENT_AFTER_SECONDS :: int where
  "REPLACEMENT_AFTER_SECONDS = 300"

definition FIRST_BACKUP_LABEL :: string where
  "FIRST_BACKUP_LABEL = ''first-backup''"

text \<open>The rows the claiming query finds, in the order it looks at them.\<close>

definition first_pending :: "store \<Rightarrow> string \<Rightarrow> nat \<Rightarrow> bool" where
  "first_pending s op_id i \<longleftrightarrow>
    list_all (\<lambda>p. s_operation_id p = op_id \<and> s_status p = ''pending'' \<longrightarrow> i \<le> s_seq p) (steps s)"

definition earliest :: "store \<Rightarrow> operation_row \<Rightarrow> bool" where
  "earliest s op \<longleftrightarrow>
    list_all (\<lambda>e. \<not> (o_database_id e = o_database_id op \<and> active e \<and> o_seq e < o_seq op)) (operations s)"

definition claimable :: "time \<Rightarrow> store \<Rightarrow> step_row \<Rightarrow> operation_row \<Rightarrow> bool" where
  "claimable now s st op \<longleftrightarrow>
    o_id op = s_operation_id st \<and> s_status st = ''pending'' \<and> s_not_before st \<le> now \<and> active op
    \<and> first_pending s (s_operation_id st) (s_seq st) \<and> earliest s op"

definition claim_of :: "time \<Rightarrow> step_row \<Rightarrow> operation_row \<Rightarrow> claimed" where
  "claim_of now st op =
    \<lparr>c_operation_id = s_operation_id st, c_seq = s_seq st, c_name = s_name st, c_attempts = s_attempts st,
     c_database_id = o_database_id op, c_kind = o_kind op, c_target_generation = o_target_generation op,
     c_past_deadline = (o_deadline op < now), c_params = o_params op\<rparr>"

definition claims :: "time \<Rightarrow> store \<Rightarrow> claimed list" where
  "claims now s =
    map (\<lambda>(st, op). claim_of now st op)
      (sort_key (\<lambda>(st, op). s_not_before st)
        (filter (\<lambda>(st, op). claimable now s st op) (List.product (steps s) (operations s))))"

section \<open>Marking steps\<close>

definition set_status :: "time \<Rightarrow> string \<Rightarrow> string \<Rightarrow> string option \<Rightarrow> store \<Rightarrow> store" where
  "set_status now database_id st reason s =
    s\<lparr>databases := update_where (\<lambda>d. d_id d = database_id)
        (\<lambda>d. d\<lparr>d_status := st, d_status_reason := reason, d_updated_at := now\<rparr>) (databases s)\<rparr>"

definition mark_step :: "time \<Rightarrow> claimed \<Rightarrow> string \<Rightarrow> store \<Rightarrow> store" where
  "mark_step now c st s =
    s\<lparr>steps := update_where (\<lambda>r. s_operation_id r = c_operation_id c \<and> s_seq r = c_seq c)
        (\<lambda>r. r\<lparr>s_status := st, s_attempts := s_attempts r + 1, s_finished_at := Some now\<rparr>) (steps s)\<rparr>"

definition finish_step :: "time \<Rightarrow> claimed \<Rightarrow> store \<Rightarrow> store" where
  "finish_step now c s =
    (let s = mark_step now c ''done'' s;
         open_steps = list_ex (\<lambda>r. s_operation_id r = c_operation_id c \<and> s_status r = ''pending'') (steps s)
     in s\<lparr>operations := update_where (\<lambda>op. o_id op = c_operation_id c \<and> \<not> open_steps)
          (\<lambda>op. op\<lparr>o_status := ''succeeded'', o_finished_at := Some now\<rparr>) (operations s)\<rparr>)"

definition fail_step :: "time \<Rightarrow> claimed \<Rightarrow> string \<Rightarrow> store \<Rightarrow> store" where
  "fail_step now c m s =
    (let s = mark_step now c ''failed'' s;
         s = s\<lparr>operations := update_where (\<lambda>op. o_id op = c_operation_id c)
               (\<lambda>op. op\<lparr>o_status := ''failed'', o_error := Some m, o_finished_at := Some now\<rparr>) (operations s)\<rparr>;
         s = add_log now (c_operation_id c) ''reconciler'' m s;
         st = (case parse_kind (c_kind c) of
                 Some k \<Rightarrow> if k \<in> {Create, Delete, CreateReplica, PromoteReplica} then ''error'' else ''degraded''
               | None \<Rightarrow> ''degraded'');
         s = set_status now (c_database_id c) st (Some m) s;
         s = s\<lparr>tasks := update_where (\<lambda>t. t_operation_id t = c_operation_id c \<and> t_status t = ''pending'')
               (\<lambda>t. t\<lparr>t_status := ''failed'', t_error := Some ''the operation ended'', t_finished_at := Some now\<rparr>)
               (tasks s)\<rparr>
     in add_event now ''operation_failed'' (Some (c_database_id c)) None
          (JObj [(''operation_id'', JStr (c_operation_id c)), (''kind'', JStr (c_kind c)), (''error'', JStr m)]) s)"

definition new_generation :: "time \<Rightarrow> claimed \<Rightarrow> store \<Rightarrow> string + (int \<times> store)" where
  "new_generation now c s =
    and_then (fetch_one (database_at s (c_database_id c))) (\<lambda>d.
      let g = d_generation d + 1;
          s = s\<lparr>databases := update_where (\<lambda>d. d_id d = c_database_id c)
                (\<lambda>d. d\<lparr>d_generation := d_generation d + 1, d_updated_at := now\<rparr>) (databases s)\<rparr>;
          s = s\<lparr>operations := update_where (\<lambda>op. o_id op = c_operation_id c)
                (\<lambda>op. op\<lparr>o_target_generation := g\<rparr>) (operations s)\<rparr>
      in Inr (g, bump_hosts (c_database_id c) s))"

section \<open>Tasks for the hosts\<close>

definition run_task_on ::
  "random \<Rightarrow> time \<Rightarrow> claimed \<Rightarrow> string \<Rightarrow> string \<Rightarrow> string \<Rightarrow> json \<Rightarrow> store \<Rightarrow> string + (outcome \<times> store)" where
  "run_task_on rnd now c database_id kind run_on params s =
    (case find (\<lambda>t. t_operation_id t = c_operation_id c \<and> t_kind t = kind) (tasks s) of
       None \<Rightarrow>
         if rnd ''task id'' \<in> set (map t_id (tasks s)) then Inl ''duplicate key''
         else Inr (Wait (''waiting for '' @ kind),
           bump_hosts database_id (s\<lparr>tasks := tasks s @
             [\<lparr>t_id = rnd ''task id'', t_operation_id = c_operation_id c, t_database_id = database_id,
               t_kind = kind, t_run_on = run_on, t_params = params, t_status = ''pending'', t_error = None,
               t_output = JNull, t_created_at = now, t_finished_at = None\<rparr>]\<rparr>))
     | Some t \<Rightarrow>
         if t_status t = ''succeeded'' then Inr (Finished, s)
         else if t_status t = ''failed''
         then Inr (Failed (kind @ '' failed: '' @ (case t_error t of Some e \<Rightarrow> e | None \<Rightarrow> [])), s)
         else Inr (Wait (''waiting for '' @ kind), s))"

definition run_task ::
  "random \<Rightarrow> time \<Rightarrow> claimed \<Rightarrow> string \<Rightarrow> string \<Rightarrow> json \<Rightarrow> store \<Rightarrow> string + (outcome \<times> store)" where
  "run_task rnd now c kind run_on params s = run_task_on rnd now c (c_database_id c) kind run_on params s"

section \<open>Waiting for hosts\<close>

text \<open>
  A node of a three-node database that is known to be offline holds up nothing.  A
  host that was never seen counts as one that went away: in SQL the comparison with
  its missing time is unknown, and so the row is left out.
\<close>

definition away :: "time \<Rightarrow> database_row \<Rightarrow> node_row \<Rightarrow> host_row \<Rightarrow> bool" where
  "away now d n h \<longleftrightarrow>
    ha (d_spec d) \<and> n_offline_since n \<noteq> None
    \<and> (case h_last_seen_at h of Some t \<Rightarrow> t < now - secs ONLINE_WINDOW_SECONDS | None \<Rightarrow> True)"

definition awaited :: "time \<Rightarrow> string \<Rightarrow> string option \<Rightarrow> store \<Rightarrow> node_row list" where
  "awaited now database_id except s =
    concat (map (\<lambda>(n, h). map (\<lambda>_. n)
        (filter (\<lambda>d. d_id d = n_database_id n \<and> \<not> away now d n h) (databases s)))
      (filter (\<lambda>(n, h). n_database_id n = database_id \<and> \<not> n_retracted n \<and> except \<noteq> Some (n_node n))
        (nodes_hosts s)))"

definition applied :: "int \<Rightarrow> node_row \<Rightarrow> bool" where
  "applied target n \<longleftrightarrow> \<not> (n_observed_generation n < target \<or> n_state n \<noteq> ''running'')"

definition wait_applied :: "time \<Rightarrow> claimed \<Rightarrow> string option \<Rightarrow> store \<Rightarrow> string + (outcome \<times> store)" where
  "wait_applied now c except s =
    (case find (\<lambda>n. \<not> applied (c_target_generation c) n) (awaited now (c_database_id c) except s) of
       None \<Rightarrow> Inr (Finished, s)
     | Some n \<Rightarrow> Inr (Wait (''waiting for '' @ n_node n @ '' to apply generation ''
         @ show_int (c_target_generation c)
         @ (case n_error n of Some e \<Rightarrow> '': '' @ e | None \<Rightarrow> [])), s))"

definition old_node :: "claimed \<Rightarrow> string + string" where
  "old_node c = ok_or (as_str (jget (c_params c) ''old_node'')) ''the operation names no old node''"

definition retract_old :: "time \<Rightarrow> claimed \<Rightarrow> store \<Rightarrow> string + (outcome \<times> store)" where
  "retract_old now c s =
    and_then (old_node c) (\<lambda>old.
      let is_old = (\<lambda>n. n_database_id n = c_database_id c \<and> n_node n = old)
      in and_then (fetch_one (filter is_old (nodes s))) (\<lambda>n.
        let s = s\<lparr>nodes := update_where is_old (\<lambda>n. n\<lparr>n_retracted := True\<rparr>) (nodes s)\<rparr>;
            s = bump_host (n_host_id n) s
        in and_then (new_generation now c s) (\<lambda>(g, s). Inr (Finished, s))))"

definition wait_old_removed :: "time \<Rightarrow> claimed \<Rightarrow> store \<Rightarrow> string + (outcome \<times> store)" where
  "wait_old_removed now c s =
    and_then (old_node c) (\<lambda>old.
      if list_ex (\<lambda>(n, h). n_database_id n = c_database_id c \<and> n_node n = old \<and> n_present n
            \<and> seen_lately now h) (nodes_hosts s)
      then Inr (Wait ''waiting for the old node to go'', s)
      else Inr (Finished, s))"

definition drop_old :: "claimed \<Rightarrow> store \<Rightarrow> string + (outcome \<times> store)" where
  "drop_old c s =
    and_then (old_node c) (\<lambda>old.
      Inr (Finished, s\<lparr>nodes := delete_where (\<lambda>n. n_database_id n = c_database_id c \<and> n_node n = old) (nodes s)\<rparr>))"

definition spec_of_database :: "store \<Rightarrow> string \<Rightarrow> string + database_spec" where
  "spec_of_database s database_id = and_then (fetch_one (database_at s database_id)) (\<lambda>d. Inr (d_spec d))"

definition replica_source_of :: "store \<Rightarrow> string \<Rightarrow> string + replica_source option" where
  "replica_source_of s database_id = and_then (spec_of_database s database_id) (\<lambda>spec. Inr (replica_of spec))"

definition retract :: "claimed \<Rightarrow> store \<Rightarrow> string + (outcome \<times> store)" where
  "retract c s =
    and_then (replica_source_of s (c_database_id c)) (\<lambda>source.
      let s = (case source of Some src \<Rightarrow> bump_hosts (source_database_id src) s | None \<Rightarrow> s);
          mine = (\<lambda>n. n_database_id n = c_database_id c);
          host_ids = map n_host_id (filter mine (nodes s));
          s = s\<lparr>nodes := update_where mine (\<lambda>n. n\<lparr>n_retracted := True\<rparr>) (nodes s)\<rparr>
      in Inr (Finished, fold bump_host host_ids s))"

definition wait_removed :: "claimed \<Rightarrow> store \<Rightarrow> string + (outcome \<times> store)" where
  "wait_removed c s =
    (if list_ex (\<lambda>n. n_database_id n = c_database_id c \<and> n_present n) (nodes s)
     then Inr (Wait ''waiting for hosts to remove instances'', s)
     else Inr (Finished, s))"

definition finalize :: "time \<Rightarrow> claimed \<Rightarrow> store \<Rightarrow> string + (outcome \<times> store)" where
  "finalize now c s =
    (let s = s\<lparr>nodes := delete_where (\<lambda>n. n_database_id n = c_database_id c) (nodes s)\<rparr>;
         s = s\<lparr>databases := update_where (\<lambda>d. d_id d = c_database_id c) (\<lambda>d. d\<lparr>d_secrets := None\<rparr>) (databases s)\<rparr>
     in Inr (Finished, set_status now (c_database_id c) ''deleted'' None s))"

definition target_version :: "claimed \<Rightarrow> string + string" where
  "target_version c = ok_or (as_str (jget (c_params c) ''target_version'')) ''the operation names no version''"

text \<open>The text before the first dot.\<close>

definition major_of :: "string \<Rightarrow> string" where
  "major_of v = takeWhile (\<lambda>ch. ch \<noteq> CHR ''.'') v"

definition upgrade_check :: "claimed \<Rightarrow> store \<Rightarrow> string + (outcome \<times> store)" where
  "upgrade_check c s =
    and_then (target_version c) (\<lambda>target.
      let missing = sort (map (\<lambda>(n, h). h_name h)
            (filter (\<lambda>(n, h). n_database_id n = c_database_id c \<and> \<not> n_retracted n
                \<and> map_of (h_postgres_versions h) (major_of target) \<noteq> Some target) (nodes_hosts s)))
      in if missing = [] then Inr (Finished, s)
         else Inr (Failed (''Postgres '' @ target @ '' is not installed on '' @ join '', '' missing), s))"

definition wait_version :: "claimed \<Rightarrow> store \<Rightarrow> string + (outcome \<times> store)" where
  "wait_version c s =
    and_then (target_version c) (\<lambda>target.
      case sort_key n_node (filter (\<lambda>n. n_server_version n \<noteq> Some target) (live_nodes s (c_database_id c))) of
        [] \<Rightarrow> Inr (Finished, s)
      | n # _ \<Rightarrow> Inr (Wait (''waiting for '' @ n_node n @ '' to run '' @ target @ '', not ''
          @ (case n_server_version n of Some v \<Rightarrow> v | None \<Rightarrow> ''an unknown version'')), s))"

section \<open>Replicas\<close>

definition replica_task :: "random \<Rightarrow> time \<Rightarrow> claimed \<Rightarrow> string \<Rightarrow> store \<Rightarrow> string + (outcome \<times> store)" where
  "replica_task rnd now c kind s =
    and_then (replica_source_of s (c_database_id c)) (\<lambda>source.
      and_then (ok_or source ''the database is not a replica'') (\<lambda>src.
        and_then (fetch_one (sort_key (\<lambda>(n, h). n_node n)
            (filter (\<lambda>(n, h). n_database_id n = c_database_id c) (nodes_hosts s)))) (\<lambda>(n, h).
          let address = (case h_address h of Some a \<Rightarrow> a | None \<Rightarrow> []);
              params = JObj [(''node_id'', JStr (source_node_id src)),
                (''agent_addr'', JStr (address @ '':'' @ show_int (n_port_base n + 4))),
                (''postgres_addr'', JStr (address @ '':'' @ show_int (n_port_base n + 2)))]
          in run_task_on rnd now c (source_database_id src) kind ''leader'' params s)))"

definition promote :: "time \<Rightarrow> claimed \<Rightarrow> store \<Rightarrow> string + (outcome \<times> store)" where
  "promote now c s =
    and_then (spec_of_database s (c_database_id c)) (\<lambda>spec.
      let s = (case replica_of spec of Some src \<Rightarrow> bump_hosts (source_database_id src) s | None \<Rightarrow> s);
          s = s\<lparr>databases := update_where (\<lambda>d. d_id d = c_database_id c)
                (\<lambda>d. d\<lparr>d_spec := spec\<lparr>replica_of := None\<rparr>\<rparr>) (databases s)\<rparr>;
          s = s\<lparr>nodes := update_where (\<lambda>n. n_database_id n = c_database_id c)
                (\<lambda>n. n\<lparr>n_bootstrap := ''promoted''\<rparr>) (nodes s)\<rparr>
      in and_then (new_generation now c s) (\<lambda>(g, s). Inr (Finished, s)))"

section \<open>Secrets of a database\<close>

definition node_context :: "string \<Rightarrow> string \<Rightarrow> string" where
  "node_context database_id node = database_id @ ''/'' @ node"

definition database_secrets_of :: "admin \<Rightarrow> string \<Rightarrow> store \<Rightarrow> string + database_secrets" where
  "database_secrets_of a database_id s =
    and_then (fetch_one (database_at s database_id)) (\<lambda>d.
      and_then (ok_or (d_secrets d) ''the database has no secrets'') (\<lambda>sealed.
        open_database a database_id sealed))"

definition store_secrets :: "admin \<Rightarrow> random \<Rightarrow> string \<Rightarrow> database_secrets \<Rightarrow> store \<Rightarrow> string + store" where
  "store_secrets a rnd database_id v s =
    and_then (seal_database a rnd database_id v) (\<lambda>sealed.
      Inr (s\<lparr>databases := update_where (\<lambda>d. d_id d = database_id)
        (\<lambda>d. d\<lparr>d_secrets := Some sealed, d_ca_cert_pem := Some (ca_bundle v)\<rparr>) (databases s)\<rparr>))"

text \<open>A step that changes the secrets publishes them as a new generation.\<close>

definition publish_secrets ::
  "admin \<Rightarrow> random \<Rightarrow> time \<Rightarrow> claimed \<Rightarrow> database_secrets \<Rightarrow> store \<Rightarrow> string + (outcome \<times> store)" where
  "publish_secrets a rnd now c v s =
    and_then (store_secrets a rnd (c_database_id c) v s) (\<lambda>s.
      and_then (new_generation now c s) (\<lambda>(g, s). Inr (Finished, s)))"

definition ca_trust_both :: "admin \<Rightarrow> random \<Rightarrow> time \<Rightarrow> claimed \<Rightarrow> store \<Rightarrow> string + (outcome \<times> store)" where
  "ca_trust_both a rnd now c s =
    and_then (database_secrets_of a (c_database_id c) s) (\<lambda>v.
      and_then (fetch_one (database_at s (c_database_id c))) (\<lambda>d.
        let suffix = take 8 (random_token rnd ''ca suffix'')
        in and_then (ca_generate (admin_libs a) (''pgcluster-'' @ d_name d @ ''-'' @ suffix) (rnd ''ca key'')) (\<lambda>new.
          publish_secrets a rnd now c
            (v\<lparr>previous_ca_cert_pem := Some (ca_cert_pem v), ca_cert_pem := ca_cert new, ca_key_pem := ca_key new\<rparr>) s)))"

definition node_names :: "string \<Rightarrow> string list" where
  "node_names address =
    (if address \<in> {''127.0.0.1'', ''localhost''} then [''127.0.0.1'', ''localhost'']
     else [address, ''127.0.0.1'', ''localhost''])"

definition reissue ::
  "admin \<Rightarrow> random \<Rightarrow> string \<Rightarrow> string \<Rightarrow> string \<Rightarrow> ca \<Rightarrow> store \<Rightarrow> string + store" where
  "reissue a rnd database_id node address authority s =
    and_then (ca_issue_node (admin_libs a) authority (node_names address) (rnd (''node key '' @ node))) (\<lambda>new.
      and_then (seal_node a rnd (node_context database_id node)
          \<lparr>cert_pem = issued_cert_pem new, key_pem = issued_key_pem new\<rparr>) (\<lambda>sealed.
        Inr (s\<lparr>nodes := update_where (\<lambda>n. n_database_id n = database_id \<and> n_node n = node)
          (\<lambda>n. n\<lparr>n_secrets := sealed, n_cert_not_after := Some (issued_not_after new)\<rparr>) (nodes s)\<rparr>)))"

fun reissue_all ::
  "admin \<Rightarrow> random \<Rightarrow> string \<Rightarrow> ca \<Rightarrow> (string \<times> string option) list \<Rightarrow> store \<Rightarrow> string + store" where
  "reissue_all a rnd database_id authority [] s = Inr s"
| "reissue_all a rnd database_id authority ((node, address) # rest) s =
    and_then (ok_or address ''unexpected null'') (\<lambda>address.
      and_then (reissue a rnd database_id node address authority s)
        (reissue_all a rnd database_id authority rest))"

definition ca_issue :: "admin \<Rightarrow> random \<Rightarrow> time \<Rightarrow> claimed \<Rightarrow> store \<Rightarrow> string + (outcome \<times> store)" where
  "ca_issue a rnd now c s =
    and_then (database_secrets_of a (c_database_id c) s) (\<lambda>v.
      and_then (ca_from_pem (admin_libs a) (ca_cert_pem v) (ca_key_pem v)) (\<lambda>authority.
        and_then (reissue_all a rnd (c_database_id c) authority
            (map (\<lambda>(n, h). (n_node n, h_address h))
              (filter (\<lambda>(n, h). n_database_id n = c_database_id c \<and> \<not> n_retracted n) (nodes_hosts s))) s) (\<lambda>s.
          and_then (new_generation now c s) (\<lambda>(g, s). Inr (Finished, s)))))"

definition ca_trust_new :: "admin \<Rightarrow> random \<Rightarrow> time \<Rightarrow> claimed \<Rightarrow> store \<Rightarrow> string + (outcome \<times> store)" where
  "ca_trust_new a rnd now c s =
    and_then (database_secrets_of a (c_database_id c) s) (\<lambda>v.
      publish_secrets a rnd now c (v\<lparr>previous_ca_cert_pem := None\<rparr>) s)"

definition passwords_offer :: "admin \<Rightarrow> random \<Rightarrow> time \<Rightarrow> claimed \<Rightarrow> store \<Rightarrow> string + (outcome \<times> store)" where
  "passwords_offer a rnd now c s =
    and_then (database_secrets_of a (c_database_id c) s) (\<lambda>v.
      publish_secrets a rnd now c (v\<lparr>next_pw := Some (generate_passwords rnd)\<rparr>) s)"

definition passwords_commit :: "admin \<Rightarrow> random \<Rightarrow> time \<Rightarrow> claimed \<Rightarrow> store \<Rightarrow> string + (outcome \<times> store)" where
  "passwords_commit a rnd now c s =
    and_then (database_secrets_of a (c_database_id c) s) (\<lambda>v.
      and_then (ok_or (next_pw v) ''no passwords to commit'') (\<lambda>p.
        publish_secrets a rnd now c
          (v\<lparr>next_pw := None, superuser_password := next_superuser_password p,
             replication_password := next_replication_password p,
             auth_password := next_auth_password p, api_key := next_api_key p\<rparr>) s))"

section \<open>Placing nodes\<close>

text \<open>\<open>generate_series(start, end, step)\<close>, for a positive step.\<close>

definition generate_series :: "int \<Rightarrow> int \<Rightarrow> int \<Rightarrow> int list" where
  "generate_series lo hi step = map (\<lambda>i. lo + step * int i) [0 ..< nat ((hi - lo) div step + 1)]"

definition free_port :: "scheduler_config \<Rightarrow> string \<Rightarrow> store \<Rightarrow> int option" where
  "free_port c host_id s =
    find (\<lambda>p. \<not> list_ex (\<lambda>n. n_host_id n = host_id \<and> n_port_base n = p) (nodes s))
      (generate_series (port_base_start c) (port_base_end c) PORT_BLOCK)"

definition new_node :: "string \<Rightarrow> string \<Rightarrow> string \<Rightarrow> int \<Rightarrow> bytes \<Rightarrow> time \<Rightarrow> string \<Rightarrow> node_row" where
  "new_node database_id node host_id port sealed not_after bootstrap =
    \<lparr>n_database_id = database_id, n_node = node, n_host_id = host_id, n_port_base = port, n_secrets = sealed,
     n_retracted = False, n_present = False, n_observed_generation = 0, n_state = ''pending'', n_error = None,
     n_cert_not_after = Some not_after, n_bootstrap = bootstrap, n_archived_until = None,
     n_offline_since = None, n_replacement_flagged = False, n_server_version = None\<rparr>"

definition add_node ::
  "admin \<Rightarrow> random \<Rightarrow> string \<Rightarrow> string \<Rightarrow> string \<Rightarrow> string \<Rightarrow> string \<Rightarrow> ca \<Rightarrow> store
    \<Rightarrow> string + (int option \<times> store)" where
  "add_node a rnd database_id node host_id address bootstrap authority s =
    (case free_port (scheduler a) host_id s of
       None \<Rightarrow> Inr (None, s)
     | Some port \<Rightarrow>
         and_then (ca_issue_node (admin_libs a) authority (node_names address) (rnd (''node key '' @ node))) (\<lambda>new.
           and_then (seal_node a rnd (node_context database_id node)
               \<lparr>cert_pem = issued_cert_pem new, key_pem = issued_key_pem new\<rparr>) (\<lambda>sealed.
             if list_ex (\<lambda>n. n_database_id n = database_id \<and> n_node n = node) (nodes s) then Inl ''duplicate key''
             else Inr (Some port, bump_host host_id (s\<lparr>nodes := nodes s @
               [new_node database_id node host_id port sealed (issued_not_after new) bootstrap]\<rparr>)))))"

definition usable_host :: "host_load \<Rightarrow> bool" where
  "usable_host h \<longleftrightarrow> online h \<and> \<not> load_draining h \<and> load_address h \<noteq> None"

definition wanted_host :: "database_spec \<Rightarrow> host_load \<Rightarrow> bool" where
  "wanted_host spec h \<longleftrightarrow>
    spec_hosts spec = [] \<or> load_id h \<in> set (spec_hosts spec) \<or> load_name h \<in> set (spec_hosts spec)"

fun place_nodes ::
  "admin \<Rightarrow> random \<Rightarrow> time \<Rightarrow> claimed \<Rightarrow> ca \<Rightarrow> string \<Rightarrow> nat \<Rightarrow> host_load list \<Rightarrow> store
    \<Rightarrow> string + (outcome \<times> store)" where
  "place_nodes a rnd now c authority first i [] s = Inr (Finished, s)"
| "place_nodes a rnd now c authority first i (h # hs) s =
    (let address = (case load_address h of Some x \<Rightarrow> x | None \<Rightarrow> []);
         node = ''n'' @ show_radix 10 (i + 1);
         bootstrap = (if i = 0 then first else ''seed'')
     in and_then (add_node a rnd (c_database_id c) node (load_id h) address bootstrap authority s) (\<lambda>(port, s).
          case port of
            None \<Rightarrow> Inr (Failed (''host '' @ load_id h @ '' has no free ports''), s)
          | Some p \<Rightarrow> place_nodes a rnd now c authority first (i + 1) hs
              (add_log now (c_operation_id c) ''reconciler''
                (''placed '' @ node @ '' on host '' @ load_id h @ '' at port '' @ show_int p) s)))"

definition fresh_secrets :: "admin \<Rightarrow> random \<Rightarrow> ca \<Rightarrow> string option \<Rightarrow> database_secrets" where
  "fresh_secrets a rnd authority source_key =
    \<lparr>ca_cert_pem = ca_cert authority, ca_key_pem = ca_key authority,
     superuser_password = random_token rnd ''superuser_password'',
     replication_password = random_token rnd ''replication_password'',
     auth_password = random_token rnd ''auth_password'', api_key = random_token rnd ''api_key'',
     backup_key = random_backup_key a rnd, source_backup_key = source_key, previous_ca_cert_pem = None,
     next_pw = None, proxy_cert = None\<rparr>"

definition place_step :: "admin \<Rightarrow> random \<Rightarrow> time \<Rightarrow> claimed \<Rightarrow> store \<Rightarrow> string + (outcome \<times> store)" where
  "place_step a rnd now c s =
    and_then (fetch_one (database_at s (c_database_id c))) (\<lambda>d.
      let spec = d_spec d;
          candidates = filter (wanted_host spec) (filter usable_host (host_loads now s));
          n = (if ha spec then HA_NODES else 1)
      in case place (scheduler a) candidates n (spec_resources spec) of
           TooFewHosts \<Rightarrow> Inr (Wait (if ha spec then ''waiting for three online hosts in separate failure domains''
                                     else ''waiting for an online host''), s)
         | NoRoom m \<Rightarrow> Inr (Failed m, s)
         | Placed chosen \<Rightarrow>
             and_then (ca_generate (admin_libs a) (''pgcluster-'' @ d_name d) (rnd ''ca key'')) (\<lambda>authority.
               and_then (case restore spec of
                   Some src \<Rightarrow> and_then (database_secrets_of a (restore_database_id src) s) (\<lambda>v. Inr (Some (backup_key v)))
                 | None \<Rightarrow> Inr None) (\<lambda>source_key.
                 and_then (seal_database a rnd (c_database_id c) (fresh_secrets a rnd authority source_key)) (\<lambda>sealed.
                   let s = s\<lparr>databases := update_where (\<lambda>d. d_id d = c_database_id c)
                         (\<lambda>d. d\<lparr>d_ca_cert_pem := Some (ca_cert authority), d_secrets := Some sealed\<rparr>) (databases s)\<rparr>
                   in place_nodes a rnd now c authority (if restore spec \<noteq> None then ''restore'' else ''initdb'')
                        0 chosen s))))"

definition domain_of :: "host_row \<Rightarrow> string" where
  "domain_of h = (case h_failure_domain h of Some x \<Rightarrow> x | None \<Rightarrow> h_id h)"

definition taken_domains :: "store \<Rightarrow> string \<Rightarrow> string list" where
  "taken_domains s database_id =
    map (\<lambda>(n, h). domain_of h)
      (filter (\<lambda>(n, h). n_database_id n = database_id \<and> \<not> n_retracted n) (nodes_hosts s))"

definition place_replica :: "admin \<Rightarrow> random \<Rightarrow> time \<Rightarrow> claimed \<Rightarrow> store \<Rightarrow> string + (outcome \<times> store)" where
  "place_replica a rnd now c s =
    and_then (spec_of_database s (c_database_id c)) (\<lambda>spec.
      and_then (ok_or (replica_of spec) ''the database is not a replica'') (\<lambda>src.
        let domains = taken_domains s (source_database_id src);
            candidates = filter (wanted_host spec)
              (filter (\<lambda>h. domain h \<notin> set domains) (filter usable_host (host_loads now s)))
        in case place (scheduler a) candidates 1 (spec_resources spec) of
             TooFewHosts \<Rightarrow> Inr (Wait (''waiting for an online host outside the source'' @ [CHR 0x27]
               @ ''s failure domains''), s)
           | NoRoom m \<Rightarrow> Inr (Failed m, s)
           | Placed chosen \<Rightarrow>
               and_then (fetch_one chosen) (\<lambda>h.
                 and_then (database_secrets_of a (source_database_id src) s) (\<lambda>v.
                   let v = v\<lparr>backup_key := random_backup_key a rnd, source_backup_key := None,
                             previous_ca_cert_pem := None, next_pw := None, proxy_cert := None\<rparr>
                   in and_then (ca_from_pem (admin_libs a) (ca_cert_pem v) (ca_key_pem v)) (\<lambda>authority.
                     and_then (store_secrets a rnd (c_database_id c) v s) (\<lambda>s.
                       and_then (add_node a rnd (c_database_id c) ''n1'' (load_id h)
                           (case load_address h of Some x \<Rightarrow> x | None \<Rightarrow> []) ''replica'' authority s) (\<lambda>(port, s).
                         case port of
                           None \<Rightarrow> Inr (Failed (''host '' @ load_name h @ '' has no free ports''), s)
                         | Some p \<Rightarrow> Inr (Finished, add_log now (c_operation_id c) ''reconciler''
                             (''placed the replica on host '' @ load_name h @ '' at port '' @ show_int p)
                             (bump_hosts (source_database_id src) s)))))))))"

section \<open>Running a step\<close>

definition open_access :: "time \<Rightarrow> claimed \<Rightarrow> store \<Rightarrow> string + (outcome \<times> store)" where
  "open_access now c s =
    (let s = s\<lparr>databases := update_where (\<lambda>d. d_id d = c_database_id c)
           (\<lambda>d. d\<lparr>d_access_open := True\<rparr>) (databases s)\<rparr>
     in and_then (new_generation now c s) (\<lambda>(g, s). Inr (Finished, s)))"

definition run_step :: "admin \<Rightarrow> random \<Rightarrow> time \<Rightarrow> claimed \<Rightarrow> store \<Rightarrow> string + (outcome \<times> store)" where
  "run_step a rnd now c s =
    (let name = c_name c
     in if name = ''place'' then place_step a rnd now c s
        else if name = ''wait_applied'' then wait_applied now c None s
        else if name = ''wait_peers'' then wait_applied now c (as_str (jget (c_params c) ''new_node'')) s
        else if name = ''activate'' then Inr (Finished, set_status now (c_database_id c) ''active'' None s)
        else if name = ''settle'' then Inr (Finished, s)
        else if name = ''retract'' then retract c s
        else if name = ''wait_removed'' then wait_removed c s
        else if name = ''finalize'' then finalize now c s
        else if name = ''first_backup''
        then run_task rnd now c ''backup'' ''leader'' (JObj [(''label'', JStr FIRST_BACKUP_LABEL)]) s
        else if name = ''backup''
        then run_task rnd now c ''backup'' ''leader'' (JObj [(''label'', jget (c_params c) ''label'')]) s
        else if name = ''open_access'' then open_access now c s
        else if name = ''new_generation''
        then and_then (new_generation now c s) (\<lambda>(g, s). Inr (Finished, s))
        else if name = ''rolling_restart'' then run_task rnd now c ''rolling_restart'' ''leader'' (JObj []) s
        else if name = ''resize_restart'' then
          (if as_bool (jget (c_params c) ''restart'') = Some True
           then run_task rnd now c ''rolling_restart'' ''leader'' (JObj []) s
           else Inr (Finished, s))
        else if name = ''upgrade_check'' then upgrade_check c s
        else if name = ''place_replica'' then place_replica a rnd now c s
        else if name = ''add_replica'' then replica_task rnd now c ''add_replica'' s
        else if name = ''detach_replica'' then replica_task rnd now c ''detach_replica'' s
        else if name = ''remove_replica'' then
          and_then (replica_source_of s (c_database_id c)) (\<lambda>source.
            case source of
              Some _ \<Rightarrow> replica_task rnd now c ''remove_replica'' s
            | None \<Rightarrow> Inr (Finished, s))
        else if name = ''promote'' then promote now c s
        else if name = ''wait_version'' then wait_version c s
        else if name = ''switchover''
        then run_task rnd now c ''switchover'' ''leader'' (JObj [(''target'', jget (c_params c) ''target'')]) s
        else if name = ''set_replication_mode''
        then run_task rnd now c ''replication_mode'' ''leader'' (JObj [(''mode'', jget (c_params c) ''mode'')]) s
        else if name = ''replace_member'' then run_task rnd now c ''replace_member'' ''leader'' (c_params c) s
        else if name = ''retract_old'' then retract_old now c s
        else if name = ''wait_old_removed'' then wait_old_removed now c s
        else if name = ''drop_old'' then drop_old c s
        else if name = ''ca_trust_both'' then ca_trust_both a rnd now c s
        else if name = ''ca_issue'' then ca_issue a rnd now c s
        else if name = ''ca_trust_new'' then ca_trust_new a rnd now c s
        else if name = ''passwords_offer'' then passwords_offer a rnd now c s
        else if name = ''passwords_alter'' then run_task rnd now c ''alter_passwords'' ''primary'' (JObj []) s
        else if name = ''passwords_commit'' then passwords_commit a rnd now c s
        else Inr (Failed (''unknown step '' @ name), s))"

definition postpone :: "time \<Rightarrow> claimed \<Rightarrow> string \<Rightarrow> store \<Rightarrow> store" where
  "postpone now c m s =
    (let s = (if c_attempts c = 0 then add_log now (c_operation_id c) ''reconciler'' m s else s)
     in s\<lparr>steps := update_where (\<lambda>r. s_operation_id r = c_operation_id c \<and> s_seq r = c_seq c)
          (\<lambda>r. r\<lparr>s_attempts := s_attempts r + 1, s_not_before := now + WAIT_RETRY\<rparr>) (steps s)\<rparr>)"

definition settle_outcome :: "time \<Rightarrow> claimed \<Rightarrow> outcome \<Rightarrow> store \<Rightarrow> store" where
  "settle_outcome now c r s =
    (case r of
       Finished \<Rightarrow> finish_step now c s
     | Wait m \<Rightarrow> if c_past_deadline c then fail_step now c (''timed out in step '' @ c_name c) s
                else postpone now c m s
     | Failed m \<Rightarrow> fail_step now c m s)"

text \<open>
  \<open>step_once\<close> from its claim on.  Another transaction may have ended the operation
  between the claim and the lock, and then nothing is done.
\<close>

definition step_on :: "admin \<Rightarrow> random \<Rightarrow> time \<Rightarrow> claimed \<Rightarrow> store \<Rightarrow> string + store" where
  "step_on a rnd now c s =
    (if \<not> list_ex (\<lambda>op. o_id op = c_operation_id c \<and> active op) (operations s) then Inr s
     else let s = s\<lparr>operations := update_where (\<lambda>op. o_id op = c_operation_id c)
                (\<lambda>op. op\<lparr>o_status := ''running''\<rparr>) (operations s)\<rparr>
          in and_then (run_step a rnd now c s) (\<lambda>(r, s). Inr (settle_outcome now c r s)))"

definition step_once :: "admin \<Rightarrow> random \<Rightarrow> time \<Rightarrow> store \<Rightarrow> string + (bool \<times> store)" where
  "step_once a rnd now s =
    (case claims now s of
       [] \<Rightarrow> Inr (False, s)
     | c # _ \<Rightarrow> and_then (step_on a rnd now c s) (\<lambda>s. Inr (True, s)))"

text \<open>
  The inner loop of \<open>run\<close>: steps run until none is due or one returns an error.  The
  \<open>n\<close>-th step of the loop has its own random values and its own time.
\<close>

fun run_due :: "admin \<Rightarrow> (nat \<Rightarrow> random \<times> time) \<Rightarrow> nat \<Rightarrow> nat \<Rightarrow> store \<Rightarrow> store option" where
  "run_due a draw 0 n s = None"
| "run_due a draw (Suc fuel) n s =
    (case step_once a (fst (draw n)) (snd (draw n)) s of
       Inl e \<Rightarrow> Some s
     | Inr (again, s') \<Rightarrow> if again then run_due a draw fuel (n + 1) s' else Some s')"

section \<open>Sweeps\<close>

definition offline :: "time \<Rightarrow> host_row \<Rightarrow> bool" where
  "offline now h \<longleftrightarrow>
    (case h_last_seen_at h of None \<Rightarrow> True | Some t \<Rightarrow> t < now - secs ONLINE_WINDOW_SECONDS)"

text \<open>\<open>UPDATE nodes ... RETURNING database_id, node\<close>, and an event for each row.\<close>

definition flag_nodes ::
  "time \<Rightarrow> string \<Rightarrow> (store \<Rightarrow> node_row \<Rightarrow> bool) \<Rightarrow> (node_row \<Rightarrow> node_row) \<Rightarrow> store \<Rightarrow> store" where
  "flag_nodes now kind p f s =
    (let hit = filter (p s) (nodes s);
         s = s\<lparr>nodes := update_where (p s) f (nodes s)\<rparr>
     in fold (\<lambda>n. add_event now kind (Some (n_database_id n)) (Some (n_node n)) (JObj [])) hit s)"

definition on_host :: "store \<Rightarrow> node_row \<Rightarrow> (host_row \<Rightarrow> bool) \<Rightarrow> bool" where
  "on_host s n p \<longleftrightarrow> list_ex (\<lambda>h. h_id h = n_host_id n \<and> p h) (hosts s)"

definition track_nodes :: "time \<Rightarrow> store \<Rightarrow> store" where
  "track_nodes now s =
    flag_nodes now ''replacement_needed''
      (\<lambda>s n. list_ex (\<lambda>d. d_id d = n_database_id n \<and> ha (d_spec d)) (databases s)
        \<and> (case n_offline_since n of Some t \<Rightarrow> t < now - secs REPLACEMENT_AFTER_SECONDS | None \<Rightarrow> False)
        \<and> \<not> n_replacement_flagged n \<and> \<not> n_retracted n)
      (\<lambda>n. n\<lparr>n_replacement_flagged := True\<rparr>)
    (flag_nodes now ''node_online''
      (\<lambda>s n. n_offline_since n \<noteq> None \<and> \<not> n_retracted n \<and> on_host s n (\<lambda>h. \<not> offline now h))
      (\<lambda>n. n\<lparr>n_offline_since := None, n_replacement_flagged := False\<rparr>)
    (flag_nodes now ''node_offline''
      (\<lambda>s n. n_offline_since n = None \<and> \<not> n_retracted n \<and> on_host s n (offline now))
      (\<lambda>n. n\<lparr>n_offline_since := Some now\<rparr>) s))"

definition node_problem :: "time \<Rightarrow> store \<Rightarrow> database_row \<Rightarrow> string option" where
  "node_problem now s d =
    (case sort_key (\<lambda>(n, h). n_node n)
        (filter (\<lambda>(n, h). n_database_id n = d_id d \<and> \<not> n_retracted n \<and> (n_state n = ''failed'' \<or> offline now h))
          (nodes_hosts s)) of
       [] \<Rightarrow> None
     | (n, h) # _ \<Rightarrow>
         Some (if n_state n = ''failed''
               then ''node '' @ n_node n @ '' failed: '' @ (case n_error n of Some e \<Rightarrow> e | None \<Rightarrow> [])
               else ''node '' @ n_node n @ '' is on an offline host''))"

definition problem :: "time \<Rightarrow> store \<Rightarrow> database_row \<Rightarrow> string option" where
  "problem now s d =
    (case node_problem now s d of
       Some m \<Rightarrow> Some m
     | None \<Rightarrow>
         if as_bool (jget (d_observed d) ''sync_degraded'') = Some True then Some ''sync has fallen back to async''
         else map_option (\<lambda>e. ''backups are failing: '' @ e) (as_str (jget (d_observed d) ''backup_error'')))"

definition sweep :: "time \<Rightarrow> store \<Rightarrow> store" where
  "sweep now s =
    (let s = track_nodes now s;
         s = s\<lparr>databases := map (\<lambda>d. if d_status d = ''active'' \<and> problem now s d \<noteq> None
               then d\<lparr>d_status := ''degraded'', d_status_reason := problem now s d, d_updated_at := now\<rparr> else d)
               (databases s)\<rparr>
     in s\<lparr>databases := map (\<lambda>d. if d_status d = ''degraded'' \<and> problem now s d = None
               then d\<lparr>d_status := ''active'', d_status_reason := None, d_updated_at := now\<rparr> else d)
               (databases s)\<rparr>)"

section \<open>Certificates near their end\<close>

definition serving :: "string \<Rightarrow> bool" where
  "serving st \<longleftrightarrow> st = ''active'' \<or> st = ''degraded''"

definition renewals_due :: "time \<Rightarrow> store \<Rightarrow> (string \<times> string) list" where
  "renewals_due now s =
    concat (map (\<lambda>(n, h). map (\<lambda>_. (n_database_id n, n_node n))
        (filter (\<lambda>d. d_id d = n_database_id n \<and> serving (d_status d)
            \<and> (case n_cert_not_after n of None \<Rightarrow> True | Some t \<Rightarrow> t < now + secs (CERT_RENEW_DAYS * 86400))
            \<and> seen_lately now h \<and> \<not> busy s (d_id d)) (databases s)))
      (filter (\<lambda>(n, h). \<not> n_retracted n) (nodes_hosts s)))"

definition renew_certificate :: "admin \<Rightarrow> random \<Rightarrow> time \<Rightarrow> string \<Rightarrow> string \<Rightarrow> store \<Rightarrow> string + store" where
  "renew_certificate a rnd now database_id node s =
    (case filter (\<lambda>d. d_id d = database_id \<and> serving (d_status d)) (databases s) of
       [] \<Rightarrow> Inr s
     | d # _ \<Rightarrow>
         (case d_secrets d of
            None \<Rightarrow> Inr s
          | Some sealed \<Rightarrow>
              if busy s database_id then Inr s
              else and_then (fetch_one (filter (\<lambda>(n, h). n_database_id n = database_id \<and> n_node n = node) (nodes_hosts s)))
                (\<lambda>(n, h). and_then (ok_or (h_address h) ''unexpected null'') (\<lambda>address.
                  and_then (open_database a database_id sealed) (\<lambda>v.
                    and_then (ca_from_pem (admin_libs a) (ca_cert_pem v) (ca_key_pem v)) (\<lambda>authority.
                      and_then (reissue a rnd database_id node address authority s) (\<lambda>s.
                        let s = s\<lparr>databases := update_where (\<lambda>d. d_id d = database_id)
                              (\<lambda>d. d\<lparr>d_generation := d_generation d + 1, d_updated_at := now\<rparr>) (databases s)\<rparr>;
                            s = bump_host (h_id h) s
                        in and_then (create_operation rnd now database_id Update (d_generation d + 1) s) (\<lambda>(op, s).
                             Inr (add_log now (o_id op) ''reconciler''
                               (''renewed the certificate of '' @ node) s)))))))))"

text \<open>Each renewal is a transaction of its own; the first error ends the round.\<close>

fun renew_each ::
  "admin \<Rightarrow> (string \<Rightarrow> random) \<Rightarrow> time \<Rightarrow> (string \<times> string) list \<Rightarrow> store \<Rightarrow> store \<times> string option" where
  "renew_each a draw now [] s = (s, None)"
| "renew_each a draw now ((database_id, node) # due) s =
    (case renew_certificate a (draw (node_context database_id node)) now database_id node s of
       Inl e \<Rightarrow> (s, Some e)
     | Inr s' \<Rightarrow> renew_each a draw now due s')"

definition renew_certificates :: "admin \<Rightarrow> (string \<Rightarrow> random) \<Rightarrow> time \<Rightarrow> store \<Rightarrow> store \<times> string option" where
  "renew_certificates a draw now s = renew_each a draw now (renewals_due now s) s"

end
