(* ===== verification/Admin_Agent.thy ===== *)
theory Admin_Agent
  imports Reconciler
begin

text \<open>
  The API the hosts call (\<open>pgcluster-admin/src/agent.rs\<close>): enrolment, the state a
  host should have, and what hosts and cluster leaders report.  The certificate
  authority that signs host certificates is the parameter \<open>sign\<close>, its fingerprint
  and the hash of a token are parameters too.  The long poll of
  \<open>desired_state\<close> returns as soon as the generation differs; what it returns is
  \<open>build_desired_state\<close>.
\<close>

section \<open>Who calls\<close>

definition known_host :: "store \<Rightarrow> string option \<Rightarrow> api_error + string" where
  "known_host s peer =
    and_then (ok_or peer (unauthorized ''a client certificate is required'')) (\<lambda>claimed_id.
      if list_ex (\<lambda>h. h_id h = claimed_id \<and> h_enrolled_at h \<noteq> None) (hosts s) then Inr claimed_id
      else Inl (unauthorized ''this host is not enrolled''))"

definition token_usable :: "time \<Rightarrow> string \<Rightarrow> token_row \<Rightarrow> bool" where
  "token_usable now hash k \<longleftrightarrow> k_token_hash k = hash \<and> k_used_at k = None \<and> k_expires_at k > now"

definition enroll ::
  "(string \<Rightarrow> string \<Rightarrow> string + string) \<Rightarrow> string \<Rightarrow> time \<Rightarrow> string \<Rightarrow> string \<Rightarrow> store
    \<Rightarrow> api_error + ((string \<times> string) \<times> store)" where
  "enroll sign fingerprint now hash csr s =
    (case filter (token_usable now hash) (tokens s) of
       [] \<Rightarrow> Inl (unauthorized ''the token is invalid, expired or already used'')
     | k # _ \<Rightarrow>
         and_then (map_err (\<lambda>e. \<lparr>status_code = 400, error_code = ''invalid_csr'', message = e\<rparr>)
             (sign csr (k_host_id k))) (\<lambda>cert.
           Inr ((k_host_id k, cert),
             s\<lparr>tokens := update_where (token_usable now hash) (\<lambda>k. k\<lparr>k_used_at := Some now\<rparr>) (tokens s),
               hosts := update_where (\<lambda>h. h_id h = k_host_id k)
                 (\<lambda>h. h\<lparr>h_enrolled_at := Some now, h_certificate_ca := Some fingerprint\<rparr>) (hosts s)\<rparr>)))"

definition rotate_certificate ::
  "(string \<Rightarrow> string \<Rightarrow> string + string) \<Rightarrow> string \<Rightarrow> string \<Rightarrow> string \<Rightarrow> store
    \<Rightarrow> api_error + (string \<times> store)" where
  "rotate_certificate sign fingerprint host_id csr s =
    and_then (map_err (\<lambda>e. \<lparr>status_code = 400, error_code = ''invalid_csr'', message = e\<rparr>) (sign csr host_id)) (\<lambda>cert.
      Inr (cert, s\<lparr>hosts := update_where (\<lambda>h. h_id h = host_id)
        (\<lambda>h. h\<lparr>h_certificate_ca := Some fingerprint\<rparr>) (hosts s)\<rparr>))"

section \<open>The state a host should have\<close>

record peer =
  peer_node :: string
  peer_address :: string
  peer_port_base :: int

record instance_secrets =
  i_ca_cert_pem :: string
  i_cert_pem :: string
  i_key_pem :: string
  i_superuser_password :: string
  i_replication_password :: string
  i_auth_password :: string
  i_api_key :: string
  i_next :: "next_passwords option"
  i_proxy_cert_pem :: "string option"
  i_proxy_key_pem :: "string option"

definition merge_secrets :: "database_secrets \<Rightarrow> node_secrets \<Rightarrow> instance_secrets" where
  "merge_secrets d n =
    \<lparr>i_ca_cert_pem = ca_bundle d, i_cert_pem = cert_pem n, i_key_pem = key_pem n,
     i_superuser_password = superuser_password d, i_replication_password = replication_password d,
     i_auth_password = auth_password d, i_api_key = api_key d, i_next = next_pw d,
     i_proxy_cert_pem = map_option proxy_cert_pem (proxy_cert d),
     i_proxy_key_pem = map_option proxy_key_pem (proxy_cert d)\<rparr>"

record instance_restore =
  restore_from :: backup_target
  restore_target_time :: "string option"
  restore_source_database :: string

record instance_desc =
  i_database_id :: string
  i_database_name :: string
  i_node :: string
  i_generation :: int
  i_operation_id :: "string option"
  i_postgres_version :: string
  i_resources :: resources
  i_port_base :: int
  i_address :: string
  i_peers :: "peer list"
  i_bootstrap :: string
  i_restore :: "instance_restore option"
  i_backup :: backup_target
  i_retain_full :: u32
  i_tasks :: "(string \<times> string \<times> string \<times> json) list"
  i_replication_mode :: string
  i_allowed_cidrs :: "string list"
  i_extensions :: "string list"
  i_owner :: owner
  i_secrets :: instance_secrets
  i_role :: string
  i_rename_from :: "string option"
  i_replicas :: "peer list"

definition repository_of ::
  "admin \<Rightarrow> store \<Rightarrow> string \<Rightarrow> string + (string \<times> repository_config \<times> repository_credentials)" where
  "repository_of a s i =
    and_then (ok_or (find (\<lambda>r. r_id r = i) (repositories s)) ''no repository'') (\<lambda>r.
      and_then (case r_credentials r of
          Some sealed \<Rightarrow> and_then (unseal a (''repository/'' @ i) sealed)
            (\<lambda>plain. ok_or (credentials_from_slice (admin_libs a) plain) ''invalid JSON'')
        | None \<Rightarrow> Inr \<lparr>access_key_id = None, secret_access_key = None\<rparr>) (\<lambda>credentials.
        Inr (r_type r, r_config r, credentials)))"

definition to_peers :: "(string \<times> string option \<times> int) list \<Rightarrow> peer list" where
  "to_peers rows =
    List.map_filter (\<lambda>(node, address, port).
      map_option (\<lambda>x. \<lparr>peer_node = node, peer_address = x, peer_port_base = port\<rparr>) address) rows"

definition peers_of :: "store \<Rightarrow> string \<Rightarrow> string \<Rightarrow> peer list" where
  "peers_of s database_id node =
    to_peers (map (\<lambda>(n, h). (n_node n, h_address h, n_port_base n))
      (sort_key (\<lambda>(n, h). n_node n)
        (filter (\<lambda>(n, h). n_database_id n = database_id \<and> n_node n \<noteq> node \<and> \<not> n_retracted n) (nodes_hosts s))))"

definition replicas_of :: "store \<Rightarrow> string \<Rightarrow> peer list" where
  "replicas_of s database_id =
    to_peers (concat (map (\<lambda>d. case replica_of (d_spec d) of
        None \<Rightarrow> []
      | Some r \<Rightarrow>
          if source_database_id r = database_id \<and> d_status d \<noteq> ''deleted''
          then map (\<lambda>(n, h). (source_node_id r, h_address h, n_port_base n))
            (filter (\<lambda>(n, h). n_database_id n = d_id d \<and> \<not> n_retracted n) (nodes_hosts s))
          else []) (sort_key d_id (databases s))))"

definition current_operation :: "store \<Rightarrow> string \<Rightarrow> string option" where
  "current_operation s database_id =
    (case sort_key o_seq (filter (\<lambda>op. o_database_id op = database_id \<and> active op) (operations s)) of
       [] \<Rightarrow> None
     | op # _ \<Rightarrow> Some (o_id op))"

definition pending_tasks :: "store \<Rightarrow> string \<Rightarrow> (string \<times> string \<times> string \<times> json) list" where
  "pending_tasks s database_id =
    map (\<lambda>t. (t_id t, t_kind t, t_run_on t, t_params t))
      (sort_key t_created_at (filter (\<lambda>t. t_database_id t = database_id \<and> t_status t = ''pending'') (tasks s)))"

definition build_instance :: "admin \<Rightarrow> store \<Rightarrow> node_row \<times> host_row \<times> database_row \<Rightarrow> string + instance_desc" where
  "build_instance a s = (\<lambda>(n, h, d).
    let spec = d_spec d
    in and_then (ok_or (d_secrets d) (''database '' @ d_id d @ '' has no secrets'')) (\<lambda>sealed.
      and_then (open_database a (d_id d) sealed) (\<lambda>v.
        and_then (repository_of a s (repository_id (backup spec))) (\<lambda>(kind, config, credentials).
          and_then (open_node a (node_context (d_id d) (n_node n)) (n_secrets n)) (\<lambda>ns.
            let target = for_database kind config credentials;
                (peer_database, peer_name) = (case replica_of spec of
                    Some src \<Rightarrow> (source_database_id src, [])
                  | None \<Rightarrow> (d_id d, n_node n))
            in Inr \<lparr>i_database_id = d_id d, i_database_name = d_name d, i_node = n_node n,
                 i_generation = d_generation d, i_operation_id = current_operation s (d_id d),
                 i_postgres_version = pg_version spec, i_resources = spec_resources spec,
                 i_port_base = n_port_base n,
                 i_address = (case h_address h of Some x \<Rightarrow> x | None \<Rightarrow> []),
                 i_peers = peers_of s peer_database peer_name, i_bootstrap = n_bootstrap n,
                 i_restore = map_option (\<lambda>src. \<lparr>restore_from = target (restore_database_id src)
                       (case source_backup_key v of Some k \<Rightarrow> k | None \<Rightarrow> []),
                     restore_target_time = Some (target_time src),
                     restore_source_database = restore_database_name src\<rparr>) (restore spec),
                 i_backup = target (d_id d) (backup_key v), i_retain_full = retain_full (backup spec),
                 i_tasks = pending_tasks s (d_id d), i_replication_mode = replication_mode spec,
                 i_allowed_cidrs = (if d_access_open d then allowed_cidrs spec else []),
                 i_extensions = extensions spec, i_owner = spec_owner spec, i_secrets = merge_secrets v ns,
                 i_role = (if replica_of spec \<noteq> None then ''replica'' else ''member''),
                 i_rename_from = (case data_name spec of
                     Some x \<Rightarrow> if x \<noteq> d_name d then Some x else None | None \<Rightarrow> None),
                 i_replicas = (if replica_of spec \<noteq> None then [] else replicas_of s (d_id d))\<rparr>)))))"

record repository_check_desc =
  check_id :: string
  check_target :: backup_target

record admin_ca =
  bundle_pem :: string
  renew_client_certificate :: bool

record desired_state =
  desired_generation :: int
  desired_instances :: "instance_desc list"
  desired_checks :: "repository_check_desc list"
  desired_ca :: "admin_ca option"

definition checks_for :: "admin \<Rightarrow> string \<Rightarrow> store \<Rightarrow> string + repository_check_desc list" where
  "checks_for a host_id s =
    collect_results (map (\<lambda>r. and_then (repository_of a s (r_id r)) (\<lambda>(kind, config, credentials).
        Inr \<lparr>check_id = r_id r, check_target = \<lparr>target_kind = kind, target_config = config,
          target_credentials = credentials, encryption_key = None\<rparr>\<rparr>))
      (filter (\<lambda>r. r_check_host_id r = Some host_id \<and> r_status r = ''verifying'') (repositories s)))"

text \<open>What desired state says about the admin CA, during a rotation (\<open>rotation.rs\<close>).\<close>

definition rotation_bundle :: "rotation_row \<Rightarrow> string" where
  "rotation_bundle r = (if phase r = ''trim'' then new_cert_pem r else new_cert_pem r @ [CHR 0x0A] @ old_cert_pem r)"

definition for_hosts :: "store \<Rightarrow> admin_ca option" where
  "for_hosts s =
    map_option (\<lambda>r. \<lparr>bundle_pem = rotation_bundle r, renew_client_certificate = (phase r = ''issue'')\<rparr>) (ca_rotation s)"

definition instance_rows :: "store \<Rightarrow> string \<Rightarrow> (node_row \<times> host_row \<times> database_row) list" where
  "instance_rows s host_id =
    sort_key (\<lambda>(n, h, d). (n_database_id n, n_node n))
      (concat (map (\<lambda>(n, h). map (\<lambda>d. (n, h, d)) (filter (\<lambda>d. d_id d = n_database_id n) (databases s)))
        (filter (\<lambda>(n, h). n_host_id n = host_id \<and> \<not> n_retracted n) (nodes_hosts s))))"

definition build_desired_state :: "admin \<Rightarrow> string \<Rightarrow> store \<Rightarrow> string + desired_state" where
  "build_desired_state a host_id s =
    and_then (fetch_one (filter (\<lambda>h. h_id h = host_id) (hosts s))) (\<lambda>h.
      and_then (checks_for a host_id s) (\<lambda>checks.
        and_then (collect_results (map (build_instance a s) (instance_rows s host_id))) (\<lambda>is.
          Inr \<lparr>desired_generation = h_generation h, desired_instances = is, desired_checks = checks,
            desired_ca = for_hosts s\<rparr>)))"

section \<open>Reports\<close>

record instance_report =
  ir_database_id :: string
  ir_node :: string
  ir_observed_generation :: int
  ir_state :: string
  ir_error :: "string option"
  ir_archived_until :: "time option"
  ir_server_version :: "string option"

record host_report =
  hr_observed_generation :: int
  hr_version :: string
  hr_address :: string
  hr_capacity :: resources
  hr_instances :: "instance_report list"
  hr_ca_fingerprint :: "string option"
  hr_postgres_versions :: "(string \<times> string) list"

text \<open>The report of an instance: in the hash map of the report the last one of a key wins.\<close>

definition reported :: "host_report \<Rightarrow> node_row \<Rightarrow> instance_report option" where
  "reported r n = find (\<lambda>i. ir_database_id i = n_database_id n \<and> ir_node i = n_node n) (rev (hr_instances r))"

definition observe :: "host_report \<Rightarrow> node_row \<Rightarrow> node_row" where
  "observe r n =
    (case reported r n of
       None \<Rightarrow> n\<lparr>n_present := False\<rparr>
     | Some i \<Rightarrow> n\<lparr>n_present := True, n_observed_generation := ir_observed_generation i,
         n_state := ir_state i, n_error := ir_error i, n_archived_until := ir_archived_until i,
         n_server_version := (case ir_server_version i of Some v \<Rightarrow> Some v | None \<Rightarrow> n_server_version n)\<rparr>)"

definition report :: "time \<Rightarrow> string \<Rightarrow> host_report \<Rightarrow> store \<Rightarrow> api_error + store" where
  "report now host_id r s =
    and_then (map_err (\<lambda>_. invalid ''address is not a hostname or IP address'') (check_host_name (hr_address r))) (\<lambda>_.
      Inr (s\<lparr>hosts := update_where (\<lambda>h. h_id h = host_id)
          (\<lambda>h. h\<lparr>h_observed_generation := hr_observed_generation r, h_version := Some (hr_version r),
            h_address := Some (hr_address r), h_capacity := Some (hr_capacity r),
            h_ca_fingerprint := hr_ca_fingerprint r, h_postgres_versions := hr_postgres_versions r,
            h_last_seen_at := Some now\<rparr>) (hosts s),
        nodes := update_where (\<lambda>n. n_host_id n = host_id) (observe r) (nodes s)\<rparr>))"

definition runs_a_node :: "store \<Rightarrow> string \<Rightarrow> string \<Rightarrow> bool" where
  "runs_a_node s host_id database_id \<longleftrightarrow>
    list_ex (\<lambda>n. n_host_id n = host_id \<and> n_database_id n = database_id) (nodes s)"

definition task_result ::
  "time \<Rightarrow> string \<Rightarrow> string \<Rightarrow> bool \<Rightarrow> string option \<Rightarrow> json \<Rightarrow> store \<Rightarrow> api_error + store" where
  "task_result now host_id task_id success err output s =
    and_then (ok_or (find (\<lambda>t. t_id t = task_id) (tasks s)) (not_found ''task'')) (\<lambda>t.
      if \<not> runs_a_node s host_id (t_database_id t) then Inl (not_found ''task'')
      else Inr (bump_hosts (t_database_id t) (s\<lparr>tasks :=
        update_where (\<lambda>t. t_id t = task_id \<and> t_status t = ''pending'')
          (\<lambda>t. t\<lparr>t_status := (if success then ''succeeded'' else ''failed''), t_error := err, t_output := output,
                 t_finished_at := Some now\<rparr>) (tasks s)\<rparr>)))"

definition repository_check :: "string \<Rightarrow> string \<Rightarrow> string option \<Rightarrow> store \<Rightarrow> store" where
  "repository_check host_id i err s =
    s\<lparr>repositories := update_where
        (\<lambda>r. r_id r = i \<and> r_check_host_id r = Some host_id \<and> r_status r = ''verifying'')
        (\<lambda>r. r\<lparr>r_status := (if err = None then ''verified'' else ''failed''), r_error := err\<rparr>) (repositories s)\<rparr>"

record backup_report =
  br_id :: string
  br_label :: string
  br_completed_at :: int
  br_size_bytes :: int

record cluster_report =
  cr_database_id :: string
  cr_primary :: "string option"
  cr_sync_degraded :: bool
  cr_needs_reseed :: "string list"
  cr_failovers :: "json list"
  cr_backups :: "backup_report list"
  cr_backup_error :: "string option"

definition MAX_LOG_BYTES :: nat where
  "MAX_LOG_BYTES = 8192"

fun record_backups :: "time \<Rightarrow> string \<Rightarrow> string list \<Rightarrow> backup_report list \<Rightarrow> store \<Rightarrow> string + store" where
  "record_backups now i known [] s = Inr s"
| "record_backups now i known (b # bs) s =
    (if br_id b \<in> set known then record_backups now i known bs s
     else if list_ex (\<lambda>r. b_database_id r = i \<and> b_id r = br_id b) (backups s) then Inl ''duplicate key''
     else record_backups now i known bs
       (add_event now ''backup_completed'' (Some i) None
         (JObj [(''backup_id'', JStr (br_id b)), (''label'', JStr (br_label b))])
         (s\<lparr>backups := backups s @ [\<lparr>b_database_id = i, b_id = br_id b, b_label = br_label b,
            b_completed_at = secs (br_completed_at b), b_size_bytes = br_size_bytes b\<rparr>]\<rparr>)))"

definition failovers_seen :: "json \<Rightarrow> nat" where
  "failovers_seen before = (case as_u64 (jget before ''failover_count'') of Some n \<Rightarrow> n | None \<Rightarrow> 0)"

text \<open>The events for what changed since the last report.\<close>

definition report_events :: "time \<Rightarrow> cluster_report \<Rightarrow> json \<Rightarrow> store \<Rightarrow> store" where
  "report_events now r before s =
    (let i = cr_database_id r;
         s = fold (add_event now ''failover_completed'' (Some i) None) (drop (failovers_seen before) (cr_failovers r)) s;
         was = (as_bool (jget before ''sync_degraded'') = Some True);
         s = (if cr_sync_degraded r \<noteq> was
              then add_event now (if cr_sync_degraded r then ''sync_degraded'' else ''sync_restored'')
                (Some i) None (JObj []) s else s)
     in case cr_backup_error r of
          Some e \<Rightarrow>
            if as_str (jget before ''backup_error'') \<noteq> Some e
            then add_event now ''backup_failed'' (Some i) None (JObj [(''error'', JStr e)]) s else s
        | None \<Rightarrow> s)"

definition observed_of :: "cluster_report \<Rightarrow> json \<Rightarrow> json" where
  "observed_of r before =
    JObj [(''primary'', jopt (cr_primary r)), (''sync_degraded'', JBool (cr_sync_degraded r)),
      (''needs_reseed'', JArr (map JStr (cr_needs_reseed r))), (''backup_error'', jopt (cr_backup_error r)),
      (''failover_count'', JNum (of_nat (max (length (cr_failovers r)) (failovers_seen before))))]"

definition apply_cluster_report :: "time \<Rightarrow> string \<Rightarrow> cluster_report \<Rightarrow> store \<Rightarrow> api_error + store" where
  "apply_cluster_report now host_id r s =
    (let i = cr_database_id r
     in if \<not> runs_a_node s host_id i then Inl (not_found ''database'')
        else and_then (ok_or (map_option d_observed (find (\<lambda>d. d_id d = i) (databases s))) (not_found ''database'')) (\<lambda>before.
          and_then (map_err internal (record_backups now i (map b_id (filter (\<lambda>b. b_database_id b = i) (backups s)))
              (cr_backups r) (report_events now r before s))) (\<lambda>s.
            Inr (s\<lparr>backups := delete_where (\<lambda>b. b_database_id b = i \<and> b_id b \<notin> set (map br_id (cr_backups r))) (backups s),
              databases := update_where (\<lambda>d. d_id d = i) (\<lambda>d. d\<lparr>d_observed := observed_of r before\<rparr>) (databases s)\<rparr>))))"

text \<open>The characters of a message that fit, each with the bytes of its UTF-8 form.\<close>

fun clip_chars :: "nat \<Rightarrow> nat \<Rightarrow> string list \<Rightarrow> string" where
  "clip_chars room n [] = []"
| "clip_chars room n (c # cs) =
    (if n + length c \<le> room then c @ clip_chars room (n + length c) cs else [])"

definition append_log :: "time \<Rightarrow> string \<Rightarrow> string \<Rightarrow> string list \<Rightarrow> store \<Rightarrow> api_error + store" where
  "append_log now host_id operation_id chars s =
    (if list_ex (\<lambda>op. o_id op = operation_id \<and>
          list_ex (\<lambda>n. n_database_id n = o_database_id op \<and> n_host_id n = host_id) (nodes s)) (operations s)
     then Inr (add_log now operation_id (''host '' @ host_id) (clip_chars MAX_LOG_BYTES 0 chars) s)
     else Inl (not_found ''operation''))"

section \<open>What a report remembers\<close>

lemma failover_events_fold:
  "k \<noteq> kind \<Longrightarrow> filter (\<lambda>e. e_type e = k) (events (add_event now kind d n x s)) = filter (\<lambda>e. e_type e = k) (events s)"
  by (simp add: add_event_def)

lemma failovers_seen_bound: "failovers_seen before < 2 ^ 64"
  by (cases "jget before ''failover_count''") (auto simp: failovers_seen_def)

lemma failovers_seen_observed:
  assumes "max (length (cr_failovers r)) (failovers_seen before) < 2 ^ 64"
  shows "failovers_seen (observed_of r before) = max (length (cr_failovers r)) (failovers_seen before)"
proof -
  let ?n = "max (length (cr_failovers r)) (failovers_seen before)"
  have "int ?n < 2 ^ 64" using assms by simp
  then have "as_u64 (JNum (of_nat ?n)) = Some ?n" by (simp del: of_nat_max)
  moreover have "jget (observed_of r before) ''failover_count'' = JNum (of_nat ?n)"
    by (simp add: observed_of_def del: of_nat_max)
  ultimately show ?thesis unfolding failovers_seen_def [of "observed_of r before"] by (simp only: option.case)
qed

end
