(* ===== verification/Admin_Api.thy ===== *)
theory Admin_Api
  imports Reconciler
begin

text \<open>
  The handlers of the admin API that change the store (\<open>pgcluster-admin/src/api/\<close>:
  \<open>databases.rs\<close>, \<open>replicas.rs\<close>, \<open>backups.rs\<close>, \<open>hosts.rs\<close>) and the drain of a host
  (\<open>drain.rs\<close>).  A handler is a function from the store to an error or the store
  it commits with its answer.  What a handler reads before it opens its
  transaction is read in the same store here.
\<close>

type_synonym 'a handler = "store \<Rightarrow> api_error + ('a \<times> store)"

section \<open>Databases\<close>

definition live_name_taken :: "store \<Rightarrow> string \<Rightarrow> bool" where
  "live_name_taken s name \<longleftrightarrow> list_ex (\<lambda>d. d_name d = name \<and> d_status d \<noteq> ''deleted'') (databases s)"

definition new_database :: "time \<Rightarrow> string \<Rightarrow> string \<Rightarrow> string option \<Rightarrow> database_spec \<Rightarrow> database_row" where
  "new_database now i name workspace spec =
    \<lparr>d_id = i, d_name = name, d_workspace = workspace, d_status = ''provisioning'', d_status_reason = None,
     d_generation = 1, d_spec = spec, d_ca_cert_pem = None, d_secrets = None, d_observed = JObj [],
     d_access_open = False, d_updated_at = now\<rparr>"

text \<open>
  \<open>INSERT INTO databases ... ON CONFLICT (name) WHERE status <> 'deleted' DO NOTHING\<close>
  and the operation that provisions the row.
\<close>

definition insert_database ::
  "random \<Rightarrow> time \<Rightarrow> string \<Rightarrow> string option \<Rightarrow> database_spec \<Rightarrow> op_kind \<Rightarrow> operation_row handler" where
  "insert_database rnd now name workspace spec kind s =
    (if live_name_taken s name then Inl (conflict (''a database named '' @ show_debug name @ '' exists''))
     else if rnd ''database id'' \<in> set (map d_id (databases s)) then Inl (internal ''duplicate key'')
     else map_err internal (create_operation rnd now (rnd ''database id'') kind 1
       (s\<lparr>databases := databases s @ [new_database now (rnd ''database id'') name workspace spec]\<rparr>)))"

definition check_repository :: "string \<Rightarrow> store \<Rightarrow> api_error + unit" where
  "check_repository repo s =
    (if map_option r_status (find (\<lambda>r. r_id r = repo) (repositories s)) = Some ''verified'' then Inr ()
     else Inl (invalid (''backup repository '' @ show_debug repo @ '' does not exist'')))"

fun check_placement :: "store \<Rightarrow> string list \<Rightarrow> string list \<Rightarrow> api_error + unit" where
  "check_placement s domains [] = Inr ()"
| "check_placement s domains (wanted # rest) =
    (case find (\<lambda>h. h_id h = wanted \<or> h_name h = wanted) (hosts s) of
       None \<Rightarrow> Inl (invalid (''host '' @ show_debug wanted @ '' does not exist''))
     | Some h \<Rightarrow>
         if domain_of h \<in> set domains
         then Inl (invalid (''host '' @ show_debug wanted @ '' shares a failure domain with another''))
         else check_placement s (domains @ [domain_of h]) rest)"

definition check_capacity :: "admin \<Rightarrow> time \<Rightarrow> database_spec \<Rightarrow> store \<Rightarrow> api_error + unit" where
  "check_capacity a now spec s =
    (let candidates = filter (wanted_host spec)
           (filter (\<lambda>h. \<not> load_draining h \<and> load_capacity h \<noteq> None) (host_loads now s))
     in case too_large (scheduler a) candidates (spec_resources spec) of
          Some m \<Rightarrow> Inl (invalid m)
        | None \<Rightarrow>
            (case place (scheduler a) candidates (if ha spec then HA_NODES else 1) (spec_resources spec) of
               NoRoom m \<Rightarrow> Inl (invalid m)
             | _ \<Rightarrow> Inr ()))"

definition create :: "admin \<Rightarrow> random \<Rightarrow> time \<Rightarrow> create_database \<Rightarrow> operation_row handler" where
  "create a rnd now request s =
    and_then (into_spec (is_cidr (admin_libs a)) request) (\<lambda>(name, workspace, spec).
      and_then (in_turn [check_repository (repository_id (backup spec)) s,
          check_placement s [] (spec_hosts spec), check_capacity a now spec s]) (\<lambda>_.
        insert_database rnd now name workspace spec Create s))"

definition lock :: "store \<Rightarrow> string \<Rightarrow> api_error + database_row" where
  "lock s i =
    (case database_at s i of
       d # _ \<Rightarrow> if d_status d \<noteq> ''deleted'' then Inr d else Inl (not_found ''database'')
     | [] \<Rightarrow> Inl (not_found ''database''))"

definition not_a_replica :: "database_spec \<Rightarrow> api_error + unit" where
  "not_a_replica spec =
    require (replica_of spec = None) (conflict ''a replica changes only by promotion or deletion'')"

definition follows :: "string \<Rightarrow> database_row \<Rightarrow> bool" where
  "follows i d \<longleftrightarrow> (case replica_of (d_spec d) of Some r \<Rightarrow> source_database_id r = i | None \<Rightarrow> False)"

definition has_replicas :: "store \<Rightarrow> string \<Rightarrow> bool" where
  "has_replicas s i \<longleftrightarrow> list_ex (\<lambda>d. follows i d \<and> d_status d \<noteq> ''deleted'') (databases s)"

definition require_serving :: "string \<Rightarrow> api_error + unit" where
  "require_serving st =
    require (serving st) (conflict (''a database in status '' @ st @ '' cannot do this''))"

definition set_spec :: "time \<Rightarrow> string \<Rightarrow> database_spec \<Rightarrow> store \<Rightarrow> store" where
  "set_spec now i spec s =
    s\<lparr>databases := update_where (\<lambda>d. d_id d = i)
        (\<lambda>d. d\<lparr>d_spec := spec, d_generation := d_generation d + 1, d_updated_at := now\<rparr>) (databases s)\<rparr>"

definition change_spec_as ::
  "random \<Rightarrow> time \<Rightarrow> string \<Rightarrow> op_kind \<Rightarrow> json \<Rightarrow> (database_spec \<Rightarrow> database_spec) \<Rightarrow> operation_row handler" where
  "change_spec_as rnd now i kind params change s =
    and_then (lock s i) (\<lambda>d.
      and_then (not_a_replica (d_spec d)) (\<lambda>_.
        if d_status d = ''deleting'' \<or> d_status d = ''error''
        then Inl (conflict (''a database in status '' @ d_status d @ '' cannot change''))
        else map_err internal (create_with rnd now i kind (d_generation d + 1) params
          (bump_hosts i (set_spec now i (change (d_spec d)) s)))))"

definition change_spec ::
  "random \<Rightarrow> time \<Rightarrow> string \<Rightarrow> (database_spec \<Rightarrow> database_spec) \<Rightarrow> operation_row handler" where
  "change_spec rnd now i change s = change_spec_as rnd now i Update (JObj []) change s"

definition start :: "random \<Rightarrow> time \<Rightarrow> string \<Rightarrow> op_kind \<Rightarrow> json \<Rightarrow> operation_row handler" where
  "start rnd now i kind params s =
    and_then (lock s i) (\<lambda>d.
      and_then (require_serving (d_status d)) (\<lambda>_.
        and_then (not_a_replica (d_spec d)) (\<lambda>_.
          if kind \<in> {RotateCa, RotatePasswords} \<and> has_replicas s i
          then Inl (conflict (''promote or delete this database'' @ [CHR 0x27]
            @ ''s replicas before rotating its secrets''))
          else map_err internal (create_with rnd now i kind (d_generation d) params s))))"

section \<open>Changes of a database\<close>

text \<open>A request to change a database: what each handler passes to \<open>change_spec\<close> or \<open>start\<close>.\<close>

record update_database =
  upd_resources :: "resources option"
  upd_replication_mode :: "string option"
  upd_retention_days :: "u32 option"

definition with_retention :: "u32 option \<Rightarrow> database_spec \<Rightarrow> database_spec" where
  "with_retention days spec =
    (case days of Some n \<Rightarrow> spec\<lparr>backup := (backup spec)\<lparr>retention_days := n\<rparr>\<rparr> | None \<Rightarrow> spec)"

definition growth_of :: "resources \<Rightarrow> resources \<Rightarrow> resources" where
  "growth_of old new =
    \<lparr>vcpu = max (vcpu new - vcpu old) 0, memory_gb = max (memory_gb new - memory_gb old) 0,
     storage_gb = storage_gb new - storage_gb old\<rparr>"

definition resize :: "admin \<Rightarrow> random \<Rightarrow> time \<Rightarrow> string \<Rightarrow> resources \<Rightarrow> u32 option \<Rightarrow> operation_row handler" where
  "resize a rnd now i new days s =
    and_then (require (resources_positive new) (invalid ''resources must all be above zero'')) (\<lambda>_.
      and_then (lock s i) (\<lambda>d.
        let spec = d_spec d; old = spec_resources spec
        in and_then (in_turn [require_serving (d_status d), not_a_replica spec,
             require (\<not> busy s i) (conflict ''another operation is running''),
             require (\<not> storage_gb new < storage_gb old)
               (invalid (''storage cannot shrink, from '' @ show_f64 (storage_gb old) @ '' GB to ''
                 @ show_f64 (storage_gb new) @ '' GB''))]) (\<lambda>_.
          let growth = growth_of old new;
              mine = map n_host_id (live_nodes s i);
              tight = filter (\<lambda>h. load_id h \<in> set mine
                \<and> \<not> (case free (scheduler a) h of Some f \<Rightarrow> fits f growth | None \<Rightarrow> False)) (host_loads now s)
          in case tight of
               h # _ \<Rightarrow> Inl (invalid (''host '' @ load_name h @ '' has no room to grow by '' @ describe growth
                 @ '': it has '' @ (case free (scheduler a) h of Some f \<Rightarrow> describe f | None \<Rightarrow> ''nothing'') @ '' free''))
             | [] \<Rightarrow>
                 (let restart = (ha spec \<and> memory_gb new \<noteq> memory_gb old);
                      spec = with_retention days (spec\<lparr>spec_resources := new\<rparr>);
                      params = JObj [(''from'', json_resources old), (''to'', json_resources new),
                        (''restart'', JBool restart)]
                  in map_err internal (create_with rnd now i Resize (d_generation d + 1) params
                       (bump_hosts i (set_spec now i spec s)))))))"

definition spec_of :: "store \<Rightarrow> string \<Rightarrow> api_error + (string \<times> database_spec)" where
  "spec_of s i = and_then (lock s i) (\<lambda>d. Inr (d_name d, d_spec d))"

definition update :: "admin \<Rightarrow> random \<Rightarrow> time \<Rightarrow> string \<Rightarrow> update_database \<Rightarrow> operation_row handler" where
  "update a rnd now i request s =
    and_then (spec_of s i) (\<lambda>(name, spec).
      and_then (case upd_retention_days request of Some days \<Rightarrow> check_retention days | None \<Rightarrow> Inr ()) (\<lambda>_.
        case upd_resources request of
          Some new \<Rightarrow>
            if upd_replication_mode request \<noteq> None
            then Inl (invalid ''change resources and replication_mode in separate requests'')
            else resize a rnd now i new (upd_retention_days request) s
        | None \<Rightarrow>
            (case upd_replication_mode request of
               Some mode \<Rightarrow>
                 and_then (check_replication_mode mode (ha spec)) (\<lambda>_.
                   change_spec_as rnd now i ReplicationMode (JObj [(''mode'', JStr mode)])
                     (\<lambda>spec. with_retention (upd_retention_days request) (spec\<lparr>replication_mode := mode\<rparr>)) s)
             | None \<Rightarrow>
                 (case upd_retention_days request of
                    None \<Rightarrow> Inl (invalid ''name something to change'')
                  | Some days \<Rightarrow> change_spec rnd now i (with_retention (Some days)) s))))"

section \<open>Versions\<close>

fun digit_runs :: "string \<Rightarrow> string \<Rightarrow> string list" where
  "digit_runs cur [] = (if cur = [] then [] else [cur])"
| "digit_runs cur (c # cs) =
    (if is_ascii_digit c then digit_runs (cur @ [c]) cs
     else if cur = [] then digit_runs [] cs else cur # digit_runs [] cs)"

definition version_parts :: "string \<Rightarrow> nat list" where
  "version_parts v =
    map (\<lambda>p. case from_str_radix 10 (2 ^ 64) p of Some n \<Rightarrow> n | None \<Rightarrow> 0) (digit_runs [] v)"

definition installed_on :: "string \<Rightarrow> (node_row \<times> host_row) \<Rightarrow> api_error + string" where
  "installed_on major = (\<lambda>(n, h).
    ok_or (map_of (h_postgres_versions h) major)
      (conflict (''host '' @ h_name h @ '' has not reported its Postgres '' @ major @ '' version'')))"

definition upgrade :: "random \<Rightarrow> time \<Rightarrow> string \<Rightarrow> string option \<Rightarrow> operation_row handler" where
  "upgrade rnd now i wanted s =
    and_then (spec_of s i) (\<lambda>(name, spec).
      let rows = filter (\<lambda>(n, h). n_database_id n = i \<and> \<not> n_retracted n) (nodes_hosts s)
      in and_then (collect_results (map (installed_on (pg_version spec)) rows)) (\<lambda>installed.
        and_then (case sort_key version_parts installed of
            [] \<Rightarrow> Inl (conflict ''the database has no nodes'') | v # _ \<Rightarrow> Inr v) (\<lambda>newest.
          and_then (case wanted of
              None \<Rightarrow> Inr newest
            | Some v \<Rightarrow>
                if major_of v \<noteq> pg_version spec
                then Inl (invalid (v @ '' is not a release of Postgres '' @ pg_version spec
                  @ ''. Major upgrades restore into a new database''))
                else (case find (\<lambda>((n, h), have). have \<noteq> v) (zip rows installed) of
                        Some ((n, h), have) \<Rightarrow>
                          Inl (conflict (''host '' @ h_name h @ '' does not have Postgres '' @ v @ '' installed''))
                      | None \<Rightarrow> Inr v)) (\<lambda>target.
            if list_all (\<lambda>(n, h). n_server_version n = Some target) rows
            then Inl (conflict (''every node already runs '' @ target
              @ ''. Install a newer release on its hosts first''))
            else case List.map_filter (\<lambda>(n, h). case n_server_version n of
                        Some r \<Rightarrow> if version_parts r > version_parts target then Some r else None
                      | None \<Rightarrow> None) rows of
                   r # _ \<Rightarrow> Inl (conflict (''a node runs '' @ r @ '', newer than '' @ target
                     @ '': a minor release cannot go back''))
                 | [] \<Rightarrow> start rnd now i Upgrade (JObj [(''target_version'', JStr target)]) s))))"

definition restart :: "random \<Rightarrow> time \<Rightarrow> string \<Rightarrow> operation_row handler" where
  "restart rnd now i s = start rnd now i Restart (JObj []) s"

definition switchover :: "random \<Rightarrow> time \<Rightarrow> string \<Rightarrow> string option \<Rightarrow> operation_row handler" where
  "switchover rnd now i target s =
    and_then (spec_of s i) (\<lambda>(name, spec).
      if \<not> ha spec then Inl (conflict ''a one-node database has no standby'')
      else start rnd now i Switchover (JObj [(''target'', jopt target)]) s)"

definition rotate_ca :: "random \<Rightarrow> time \<Rightarrow> string \<Rightarrow> operation_row handler" where
  "rotate_ca rnd now i s = start rnd now i RotateCa (JObj []) s"

definition rotate_passwords :: "random \<Rightarrow> time \<Rightarrow> string \<Rightarrow> operation_row handler" where
  "rotate_passwords rnd now i s = start rnd now i RotatePasswords (JObj []) s"

section \<open>Replacing a node\<close>

definition POSTGRES_PORT :: int where "POSTGRES_PORT = 2"
definition RAFT_PORT :: int where "RAFT_PORT = 3"
definition AGENT_PORT :: int where "AGENT_PORT = 4"

definition shares_domain :: "host_load \<Rightarrow> (node_row \<times> host_row) \<Rightarrow> bool" where
  "shares_domain target = (\<lambda>(n, h). h_id h = load_id target \<or> domain_of h = domain target)"

definition check_target ::
  "admin \<Rightarrow> string \<Rightarrow> string \<Rightarrow> database_spec \<Rightarrow> (node_row \<times> host_row) list \<Rightarrow> host_load \<Rightarrow> api_error + unit" where
  "check_target a node wanted spec rows target =
    (let q = show_debug wanted
     in if load_draining target then Inl (invalid (''host '' @ q @ '' is draining''))
        else case filter (shares_domain target) (filter (\<lambda>(n, h). n_node n \<noteq> node) rows) of
          (n, h) # _ \<Rightarrow> Inl (invalid (''host '' @ q @ '' shares a failure domain with '' @ n_node n))
        | [] \<Rightarrow>
            if list_ex (\<lambda>(n, h). h_id h = load_id target) rows
            then Inl (invalid (''host '' @ q @ '' already runs this node''))
            else if \<not> has_room (scheduler a) target (spec_resources spec)
            then Inl (invalid (''host '' @ q @ '' has no room for '' @ describe (spec_resources spec)
              @ (case free (scheduler a) target of Some f \<Rightarrow> '': it has '' @ describe f @ '' free'' | None \<Rightarrow> [])))
            else Inr ())"

definition start_replacement ::
  "admin \<Rightarrow> random \<Rightarrow> time \<Rightarrow> string \<Rightarrow> string \<Rightarrow> string \<Rightarrow> operation_row handler" where
  "start_replacement a rnd now i node wanted s =
    and_then (lock s i) (\<lambda>d.
      let spec = d_spec d;
          rows = filter (\<lambda>(n, h). n_database_id n = i \<and> \<not> n_retracted n) (nodes_hosts s)
      in and_then (in_turn [require_serving (d_status d), not_a_replica spec,
           require (ha spec) (conflict ''a one-node database is restored from backup, not replaced''),
           require (\<not> busy s i) (conflict ''another operation is running''),
           require (list_ex (\<lambda>(n, h). n_node n = node) rows) (not_found ''node'')]) (\<lambda>_.
        let offline_error = invalid (''host '' @ show_debug wanted @ '' is not online'')
        in and_then (ok_or (find (\<lambda>h. (load_id h = wanted \<or> load_name h = wanted) \<and> online h) (host_loads now s))
             offline_error) (\<lambda>target.
          and_then (ok_or (load_address target) offline_error) (\<lambda>address.
            and_then (check_target a node wanted spec rows target) (\<lambda>_.
              and_then (map_err internal (ok_or (d_secrets d) ''the database has no secrets'')) (\<lambda>sealed.
                and_then (map_err internal (open_database a i sealed)) (\<lambda>v.
                  and_then (map_err internal (ca_from_pem (admin_libs a) (ca_cert_pem v) (ca_key_pem v))) (\<lambda>authority.
                    let number = (case map (\<lambda>(n, h). node_number (n_node n)) rows of
                            [] \<Rightarrow> 0 | x # xs \<Rightarrow> fold max xs x) + 1;
                        new = ''n'' @ show_int number
                    in and_then (map_err internal
                         (add_node a rnd i new (load_id target) address ''seed'' authority s)) (\<lambda>(port, s).
                      case port of
                        None \<Rightarrow> Inl (conflict (''host '' @ show_debug wanted @ '' has no free ports''))
                      | Some p \<Rightarrow>
                          (let s = s\<lparr>databases := update_where (\<lambda>d. d_id d = i)
                                 (\<lambda>d. d\<lparr>d_generation := d_generation d + 1, d_updated_at := now\<rparr>) (databases s)\<rparr>;
                               s = bump_hosts i s;
                               addr = (\<lambda>offset. JStr (address @ '':'' @ show_int (p + offset)))
                           in map_err internal (create_with rnd now i Replace (d_generation d + 1)
                                (JObj [(''old_node'', JStr node), (''new_node'', JStr new),
                                  (''raft_addr'', addr RAFT_PORT), (''agent_addr'', addr AGENT_PORT),
                                  (''postgres_addr'', addr POSTGRES_PORT)]) s)))))))))))"

section \<open>Deleting, and changes of parts of a specification\<close>

definition delete :: "random \<Rightarrow> time \<Rightarrow> string \<Rightarrow> operation_row handler" where
  "delete rnd now i s =
    and_then (lock s i) (\<lambda>d.
      if d_status d = ''deleting'' then Inl (conflict ''the database is already being deleted'')
      else if has_replicas s i
      then Inl (conflict (''promote or delete this database'' @ [CHR 0x27] @ ''s replicas first''))
      else
        let s = s\<lparr>operations := update_where (\<lambda>op. o_database_id op = i \<and> active op)
                  (\<lambda>op. op\<lparr>o_status := ''failed'', o_error := Some ''superseded by delete'',
                           o_finished_at := Some now\<rparr>) (operations s)\<rparr>;
            s = s\<lparr>tasks := update_where (\<lambda>t. t_database_id t = i \<and> t_status t = ''pending'')
                  (\<lambda>t. t\<lparr>t_status := ''failed'', t_error := Some ''superseded by delete'',
                          t_finished_at := Some now\<rparr>) (tasks s)\<rparr>;
            s = set_status now i ''deleting'' None s
        in map_err internal (create_operation rnd now i Delete (d_generation d) s))"

definition set_owner_password :: "random \<Rightarrow> time \<Rightarrow> string \<Rightarrow> string \<Rightarrow> operation_row handler" where
  "set_owner_password rnd now i verifier s =
    and_then (check_verifier verifier) (\<lambda>_.
      change_spec rnd now i (\<lambda>spec. spec\<lparr>spec_owner := (spec_owner spec)\<lparr>scram_verifier := verifier\<rparr>\<rparr>) s)"

definition put_allowlist :: "admin \<Rightarrow> random \<Rightarrow> time \<Rightarrow> string \<Rightarrow> string list \<Rightarrow> operation_row handler" where
  "put_allowlist a rnd now i cidrs s =
    and_then (check_cidrs (is_cidr (admin_libs a)) cidrs) (\<lambda>_.
      change_spec rnd now i (\<lambda>spec. spec\<lparr>allowed_cidrs := cidrs\<rparr>) s)"

definition preloaded :: "string list \<Rightarrow> string list" where
  "preloaded exts = filter (\<lambda>lib. lib \<in> set exts) NEEDS_PRELOAD"

definition put_extensions :: "random \<Rightarrow> time \<Rightarrow> string \<Rightarrow> string list \<Rightarrow> operation_row handler" where
  "put_extensions rnd now i exts s =
    and_then (check_extensions exts) (\<lambda>_.
      and_then (spec_of s i) (\<lambda>(name, spec).
        change_spec_as rnd now i
          (if ha spec \<and> preloaded (extensions spec) \<noteq> preloaded exts then RollingUpdate else Update) (JObj [])
          (\<lambda>spec. spec\<lparr>extensions := exts\<rparr>) s))"

definition put_certificate :: "admin \<Rightarrow> random \<Rightarrow> time \<Rightarrow> string \<Rightarrow> string \<Rightarrow> string \<Rightarrow> operation_row handler" where
  "put_certificate a rnd now i cert key s =
    and_then (map_err invalid (check_certificate (admin_libs a) cert key)) (\<lambda>_.
      and_then (lock s i) (\<lambda>d.
        and_then (in_turn [require_serving (d_status d), not_a_replica (d_spec d)]) (\<lambda>_.
          and_then (map_err internal (ok_or (d_secrets d) ''the database has no secrets'')) (\<lambda>sealed.
            and_then (map_err internal (open_database a i sealed)) (\<lambda>v.
              and_then (map_err internal (seal_database a rnd i
                  (v\<lparr>proxy_cert := Some \<lparr>proxy_cert_pem = cert, proxy_key_pem = key\<rparr>\<rparr>))) (\<lambda>sealed.
                map_err internal (create_operation rnd now i Update (d_generation d + 1)
                  (bump_hosts i (s\<lparr>databases := update_where (\<lambda>d. d_id d = i)
                    (\<lambda>d. d\<lparr>d_secrets := Some sealed, d_generation := d_generation d + 1, d_updated_at := now\<rparr>)
                    (databases s)\<rparr>)))))))))"

section \<open>Replicas\<close>

definition create_replica ::
  "admin \<Rightarrow> random \<Rightarrow> time \<Rightarrow> string \<Rightarrow> string \<Rightarrow> string option \<Rightarrow> operation_row handler" where
  "create_replica a rnd now i name host_id s =
    and_then (check_database_name name) (\<lambda>_.
      and_then (lock s i) (\<lambda>d.
        let source = d_spec d
        in and_then (in_turn [require_serving (d_status d), not_a_replica source,
             require (ha source) (conflict (''a replica follows a three-node database. Restore a one-node database into ''
               @ ''another region instead''))]) (\<lambda>_.
          let n = length (filter (follows i) (databases s));
              spec = source\<lparr>data_name := Some (case data_name source of Some x \<Rightarrow> x | None \<Rightarrow> d_name d),
                ha := False, replication_mode := ''async'',
                spec_hosts := (case host_id of Some h \<Rightarrow> [h] | None \<Rightarrow> []), restore := None,
                replica_of := Some \<lparr>source_database_id = i, source_node_id = ''r'' @ show_radix 10 (n + 1)\<rparr>\<rparr>
          in and_then (in_turn [check_placement s [] (spec_hosts spec), check_capacity a now spec s]) (\<lambda>_.
               insert_database rnd now name (d_workspace d) spec CreateReplica s))))"

definition is_replica_of :: "store \<Rightarrow> string \<Rightarrow> string \<Rightarrow> api_error + unit" where
  "is_replica_of s i replica_id =
    require (list_ex (\<lambda>d. d_id d = replica_id \<and> follows i d \<and> d_status d \<noteq> ''deleted'') (databases s))
      (not_found ''replica'')"

definition delete_replica :: "random \<Rightarrow> time \<Rightarrow> string \<Rightarrow> string \<Rightarrow> operation_row handler" where
  "delete_replica rnd now i replica_id s =
    and_then (is_replica_of s i replica_id) (\<lambda>_. delete rnd now replica_id s)"

definition promote_replica :: "random \<Rightarrow> time \<Rightarrow> string \<Rightarrow> string \<Rightarrow> operation_row handler" where
  "promote_replica rnd now i replica_id s =
    and_then (is_replica_of s i replica_id) (\<lambda>_.
      and_then (lock s replica_id) (\<lambda>d.
        and_then (in_turn [require_serving (d_status d),
            require (\<not> busy s replica_id) (conflict ''another operation is running'')]) (\<lambda>_.
          map_err internal (create_operation rnd now replica_id PromoteReplica (d_generation d)
            (s\<lparr>databases := update_where (\<lambda>d. d_id d = replica_id)
               (\<lambda>d. d\<lparr>d_status := ''provisioning'', d_updated_at := now\<rparr>) (databases s)\<rparr>)))))"

section \<open>Repositories, backups and restore\<close>

text \<open>
  The transaction that records a repository for a host to check, one look at how
  the check went, and the removal of one that did not pass.  The request polls
  until \<open>CHECK_TIMEOUT\<close> has passed.
\<close>

definition record_repository ::
  "admin \<Rightarrow> random \<Rightarrow> time \<Rightarrow> create_repository \<Rightarrow> string handler" where
  "record_repository a rnd now request s =
    and_then (into_parts request) (\<lambda>(name, kind, config, credentials).
      case sort_desc_by (\<lambda>h. case h_last_seen_at h of Some t \<Rightarrow> t | None \<Rightarrow> 0) (filter (seen_lately now) (hosts s)) of
        [] \<Rightarrow> Inl (conflict ''no online host can check the repository'')
      | h # _ \<Rightarrow>
          (let i = rnd ''repository id''
           in and_then (map_err internal (case access_key_id credentials of
                  Some _ \<Rightarrow> and_then (seal a rnd (''repository/'' @ i) (credentials_to_vec (admin_libs a) credentials))
                    (\<lambda>b. Inr (Some b))
                | None \<Rightarrow> Inr None)) (\<lambda>sealed.
              if list_ex (\<lambda>r. r_name r = name) (repositories s)
              then Inl (conflict (''a repository named '' @ show_debug name @ '' exists''))
              else if list_ex (\<lambda>r. r_id r = i) (repositories s) then Inl (internal ''duplicate key'')
              else Inr (i, bump_host (h_id h) (s\<lparr>repositories := repositories s @
                [\<lparr>r_id = i, r_name = name, r_type = kind, r_config = config, r_credentials = sealed,
                  r_status = ''verifying'', r_error = None, r_check_host_id = Some (h_id h)\<rparr>]\<rparr>)))))"

definition remove_repository :: "string \<Rightarrow> store \<Rightarrow> store" where
  "remove_repository i s = s\<lparr>repositories := delete_where (\<lambda>r. r_id r = i) (repositories s)\<rparr>"

definition look_at_check :: "string \<Rightarrow> bool \<Rightarrow> store \<Rightarrow> (api_error + bool) \<times> store" where
  "look_at_check i late s =
    (case find (\<lambda>r. r_id r = i) (repositories s) of
       None \<Rightarrow> (Inl (internal ''no rows returned''), s)
     | Some r \<Rightarrow>
         if r_status r = ''verified'' then (Inr True, s)
         else if r_status r = ''failed''
         then (Inl (invalid (''the repository failed its check: '' @ (case r_error r of Some e \<Rightarrow> e | None \<Rightarrow> []))),
               remove_repository i s)
         else if late then (Inl (conflict ''no host answered the repository check''), remove_repository i s)
         else (Inr False, s))"

definition delete_repository :: "string \<Rightarrow> unit handler" where
  "delete_repository i s =
    (if \<not> list_ex (\<lambda>r. r_id r = i) (repositories s) then Inl (not_found ''repository'')
     else let users = filter (\<lambda>d. repository_id (backup (d_spec d)) = i \<and> d_status d \<noteq> ''deleted'') (databases s)
          in if users \<noteq> []
             then Inl (conflict (show_radix 10 (length users) @ '' database(s) still use this repository''))
             else Inr ((), remove_repository i s))"

definition backup_now :: "random \<Rightarrow> time \<Rightarrow> string \<Rightarrow> operation_row handler" where
  "backup_now rnd now i s =
    (let label = ''api-'' @ take 12 (filter (\<lambda>ch. ch \<noteq> CHR ''-'') (rnd ''label''))
     in and_then (lock s i) (\<lambda>d.
          and_then (in_turn [require_serving (d_status d), not_a_replica (d_spec d)]) (\<lambda>_.
            map_err internal (create_with rnd now i Backup (d_generation d) (JObj [(''label'', JStr label)]) s))))"

definition window :: "store \<Rightarrow> string \<Rightarrow> (time \<times> time) option" where
  "window s i =
    (let done_at = map b_completed_at (filter (\<lambda>b. b_database_id b = i) (backups s));
         until = List.map_filter n_archived_until (filter (\<lambda>n. n_database_id n = i) (nodes s))
     in case (done_at, until) of
          (x # xs, y # ys) \<Rightarrow>
            (let earliest = fold min xs x; latest = fold max ys y
             in if earliest \<le> latest then Some (earliest, latest) else None)
        | _ \<Rightarrow> None)"

definition restore_database ::
  "random \<Rightarrow> time \<Rightarrow> (time \<Rightarrow> string) \<Rightarrow> (time \<Rightarrow> string) \<Rightarrow> string \<Rightarrow> string \<Rightarrow> time \<Rightarrow> string list
    \<Rightarrow> operation_row handler" where
  "restore_database rnd now display rfc3339 i name target wanted s =
    and_then (check_database_name name) (\<lambda>_.
      and_then (spec_of s i) (\<lambda>(source_name, source).
        and_then (check_hosts wanted (ha source)) (\<lambda>_.
          and_then (ok_or (window s i) (conflict ''the database has nothing to restore yet'')) (\<lambda>(earliest, latest).
            if target < earliest \<or> target > latest
            then Inl (invalid (''target_time must be between '' @ display earliest @ '' and '' @ display latest))
            else insert_database rnd now name None
              (source\<lparr>spec_hosts := wanted, replica_of := None, data_name := None,
                 restore := Some \<lparr>restore_database_id = i, restore_database_name = source_name,
                   target_time = rfc3339 target\<rparr>\<rparr>) Create s))))"

section \<open>Hosts\<close>

definition ENROLLMENT_TOKEN_MINUTES :: int where
  "ENROLLMENT_TOKEN_MINUTES = 15"

definition new_host :: "string \<Rightarrow> string \<Rightarrow> string option \<Rightarrow> host_row" where
  "new_host i name failure_domain =
    \<lparr>h_id = i, h_name = name, h_failure_domain = failure_domain, h_address = None, h_version = None,
     h_capacity = None, h_generation = 1, h_observed_generation = 0, h_enrolled_at = None,
     h_last_seen_at = None, h_ca_fingerprint = None, h_certificate_ca = None, h_draining = False,
     h_drain_error = None, h_drained_at = None, h_postgres_versions = []\<rparr>"

definition create_host ::
  "(string \<Rightarrow> string) \<Rightarrow> random \<Rightarrow> time \<Rightarrow> string \<Rightarrow> string option \<Rightarrow> string handler" where
  "create_host token_hash rnd now name failure_domain s =
    and_then (check_host_name name) (\<lambda>_.
      let i = rnd ''host id''; secret = random_token rnd ''enrollment''
      in if list_ex (\<lambda>h. h_name h = name) (hosts s)
         then Inl (conflict (''a host named '' @ show_debug name @ '' exists''))
         else if list_ex (\<lambda>h. h_id h = i) (hosts s) \<or> list_ex (\<lambda>k. k_token_hash k = token_hash secret) (tokens s)
         then Inl (internal ''duplicate key'')
         else Inr (secret, s\<lparr>hosts := hosts s @ [new_host i name failure_domain],
           tokens := tokens s @
             [\<lparr>k_token_hash = token_hash secret, k_host_id = i,
               k_expires_at = now + secs (ENROLLMENT_TOKEN_MINUTES * 60), k_used_at = None\<rparr>]\<rparr>))"

text \<open>
  \<open>load_bootstrap_hosts\<close> at the start of the service (\<open>lib.rs\<close>), one transaction for each
  host of the configuration: a host that is there keeps its row, a token that is there its expiry.
\<close>

record bootstrap_host =
  bh_name :: string
  bh_failure_domain :: "string option"
  bh_token_sha256 :: string
  bh_token_ttl_minutes :: int

definition load_bootstrap_host :: "random \<Rightarrow> time \<Rightarrow> bootstrap_host \<Rightarrow> store \<Rightarrow> string + store" where
  "load_bootstrap_host rnd now bh s =
    (let i = rnd ''host id''; token = map to_ascii_lowercase (bh_token_sha256 bh)
     in and_then (if list_ex (\<lambda>h. h_name h = bh_name bh) (hosts s) then Inr s
          else if list_ex (\<lambda>h. h_id h = i) (hosts s) then Inl ''duplicate key''
          else Inr (s\<lparr>hosts := hosts s @ [new_host i (bh_name bh) (bh_failure_domain bh)]\<rparr>)) (\<lambda>s.
        if list_ex (\<lambda>k. k_token_hash k = token) (tokens s) then Inr s
        else Inr (s\<lparr>tokens := tokens s @ map (\<lambda>h. \<lparr>k_token_hash = token, k_host_id = h_id h,
          k_expires_at = now + secs (bh_token_ttl_minutes bh * 60), k_used_at = None\<rparr>)
          (filter (\<lambda>h. h_name h = bh_name bh) (hosts s))\<rparr>)))"

definition delete_host :: "string \<Rightarrow> unit handler" where
  "delete_host i s =
    (if \<not> list_ex (\<lambda>h. h_id h = i) (hosts s) then Inl (not_found ''host'')
     else let n = length (filter (\<lambda>n. n_host_id n = i) (nodes s))
          in if n > 0 then Inl (conflict (''the host still runs '' @ show_radix 10 n @ '' instance(s)''))
             else Inr ((), s\<lparr>hosts := delete_where (\<lambda>h. h_id h = i) (hosts s),
               tokens := delete_where (\<lambda>k. k_host_id k = i) (tokens s),
               repositories := update_where (\<lambda>r. r_check_host_id r = Some i)
                 (\<lambda>r. r\<lparr>r_check_host_id := None\<rparr>) (repositories s)\<rparr>))"

definition drain :: "time \<Rightarrow> string \<Rightarrow> unit handler" where
  "drain now i s =
    (case find (\<lambda>h. h_id h = i) (hosts s) of
       None \<Rightarrow> Inl (not_found ''host'')
     | Some h \<Rightarrow>
         (let single = sort (map (\<lambda>(n, d). d_name d)
                (filter (\<lambda>(n, d). n_host_id n = i \<and> \<not> n_retracted n \<and> \<not> ha (d_spec d)) (nodes_databases s)))
          in if single \<noteq> []
             then Inl (conflict (''one-node databases cannot move without downtime: '' @ join '', '' single
               @ ''. Restore each to a new database on another host, or delete it, then drain''))
             else if h_draining h then Inr ((), s)
             else Inr ((), add_event now ''host_draining'' None None (JObj [(''host_id'', JStr i)])
               (s\<lparr>hosts := update_where (\<lambda>h. h_id h = i)
                 (\<lambda>h. h\<lparr>h_draining := True, h_drain_error := None, h_drained_at := None\<rparr>) (hosts s)\<rparr>))))"

definition undrain :: "string \<Rightarrow> unit handler" where
  "undrain i s =
    (if \<not> list_ex (\<lambda>h. h_id h = i) (hosts s) then Inl (not_found ''host'')
     else Inr ((), s\<lparr>hosts := update_where (\<lambda>h. h_id h = i)
       (\<lambda>h. h\<lparr>h_draining := False, h_drain_error := None, h_drained_at := None\<rparr>) (hosts s)\<rparr>))"

section \<open>Moving nodes off a draining host\<close>

definition blocked :: "string \<Rightarrow> string \<Rightarrow> store \<Rightarrow> store" where
  "blocked host_id reason s =
    s\<lparr>hosts := update_where (\<lambda>h. h_id h = host_id) (\<lambda>h. h\<lparr>h_drain_error := Some reason\<rparr>) (hosts s)\<rparr>"

text \<open>The hosts a node can move to: none that runs a peer, or shares a failure domain with one.\<close>

definition move_candidates :: "time \<Rightarrow> string \<Rightarrow> string \<Rightarrow> string \<Rightarrow> store \<Rightarrow> host_load list" where
  "move_candidates now i node from_host s =
    (let peers = map snd (filter (\<lambda>(n, h). n_database_id n = i \<and> n_node n \<noteq> node \<and> \<not> n_retracted n) (nodes_hosts s))
     in filter (\<lambda>h. load_id h \<notin> set (map h_id peers) \<and> domain h \<notin> set (map domain_of peers))
          (filter (\<lambda>h. usable_host h \<and> load_id h \<noteq> from_host) (host_loads now s)))"

definition move_node ::
  "admin \<Rightarrow> random \<Rightarrow> time \<Rightarrow> string \<Rightarrow> string \<Rightarrow> string \<Rightarrow> store \<Rightarrow> string + store" where
  "move_node a rnd now i node from_host s =
    and_then (fetch_one (database_at s i)) (\<lambda>d.
      let cannot = (\<lambda>m. blocked from_host (''cannot move '' @ d_name d @ ''/'' @ node @ '': '' @ m))
      in case place (scheduler a) (move_candidates now i node from_host s) 1 (spec_resources (d_spec d)) of
           TooFewHosts \<Rightarrow> Inr (cannot ''no online host is outside the failure domains of its other nodes'' s)
         | NoRoom m \<Rightarrow> Inr (cannot m s)
         | Placed chosen \<Rightarrow>
             and_then (fetch_one chosen) (\<lambda>target.
               case start_replacement a rnd now i node (load_id target) s of
                 Inl e \<Rightarrow> Inr (cannot (message e) s)
               | Inr (op, s) \<Rightarrow>
                   Inr ((add_log now (o_id op) ''drain'' (''moving '' @ node @ '' off a draining host to '' @ load_name target) s)
                     \<lparr>hosts := update_where (\<lambda>h. h_id h = from_host) (\<lambda>h. h\<lparr>h_drain_error := None\<rparr>) (hosts s)\<rparr>)))"

text \<open>\<open>DISTINCT ON (database_id) ... ORDER BY database_id, node\<close>: the first node of each database.\<close>

definition moves_due :: "store \<Rightarrow> (string \<times> string \<times> string) list" where
  "moves_due s =
    (let rows = filter (\<lambda>(n, h). h_draining h \<and> \<not> n_retracted n
           \<and> list_ex (\<lambda>d. d_id d = n_database_id n \<and> serving (d_status d) \<and> ha (d_spec d) \<and> \<not> busy s (d_id d))
               (databases s)) (nodes_hosts s)
     in first_of_each fst []
          (map (\<lambda>(n, h). (n_database_id n, n_node n, n_host_id n))
            (sort_key (\<lambda>(n, h). (n_database_id n, n_node n)) rows)))"

fun move_each ::
  "admin \<Rightarrow> (string \<Rightarrow> random) \<Rightarrow> time \<Rightarrow> (string \<times> string \<times> string) list \<Rightarrow> store \<Rightarrow> store \<times> string option" where
  "move_each a draw now [] s = (s, None)"
| "move_each a draw now ((i, node, from_host) # due) s =
    (case move_node a (draw i) now i node from_host s of
       Inl e \<Rightarrow> (s, Some e)
     | Inr s' \<Rightarrow> move_each a draw now due s')"

definition mark_drained :: "time \<Rightarrow> store \<Rightarrow> store" where
  "mark_drained now s =
    (let p = (\<lambda>h. h_draining h \<and> h_drained_at h = None \<and> \<not> list_ex (\<lambda>n. n_host_id n = h_id h) (nodes s));
         hit = map h_id (filter p (hosts s));
         s = s\<lparr>hosts := update_where p (\<lambda>h. h\<lparr>h_drained_at := Some now, h_drain_error := None\<rparr>) (hosts s)\<rparr>
     in fold (\<lambda>i. add_event now ''host_drained'' None None (JObj [(''host_id'', JStr i)])) hit s)"

definition advance_drains :: "admin \<Rightarrow> (string \<Rightarrow> random) \<Rightarrow> time \<Rightarrow> store \<Rightarrow> store \<times> string option" where
  "advance_drains a draw now s =
    (case move_each a draw now (moves_due s) s of
       (s, Some e) \<Rightarrow> (s, Some e)
     | (s, None) \<Rightarrow> (mark_drained now s, None))"

end
