(* ===== verification/Admin_Rotation.thy ===== *)
theory Admin_Rotation
  imports Admin_Agent Admin_Api
begin

text \<open>
  Replacing the two secrets the control plane itself holds
  (\<open>pgcluster-admin/src/rotation.rs\<close>): the CA that signs host and server
  certificates, in three phases, and the key that seals secrets. The listeners
  and the CA in use are in memory and change at once; the phase is a row of the
  metadata database.
\<close>

section \<open>The service\<close>

record listeners =
  agent_trusted :: "string list"
  agent_presents :: issued
  api_presents :: issued
  server_names :: "string list"

record service =
  service_ca :: ca
  service_listeners :: "listeners option"
  ca_dir :: ca

definition NEW_KEY_CONTEXT :: string where
  "NEW_KEY_CONTEXT = ''admin-ca-rotation''"

definition ADMIN_CA_NAME :: string where
  "ADMIN_CA_NAME = ''pgcluster-admin-ca''"

definition new_ca :: "admin \<Rightarrow> rotation_row \<Rightarrow> string + ca" where
  "new_ca a r =
    and_then (unseal a NEW_KEY_CONTEXT (new_key r)) (\<lambda>plain.
      and_then (ok_or (string_from_slice (admin_libs a) plain) ''invalid JSON'') (\<lambda>key.
        ca_from_pem (admin_libs a) (new_cert_pem r) key))"

definition bump_all_hosts :: "store \<Rightarrow> store" where
  "bump_all_hosts s =
    s\<lparr>hosts := update_where (\<lambda>h. h_enrolled_at h \<noteq> None) (\<lambda>h. h\<lparr>h_generation := h_generation h + 1\<rparr>) (hosts s)\<rparr>"

text \<open>
  \<open>apply\<close> makes the listeners match a phase. What it changed before an error
  stays changed.
\<close>

definition apply_phase :: "admin \<Rightarrow> random \<Rightarrow> rotation_row \<Rightarrow> service \<Rightarrow> (string + unit) \<times> service" where
  "apply_phase a rnd r v =
    (case service_listeners v of
       None \<Rightarrow>
         if phase r \<noteq> ''trust''
         then (case new_ca a r of Inl e \<Rightarrow> (Inl e, v) | Inr ca \<Rightarrow> (Inr (), v\<lparr>service_ca := ca\<rparr>))
         else (Inr (), v)
     | Some l \<Rightarrow>
         (case new_ca a r of
            Inl e \<Rightarrow> (Inl e, v)
          | Inr ca \<Rightarrow>
              let signer = (if phase r = ''trust'' then service_ca v else ca);
                  v = v\<lparr>service_ca := signer\<rparr>;
                  trusted = (if phase r = ''trim'' then [new_cert_pem r] else [old_cert_pem r, new_cert_pem r])
              in case ca_issue_server (admin_libs a) signer (server_names l) (rnd ''server certificate'') of
                   Inl e \<Rightarrow> (Inl e, v)
                 | Inr cert \<Rightarrow>
                     (case tls_agent (admin_libs a) trusted cert of
                        Inl e \<Rightarrow> (Inl e, v)
                      | Inr _ \<Rightarrow>
                          let l = l\<lparr>agent_trusted := trusted, agent_presents := cert\<rparr>; v = v\<lparr>service_listeners := Some l\<rparr>
                          in case tls_server (admin_libs a) cert of
                               Inl e \<Rightarrow> (Inl e, v)
                             | Inr _ \<Rightarrow>
                                 let v = v\<lparr>service_listeners := Some (l\<lparr>api_presents := cert\<rparr>)\<rparr>
                                 in if phase r = ''trim''
                                    then (case ca_store (admin_libs a) ca of
                                            Inl e \<Rightarrow> (Inl e, v)
                                          | Inr _ \<Rightarrow> (Inr (), v\<lparr>ca_dir := ca\<rparr>))
                                    else (Inr (), v))))"

text \<open>The start of the service: it loads the CA of its directory, listens with it and resumes a rotation.\<close>

definition start_service :: "admin \<Rightarrow> random \<Rightarrow> string list \<Rightarrow> ca \<Rightarrow> string + service" where
  "start_service a rnd names stored =
    and_then (ca_issue_server (admin_libs a) stored names (rnd ''server certificate'')) (\<lambda>cert.
      and_then (tls_agent (admin_libs a) [ca_cert stored] cert) (\<lambda>_.
        and_then (tls_server (admin_libs a) cert) (\<lambda>_.
          Inr \<lparr>service_ca = stored,
            service_listeners = Some \<lparr>agent_trusted = [ca_cert stored], agent_presents = cert, api_presents = cert,
              server_names = names\<rparr>,
            ca_dir = stored\<rparr>)))"

definition resume :: "admin \<Rightarrow> random \<Rightarrow> store \<Rightarrow> service \<Rightarrow> (string + unit) \<times> service" where
  "resume a rnd s v = (case ca_rotation s of Some r \<Rightarrow> apply_phase a rnd r v | None \<Rightarrow> (Inr (), v))"

record rotation_view =
  status_phase :: "string option"
  status_bundle :: string
  waiting :: "string list"

definition waiting_for :: "admin \<Rightarrow> rotation_row \<Rightarrow> store \<Rightarrow> string list" where
  "waiting_for a r s =
    (let hash = lib_sha256_hex (admin_libs a);
         behind = (\<lambda>h. if phase r = ''issue'' then h_certificate_ca h \<noteq> Some (hash (new_cert_pem r))
           else h_ca_fingerprint h \<noteq> Some (hash (rotation_bundle r)))
     in sort_key (\<lambda>n. n) (map h_name (filter (\<lambda>h. h_enrolled_at h \<noteq> None \<and> behind h) (hosts s))))"

definition rotation_status :: "admin \<Rightarrow> service \<Rightarrow> store \<Rightarrow> rotation_view" where
  "rotation_status a v s =
    (case ca_rotation s of
       Some r \<Rightarrow> \<lparr>status_phase = Some (phase r), status_bundle = rotation_bundle r, waiting = waiting_for a r s\<rparr>
     | None \<Rightarrow> \<lparr>status_phase = None, status_bundle = ca_cert (service_ca v), waiting = []\<rparr>)"

definition start_rotation ::
  "admin \<Rightarrow> random \<Rightarrow> store \<Rightarrow> service \<Rightarrow> (api_error + rotation_view) \<times> store \<times> service" where
  "start_rotation a rnd s v =
    (if ca_rotation s \<noteq> None then (Inl (conflict ''a rotation is already running''), s, v)
     else case ca_generate (admin_libs a) (ADMIN_CA_NAME @ ''-'' @ take 8 (random_token rnd ''admin CA name'')) (rnd ''admin CA'') of
         Inl e \<Rightarrow> (Inl (internal e), s, v)
       | Inr ca \<Rightarrow>
           (case seal a rnd NEW_KEY_CONTEXT (string_to_vec (admin_libs a) (ca_key ca)) of
              Inl e \<Rightarrow> (Inl (internal e), s, v)
            | Inr sealed \<Rightarrow>
                let r = \<lparr>phase = ''trust'', old_cert_pem = ca_cert (service_ca v), new_cert_pem = ca_cert ca, new_key = sealed\<rparr>;
                    s = s\<lparr>ca_rotation := Some r\<rparr>
                in case apply_phase a rnd r v of
                     (Inl e, v) \<Rightarrow> (Inl (internal e), s, v)
                   | (Inr _, v) \<Rightarrow> let s = bump_all_hosts s in (Inr (rotation_status a v s), s, v)))"

definition advance_rotation :: "admin \<Rightarrow> random \<Rightarrow> store \<Rightarrow> service \<Rightarrow> (string + unit) \<times> store \<times> service" where
  "advance_rotation a rnd s v =
    (case ca_rotation s of
       None \<Rightarrow> (Inr (), s, v)
     | Some r \<Rightarrow>
         if waiting_for a r s \<noteq> [] then (Inr (), s, v)
         else if phase r \<noteq> ''trust'' \<and> phase r \<noteq> ''issue'' then (Inr (), bump_all_hosts (s\<lparr>ca_rotation := None\<rparr>), v)
         else let r = r\<lparr>phase := (if phase r = ''trust'' then ''issue'' else ''trim'')\<rparr>
              in case apply_phase a rnd r v of
                   (Inl e, v) \<Rightarrow> (Inl e, s, v)
                 | (Inr _, v) \<Rightarrow> (Inr (), bump_all_hosts (s\<lparr>ca_rotation := Some r\<rparr>), v))"

section \<open>The key that seals secrets\<close>

text \<open>
  \<open>reseal_all\<close>: each loop reads the rows that hold sealed values and writes each
  by its key, which is the row itself. The count is of the values sealed again.
\<close>

definition reseal_database :: "admin \<Rightarrow> random \<Rightarrow> database_row \<Rightarrow> string + database_row" where
  "reseal_database a rnd d =
    (case d_secrets d of
       None \<Rightarrow> Inr d
     | Some sealed \<Rightarrow> and_then (reseal a rnd (d_id d) sealed) (\<lambda>x. Inr (d\<lparr>d_secrets := Some x\<rparr>)))"

definition reseal_node :: "admin \<Rightarrow> random \<Rightarrow> node_row \<Rightarrow> string + node_row" where
  "reseal_node a rnd n =
    and_then (reseal a rnd (node_context (n_database_id n) (n_node n)) (n_secrets n)) (\<lambda>x. Inr (n\<lparr>n_secrets := x\<rparr>))"

definition reseal_repository :: "admin \<Rightarrow> random \<Rightarrow> repository_row \<Rightarrow> string + repository_row" where
  "reseal_repository a rnd r =
    (case r_credentials r of
       None \<Rightarrow> Inr r
     | Some sealed \<Rightarrow> and_then (reseal a rnd (''repository/'' @ r_id r) sealed) (\<lambda>x. Inr (r\<lparr>r_credentials := Some x\<rparr>)))"

definition reseal_rotation :: "admin \<Rightarrow> random \<Rightarrow> rotation_row option \<Rightarrow> string + rotation_row option" where
  "reseal_rotation a rnd ro =
    (case ro of
       None \<Rightarrow> Inr None
     | Some r \<Rightarrow> and_then (reseal a rnd NEW_KEY_CONTEXT (new_key r)) (\<lambda>x. Inr (Some (r\<lparr>new_key := x\<rparr>))))"

definition reseal_all :: "admin \<Rightarrow> random \<Rightarrow> store \<Rightarrow> string + (nat \<times> store)" where
  "reseal_all a rnd s =
    and_then (collect_results (map (reseal_database a rnd) (databases s))) (\<lambda>ds.
      and_then (collect_results (map (reseal_node a rnd) (nodes s))) (\<lambda>ns.
        and_then (collect_results (map (reseal_repository a rnd) (repositories s))) (\<lambda>rs.
          and_then (reseal_rotation a rnd (ca_rotation s)) (\<lambda>ro.
            Inr (length (filter (\<lambda>d. d_secrets d \<noteq> None) (databases s)) + length (nodes s)
                + length (filter (\<lambda>r. r_credentials r \<noteq> None) (repositories s))
                + (if ca_rotation s = None then 0 else 1),
              s\<lparr>databases := ds, nodes := ns, repositories := rs, ca_rotation := ro\<rparr>)))))"

end
