(* ===== verification/Control_Plane.thy ===== *)
theory Control_Plane
  imports Admin_Rotation
begin

text \<open>
  The control plane as a whole: \<open>cp_step\<close> has one rule for every transaction that
  changes the metadata database, those of the admin API, of the API the hosts call,
  of the reconciler and of its sweeps.  Several instances of the service and any
  number of requests run side by side; a transaction is atomic, so a run is a
  sequence of these steps in some order.  The reconciler may run any claimable
  step, which covers the order of its query, ties, and the rows another instance
  holds locked.
\<close>

section \<open>Transactions\<close>

inductive cp_step :: "admin \<Rightarrow> store \<Rightarrow> store \<Rightarrow> bool" for a where
  reconcile: "c \<in> set (claims now s) \<Longrightarrow> step_on a rnd now c s = Inr s' \<Longrightarrow> cp_step a s s'"
| sweeps: "cp_step a s (sweep now s)"
| renews: "renew_certificate a rnd now i node s = Inr s' \<Longrightarrow> cp_step a s s'"
| moves: "move_node a rnd now i node from_host s = Inr s' \<Longrightarrow> cp_step a s s'"
| drained: "cp_step a s (mark_drained now s)"
| creates: "create a rnd now request s = Inr (op, s') \<Longrightarrow> cp_step a s s'"
| updates: "update a rnd now i change s = Inr (op, s') \<Longrightarrow> cp_step a s s'"
| upgrades: "upgrade rnd now i wanted s = Inr (op, s') \<Longrightarrow> cp_step a s s'"
| restarts: "restart rnd now i s = Inr (op, s') \<Longrightarrow> cp_step a s s'"
| switches: "switchover rnd now i target s = Inr (op, s') \<Longrightarrow> cp_step a s s'"
| rotates_ca: "rotate_ca rnd now i s = Inr (op, s') \<Longrightarrow> cp_step a s s'"
| rotates_passwords: "rotate_passwords rnd now i s = Inr (op, s') \<Longrightarrow> cp_step a s s'"
| replaces: "start_replacement a rnd now i node host s = Inr (op, s') \<Longrightarrow> cp_step a s s'"
| deletes: "delete rnd now i s = Inr (op, s') \<Longrightarrow> cp_step a s s'"
| sets_password: "set_owner_password rnd now i verifier s = Inr (op, s') \<Longrightarrow> cp_step a s s'"
| sets_allowlist: "put_allowlist a rnd now i cidrs s = Inr (op, s') \<Longrightarrow> cp_step a s s'"
| sets_extensions: "put_extensions rnd now i exts s = Inr (op, s') \<Longrightarrow> cp_step a s s'"
| sets_certificate: "put_certificate a rnd now i cert key s = Inr (op, s') \<Longrightarrow> cp_step a s s'"
| creates_replica: "create_replica a rnd now i name host s = Inr (op, s') \<Longrightarrow> cp_step a s s'"
| deletes_replica: "delete_replica rnd now i replica s = Inr (op, s') \<Longrightarrow> cp_step a s s'"
| promotes_replica: "promote_replica rnd now i replica s = Inr (op, s') \<Longrightarrow> cp_step a s s'"
| backs_up: "backup_now rnd now i s = Inr (op, s') \<Longrightarrow> cp_step a s s'"
| restores: "restore_database rnd now display rfc3339 i name target wanted s = Inr (op, s') \<Longrightarrow> cp_step a s s'"
| records_repository: "record_repository a rnd now repo s = Inr (r, s') \<Longrightarrow> cp_step a s s'"
| looks_at_check: "look_at_check r late s = (x, s') \<Longrightarrow> cp_step a s s'"
| deletes_repository: "delete_repository r s = Inr (u, s') \<Longrightarrow> cp_step a s s'"
| creates_host: "create_host token_hash rnd now name fd s = Inr (r, s') \<Longrightarrow> cp_step a s s'"
| deletes_host: "delete_host h s = Inr (u, s') \<Longrightarrow> cp_step a s s'"
| drains: "drain now h s = Inr (u, s') \<Longrightarrow> cp_step a s s'"
| undrains: "undrain h s = Inr (u, s') \<Longrightarrow> cp_step a s s'"
| enrolls: "enroll sign fingerprint now hash csr s = Inr (r, s') \<Longrightarrow> cp_step a s s'"
| rotates_certificate: "rotate_certificate sign fingerprint h csr s = Inr (r, s') \<Longrightarrow> cp_step a s s'"
| reports: "report now h rep s = Inr s' \<Longrightarrow> cp_step a s s'"
| answers: "task_result now h task success err output s = Inr s' \<Longrightarrow> cp_step a s s'"
| checks: "cp_step a s (repository_check h r err s)"
| cluster_reports: "apply_cluster_report now h cr s = Inr s' \<Longrightarrow> cp_step a s s'"
| logs_lines: "append_log now h op_id chars s = Inr s' \<Longrightarrow> cp_step a s s'"
| loads_host: "load_bootstrap_host rnd now bh s = Inr s' \<Longrightarrow> cp_step a s s'"
| starts_rotation: "start_rotation a rnd s v = (st, s', v') \<Longrightarrow> cp_step a s s'"
| advances_rotation: "advance_rotation a rnd s v = (st, s', v') \<Longrightarrow> cp_step a s s'"
| reseals: "reseal_all a rnd s = Inr (k, s') \<Longrightarrow> cp_step a s s'"

definition empty_store :: store where
  "empty_store =
    \<lparr>hosts = [], databases = [], nodes = [], operations = [], steps = [], tasks = [], events = [], logs = [],
     repositories = [], backups = [], tokens = [], next_seq = 1, ca_rotation = None\<rparr>"

inductive cp_reach :: "admin \<Rightarrow> store \<Rightarrow> bool" for a where
  init: "cp_reach a empty_store"
| more_steps: "cp_reach a s \<Longrightarrow> cp_step a s s' \<Longrightarrow> cp_reach a s'"

lemma cp_reach_invariant:
  assumes "cp_reach a s" "P empty_store" "\<And>s s'. P s \<Longrightarrow> cp_step a s s' \<Longrightarrow> P s'"
  shows "P s"
  using assms(1) by induction (auto intro: assms(2,3))

section \<open>What the parts of a transaction leave alone\<close>

named_theorems frames \<open>the tables a part of a transaction leaves alone\<close>

definition op_core :: "operation_row \<Rightarrow> string \<times> nat \<times> string \<times> string \<times> string" where
  "op_core op = (o_id op, o_seq op, o_database_id op, o_kind op, o_status op)"

definition db_access :: "database_row \<Rightarrow> string \<times> bool" where
  "db_access d = (d_id d, d_access_open d)"

definition node_key :: "node_row \<Rightarrow> string \<times> string \<times> string \<times> int" where
  "node_key n = (n_database_id n, n_node n, n_host_id n, n_port_base n)"

lemma map_update_where [simp]: "(\<And>x. f (g x) = f x) \<Longrightarrow> map f (update_where p g xs) = map f xs"
  by (simp add: update_where_def)

lemma set_update_where: "set (update_where p g xs) = {if p x then g x else x |x. x \<in> set xs}"
  by (auto simp: update_where_def)

lemma bump_host_frame [simp, frames]:
  "databases (bump_host h s) = databases s" "nodes (bump_host h s) = nodes s"
  "operations (bump_host h s) = operations s" "steps (bump_host h s) = steps s"
  "tasks (bump_host h s) = tasks s" "next_seq (bump_host h s) = next_seq s"
  "map h_id (hosts (bump_host h s)) = map h_id (hosts s)"
  by (simp_all add: bump_host_def)

lemma bump_hosts_frame [simp, frames]:
  "databases (bump_hosts i s) = databases s" "nodes (bump_hosts i s) = nodes s"
  "operations (bump_hosts i s) = operations s" "steps (bump_hosts i s) = steps s"
  "tasks (bump_hosts i s) = tasks s" "next_seq (bump_hosts i s) = next_seq s"
  "map h_id (hosts (bump_hosts i s)) = map h_id (hosts s)"
  by (simp_all add: bump_hosts_def)

lemma fold_bump_host_frame [simp, frames]:
  "databases (fold bump_host hs s) = databases s" "nodes (fold bump_host hs s) = nodes s"
  "operations (fold bump_host hs s) = operations s" "steps (fold bump_host hs s) = steps s"
  "tasks (fold bump_host hs s) = tasks s" "next_seq (fold bump_host hs s) = next_seq s"
  "map h_id (hosts (fold bump_host hs s)) = map h_id (hosts s)"
  by (induction hs arbitrary: s) simp_all

lemma set_status_frame [simp, frames]:
  "nodes (set_status now i st r s) = nodes s" "hosts (set_status now i st r s) = hosts s"
  "operations (set_status now i st r s) = operations s" "steps (set_status now i st r s) = steps s"
  "tasks (set_status now i st r s) = tasks s" "next_seq (set_status now i st r s) = next_seq s"
  "map db_access (databases (set_status now i st r s)) = map db_access (databases s)"
  "map d_spec (databases (set_status now i st r s)) = map d_spec (databases s)"
  by (simp_all add: set_status_def db_access_def)

lemma add_log_frame [simp, frames]:
  "databases (add_log now i src m s) = databases s" "nodes (add_log now i src m s) = nodes s"
  "hosts (add_log now i src m s) = hosts s" "operations (add_log now i src m s) = operations s"
  "steps (add_log now i src m s) = steps s" "tasks (add_log now i src m s) = tasks s"
  "next_seq (add_log now i src m s) = next_seq s"
  by (simp_all add: add_log_def)

lemma add_event_frame [simp, frames]:
  "databases (add_event now k d n j s) = databases s" "nodes (add_event now k d n j s) = nodes s"
  "hosts (add_event now k d n j s) = hosts s" "operations (add_event now k d n j s) = operations s"
  "steps (add_event now k d n j s) = steps s" "tasks (add_event now k d n j s) = tasks s"
  "next_seq (add_event now k d n j s) = next_seq s"
  by (simp_all add: add_event_def)

lemma fold_add_event_frame [simp, frames]:
  assumes "\<And>x t. databases (f x t) = databases t \<and> nodes (f x t) = nodes t \<and> hosts (f x t) = hosts t
    \<and> operations (f x t) = operations t \<and> steps (f x t) = steps t \<and> tasks (f x t) = tasks t
    \<and> next_seq (f x t) = next_seq t"
  shows "databases (fold f xs s) = databases s" "nodes (fold f xs s) = nodes s" "hosts (fold f xs s) = hosts s"
    "operations (fold f xs s) = operations s" "steps (fold f xs s) = steps s" "tasks (fold f xs s) = tasks s"
    "next_seq (fold f xs s) = next_seq s"
  by (induction xs arbitrary: s) (simp_all add: assms)

lemma fetch_one_Inr: "fetch_one rows = Inr r \<longleftrightarrow> (\<exists>rest. rows = r # rest)"
  by (auto simp: fetch_one_def split: list.splits)

text \<open>
  A quiet change: no step is marked, no operation begins or ends, no database is
  opened to clients; tasks are at most added.
\<close>

definition quiet :: "store \<Rightarrow> store \<Rightarrow> bool" where
  "quiet s s' \<longleftrightarrow>
    steps s' = steps s \<and> map op_core (operations s') = map op_core (operations s) \<and> next_seq s' = next_seq s
    \<and> (\<exists>ts. tasks s' = tasks s @ ts) \<and> map db_access (databases s') = map db_access (databases s)"

lemma quiet_refl [simp, intro]: "quiet s s"
  by (simp add: quiet_def)

lemma quiet_trans: "quiet s t \<Longrightarrow> quiet t u \<Longrightarrow> quiet s u"
  by (auto simp: quiet_def)

lemma new_generation_quiet:
  "new_generation now c s = Inr (g, s') \<Longrightarrow> quiet s s' \<and> nodes s' = nodes s \<and> tasks s' = tasks s
    \<and> map h_id (hosts s') = map h_id (hosts s) \<and> map d_spec (databases s') = map d_spec (databases s)"
  by (auto simp: new_generation_def and_then_Inr Let_def quiet_def op_core_def db_access_def)

text \<open>The keys and references the tables keep.\<close>

definition refs_ok ::
  "scheduler_config \<Rightarrow> (string \<times> string \<times> string \<times> int) list \<Rightarrow> string list \<Rightarrow> string list \<Rightarrow> bool" where
  "refs_ok cfg ks hs ds \<longleftrightarrow>
    distinct hs \<and> distinct ds
    \<and> distinct (map (\<lambda>(d, n, h, p). (d, n)) ks) \<and> distinct (map (\<lambda>(d, n, h, p). (h, p)) ks)
    \<and> list_all (\<lambda>(d, n, h, p). d \<in> set ds \<and> h \<in> set hs
        \<and> p \<in> set (generate_series (port_base_start cfg) (port_base_end cfg) PORT_BLOCK)) ks"

definition refs_inv :: "scheduler_config \<Rightarrow> store \<Rightarrow> bool" where
  "refs_inv cfg s \<longleftrightarrow> refs_ok cfg (map node_key (nodes s)) (map h_id (hosts s)) (map d_id (databases s))"

lemma refs_inv_same:
  assumes "refs_inv cfg s" "map node_key (nodes s') = map node_key (nodes s)"
    "map h_id (hosts s') = map h_id (hosts s)" "map d_id (databases s') = map d_id (databases s)"
  shows "refs_inv cfg s'"
  using assms by (simp add: refs_inv_def)

lemma refs_inv_fewer_nodes:
  assumes "refs_inv cfg s" "nodes s' = filter p (nodes s)"
    "map h_id (hosts s') = map h_id (hosts s)" "map d_id (databases s') = map d_id (databases s)"
  shows "refs_inv cfg s'"
  using assms unfolding refs_inv_def refs_ok_def
  by (auto simp: list_all_iff intro: distinct_map_filter)

lemma ids_of_access: "map db_access xs = map db_access ys \<Longrightarrow> map d_id xs = map d_id ys"
proof -
  assume "map db_access xs = map db_access ys"
  then have "map fst (map db_access xs) = map fst (map db_access ys)" by simp
  then show ?thesis by (simp add: db_access_def comp_def)
qed

lemma free_port_Some:
  assumes "free_port cfg h s = Some p"
  shows "p \<in> set (generate_series (port_base_start cfg) (port_base_end cfg) PORT_BLOCK)"
    "\<And>n. n \<in> set (nodes s) \<Longrightarrow> n_host_id n = h \<Longrightarrow> n_port_base n \<noteq> p"
  using assms by (auto simp: free_port_def find_Some_iff list_ex_iff)

lemma add_node_Inr:
  assumes "add_node a rnd i node h address boot authority s = Inr (Some p, s')"
  obtains sealed not_after where "s' = bump_host h (s\<lparr>nodes := nodes s @ [new_node i node h p sealed not_after boot]\<rparr>)"
    "free_port (scheduler a) h s = Some p" "\<And>n. n \<in> set (nodes s) \<Longrightarrow> (n_database_id n, n_node n) \<noteq> (i, node)"
  using assms that by (auto simp: add_node_def and_then_Inr list_ex_iff split: option.splits if_splits)

lemma add_node_None: "add_node a rnd i node h address boot authority s = Inr (None, s') \<Longrightarrow> s' = s"
  by (auto simp: add_node_def and_then_Inr split: option.splits if_splits)

lemma add_node_quiet: "add_node a rnd i node h address boot authority s = Inr (port, s') \<Longrightarrow> quiet s s'
    \<and> databases s' = databases s \<and> map h_id (hosts s') = map h_id (hosts s) \<and> tasks s' = tasks s"
  by (cases port) (auto elim!: add_node_Inr dest!: add_node_None simp: quiet_def)

lemma add_node_refs:
  assumes "add_node a rnd i node h address boot authority s = Inr (port, s')"
    "refs_inv (scheduler a) s" "i \<in> set (map d_id (databases s))" "h \<in> set (map h_id (hosts s))"
  shows "refs_inv (scheduler a) s'"
proof (cases port)
  case None
  then show ?thesis using assms(1,2) add_node_None by blast
next
  case (Some p)
  obtain sealed not_after where s': "s' = bump_host h (s\<lparr>nodes := nodes s @ [new_node i node h p sealed not_after boot]\<rparr>)"
    and port: "free_port (scheduler a) h s = Some p"
    and fresh: "\<And>n. n \<in> set (nodes s) \<Longrightarrow> (n_database_id n, n_node n) \<noteq> (i, node)"
    using add_node_Inr assms(1) Some by metis
  have key: "node_key (new_node i node h p sealed not_after boot) = (i, node, h, p)"
    by (simp add: node_key_def new_node_def)
  note free = free_port_Some [OF port]
  have "(i, node) \<notin> (\<lambda>(d, n, h, p). (d, n)) ` node_key ` set (nodes s)"
    using fresh by (auto simp: node_key_def)
  moreover have "(h, p) \<notin> (\<lambda>(d, n, h, p). (h, p)) ` node_key ` set (nodes s)"
  proof
    assume "(h, p) \<in> (\<lambda>(d, n, h, p). (h, p)) ` node_key ` set (nodes s)"
    then obtain n where "n \<in> set (nodes s)" "n_host_id n = h" "n_port_base n = p"
      by (auto simp: node_key_def)
    then show False using free(2) by blast
  qed
  ultimately show ?thesis
    using assms(2-4) free(1) unfolding refs_inv_def refs_ok_def s' by (simp add: key image_image)
qed

section \<open>The steps of the reconciler\<close>

text \<open>What a step of an operation does beyond what it is for: nothing that the invariants are about.\<close>

definition benign :: "scheduler_config \<Rightarrow> store \<Rightarrow> store \<Rightarrow> bool" where
  "benign cfg s s' \<longleftrightarrow> quiet s s' \<and> (refs_inv cfg s \<longrightarrow> refs_inv cfg s')"

lemma benign_refl [simp, intro]: "benign cfg s s"
  by (simp add: benign_def)

lemma benign_trans: "benign cfg s t \<Longrightarrow> benign cfg t u \<Longrightarrow> benign cfg s u"
  by (auto simp: benign_def intro: quiet_trans)

lemma benign_keeps:
  assumes "quiet s s'" "map node_key (nodes s') = map node_key (nodes s)"
    "map h_id (hosts s') = map h_id (hosts s)"
  shows "benign cfg s s'"
  using assms refs_inv_same [of cfg s s'] ids_of_access [of "databases s'" "databases s"]
  by (auto simp: benign_def quiet_def)

lemma benign_fewer:
  assumes "quiet s s'" "nodes s' = filter p (nodes s)" "map h_id (hosts s') = map h_id (hosts s)"
  shows "benign cfg s s'"
  using assms refs_inv_fewer_nodes [of cfg s s' p] ids_of_access [of "databases s'" "databases s"]
  by (auto simp: benign_def quiet_def)

lemma new_generation_benign: "new_generation now c s = Inr (g, s') \<Longrightarrow> benign cfg s s'"
  by (drule new_generation_quiet) (auto intro: benign_keeps)

lemma generation_benign:
  assumes "new_generation now c t = Inr (g, s')" "quiet s t" "map node_key (nodes t) = map node_key (nodes s)"
    "map h_id (hosts t) = map h_id (hosts s)"
  shows "benign cfg s s'"
  by (rule benign_trans [OF benign_keeps [OF assms(2-4)] new_generation_benign [OF assms(1)]])

lemma run_task_on_benign: "run_task_on rnd now c i kind run_on params s = Inr (r, s') \<Longrightarrow> benign cfg s s'"
  by (rule benign_keeps)
    (auto simp: run_task_on_def quiet_def split: option.splits if_splits)

lemma run_task_benign: "run_task rnd now c kind run_on params s = Inr (r, s') \<Longrightarrow> benign cfg s s'"
  unfolding run_task_def by (rule run_task_on_benign)

lemma wait_applied_same: "wait_applied now c except s = Inr (r, s') \<Longrightarrow> s' = s"
  by (auto simp: wait_applied_def split: option.splits)

lemma retract_old_benign: "retract_old now c s = Inr (r, s') \<Longrightarrow> benign cfg s s'"
  by (auto simp: retract_old_def and_then_Inr Let_def quiet_def node_key_def elim!: generation_benign)

lemma retract_benign: "retract c s = Inr (r, s') \<Longrightarrow> benign cfg s s'"
  by (rule benign_keeps)
    (auto simp: retract_def and_then_Inr Let_def quiet_def node_key_def split: option.splits)

lemma drop_old_benign: "drop_old c s = Inr (r, s') \<Longrightarrow> benign cfg s s'"
  by (auto simp: drop_old_def and_then_Inr delete_where_def quiet_def intro!: benign_fewer)

lemma finalize_benign: "finalize now c s = Inr (r, s') \<Longrightarrow> benign cfg s s'"
  by (auto simp: finalize_def Let_def delete_where_def quiet_def set_status_def db_access_def intro!: benign_fewer)

lemma replica_task_benign: "replica_task rnd now c kind s = Inr (r, s') \<Longrightarrow> benign cfg s s'"
  by (auto simp: replica_task_def and_then_Inr Let_def split: prod.splits intro: run_task_on_benign)

lemma promote_benign: "promote now c s = Inr (r, s') \<Longrightarrow> benign cfg s s'"
  by (auto simp: promote_def and_then_Inr Let_def quiet_def node_key_def db_access_def
      split: option.splits elim!: generation_benign)

lemma store_secrets_benign: "store_secrets a rnd i v s = Inr s' \<Longrightarrow> benign cfg s s'"
  by (auto simp: store_secrets_def and_then_Inr quiet_def db_access_def intro!: benign_keeps)

lemma publish_secrets_benign: "publish_secrets a rnd now c v s = Inr (r, s') \<Longrightarrow> benign cfg s s'"
  by (auto simp: publish_secrets_def and_then_Inr
      intro: benign_trans [OF store_secrets_benign new_generation_benign])

lemma reissue_benign: "reissue a rnd i node address authority s = Inr s' \<Longrightarrow> benign cfg s s'"
  by (auto simp: reissue_def and_then_Inr quiet_def node_key_def intro!: benign_keeps)

lemma reissue_all_benign: "reissue_all a rnd i authority ns s = Inr s' \<Longrightarrow> benign cfg s s'"
proof (induction a rnd i authority ns s rule: reissue_all.induct)
  case (2 a rnd i authority node address rest s)
  then show ?case by (auto simp: and_then_Inr intro: benign_trans [OF reissue_benign])
qed simp

lemma ca_issue_benign: "ca_issue a rnd now c s = Inr (r, s') \<Longrightarrow> benign cfg s s'"
  by (auto simp: ca_issue_def and_then_Inr intro: benign_trans [OF reissue_all_benign new_generation_benign])

lemma secrets_steps_benign:
  "ca_trust_both a rnd now c s = Inr (r, s') \<Longrightarrow> benign cfg s s'"
  "ca_trust_new a rnd now c s = Inr (r, s') \<Longrightarrow> benign cfg s s'"
  "passwords_offer a rnd now c s = Inr (r, s') \<Longrightarrow> benign cfg s s'"
  "passwords_commit a rnd now c s = Inr (r, s') \<Longrightarrow> benign cfg s s'"
  by (auto simp: ca_trust_both_def ca_trust_new_def passwords_offer_def passwords_commit_def and_then_Inr Let_def
      intro: publish_secrets_benign)

lemma benign_ids:
  assumes "benign cfg s s'"
  shows "map d_id (databases s') = map d_id (databases s)"
  by (rule ids_of_access) (use assms in \<open>simp add: benign_def quiet_def\<close>)

lemma add_node_benign:
  assumes "add_node a rnd i node h address boot authority s = Inr (port, s')"
    "i \<in> set (map d_id (databases s))" "h \<in> set (map h_id (hosts s))"
  shows "benign (scheduler a) s s'"
  using add_node_refs [OF assms(1)] add_node_quiet [OF assms(1)] assms(2,3) by (auto simp: benign_def)

lemma place_nodes_benign:
  assumes "place_nodes a rnd now c authority first k hs s = Inr (r, s')"
    "c_database_id c \<in> set (map d_id (databases s))" "load_id ` set hs \<subseteq> set (map h_id (hosts s))"
  shows "benign (scheduler a) s s'"
  using assms
proof (induction a rnd now c authority first k hs s rule: place_nodes.induct)
  case (2 a rnd now c authority first i h hs s)
  obtain port t where add: "add_node a rnd (c_database_id c) (''n'' @ show_radix 10 (i + 1)) (load_id h)
      (case load_address h of Some x \<Rightarrow> x | None \<Rightarrow> []) (if i = 0 then first else ''seed'') authority s = Inr (port, t)"
    using "2.prems"(1) by (auto simp: and_then_Inr Let_def)
  note q = add_node_quiet [OF add]
  have b: "benign (scheduler a) s t" using add_node_benign [OF add] "2.prems"(2,3) by simp
  show ?case
  proof (cases port)
    case None
    then show ?thesis using "2.prems"(1) add b by (auto simp: Let_def)
  next
    case (Some p)
    let ?u = "add_log now (c_operation_id c) ''reconciler'' (''placed '' @ (''n'' @ show_radix 10 (i + 1))
      @ '' on host '' @ load_id h @ '' at port '' @ show_int p) t"
    have run: "place_nodes a rnd now c authority first (i + 1) hs ?u = Inr (r, s')"
      using "2.prems"(1) add Some by (simp add: Let_def)
    have log: "benign (scheduler a) t ?u" by (rule benign_keeps) (simp_all add: quiet_def)
    have "benign (scheduler a) ?u s'"
      by (rule "2.IH" [OF refl refl refl refl run]) (use Some q "2.prems"(2,3) in auto)
    then show ?thesis using benign_trans [OF b] benign_trans [OF log] by blast
  qed
qed simp

lemma host_loads_ids: "load_id ` set (host_loads now s) = set (map h_id (hosts s))"
  by (auto simp: host_loads_def host_load_of_def Let_def image_image)

lemma placed_ids:
  assumes "place cfg (filter p (filter q (host_loads now s))) n request = Placed chosen"
  shows "load_id ` set chosen \<subseteq> set (map h_id (hosts s))"
  unfolding host_loads_ids [symmetric, of _ now] using placed_choice(3) [OF assms] by auto

lemma place_step_benign:
  assumes "place_step a rnd now c s = Inr (r, s')"
  shows "benign (scheduler a) s s'"
proof -
  obtain d where d: "d \<in> set (databases s)" "d_id d = c_database_id c"
    and run: "place_step a rnd now c s = Inr (r, s')" "fetch_one (database_at s (c_database_id c)) = Inr d"
    using assms by (auto simp: place_step_def and_then_Inr fetch_one_Inr database_at_def dest: filter_eq_ConsD)
  show ?thesis
  proof (cases "place (scheduler a) (filter (wanted_host (d_spec d)) (filter usable_host (host_loads now s)))
      (if ha (d_spec d) then HA_NODES else 1) (spec_resources (d_spec d))")
    case (Placed chosen)
    have d_mem: "c_database_id c \<in> d_id ` set (databases s)" using d by force
    obtain authority sealed k where k: "place_nodes a rnd now c authority k 0 chosen
        (s\<lparr>databases := update_where (\<lambda>d. d_id d = c_database_id c)
          (\<lambda>d. d\<lparr>d_ca_cert_pem := Some (ca_cert authority), d_secrets := Some sealed\<rparr>) (databases s)\<rparr>) = Inr (r, s')"
      using run Placed by (auto simp: place_step_def and_then_Inr Let_def)
    show ?thesis
      by (rule benign_trans [OF benign_keeps place_nodes_benign [OF k]])
        (use d_mem placed_ids [OF Placed] in \<open>simp_all add: quiet_def db_access_def\<close>)
  qed (use run in \<open>auto simp: place_step_def Let_def\<close>)
qed

lemma place_replica_Placed:
  assumes "place_replica a rnd now c s = Inr (r, s')"
    "spec_of_database s (c_database_id c) = Inr spec" "replica_of spec = Some src"
    "place (scheduler a) (filter (wanted_host spec) (filter (\<lambda>h. domain h \<notin> set (taken_domains s (source_database_id src)))
      (filter usable_host (host_loads now s)))) 1 (spec_resources spec) = Placed chosen"
  obtains h rest v authority t port u where "chosen = h # rest"
    "store_secrets a rnd (c_database_id c) v s = Inr t"
    "add_node a rnd (c_database_id c) ''n1'' (load_id h) (case load_address h of Some x \<Rightarrow> x | None \<Rightarrow> [])
      ''replica'' authority t = Inr (port, u)"
    "s' = (case port of None \<Rightarrow> u | Some p \<Rightarrow> add_log now (c_operation_id c) ''reconciler''
      (''placed the replica on host '' @ load_name h @ '' at port '' @ show_int p)
      (bump_hosts (source_database_id src) u))"
  using assms by (fastforce simp: place_replica_def and_then_Inr Let_def fetch_one_Inr split: option.splits)

lemma place_replica_benign:
  assumes "place_replica a rnd now c s = Inr (r, s')"
  shows "benign (scheduler a) s s'"
proof -
  obtain spec src where spec: "spec_of_database s (c_database_id c) = Inr spec" "replica_of spec = Some src"
    using assms by (auto simp: place_replica_def and_then_Inr)
  then have d_mem: "c_database_id c \<in> d_id ` set (databases s)"
    by (auto simp: spec_of_database_def and_then_Inr fetch_one_Inr database_at_def dest!: filter_eq_ConsD)
  let ?hosts = "filter (wanted_host spec) (filter (\<lambda>h. domain h \<notin> set (taken_domains s (source_database_id src)))
    (filter usable_host (host_loads now s)))"
  show ?thesis
  proof (cases "place (scheduler a) ?hosts 1 (spec_resources spec)")
    case (Placed chosen)
    obtain h rest v authority t port u where chosen: "chosen = h # rest"
      and store: "store_secrets a rnd (c_database_id c) v s = Inr t"
      and add: "add_node a rnd (c_database_id c) ''n1'' (load_id h) (case load_address h of Some x \<Rightarrow> x | None \<Rightarrow> [])
        ''replica'' authority t = Inr (port, u)"
      and s': "s' = (case port of None \<Rightarrow> u | Some p \<Rightarrow> add_log now (c_operation_id c) ''reconciler''
        (''placed the replica on host '' @ load_name h @ '' at port '' @ show_int p)
        (bump_hosts (source_database_id src) u))"
      by (rule place_replica_Placed [OF assms spec Placed])
    have "load_id h \<in> h_id ` set (hosts s)"
      using placed_choice(3) [OF Placed, of h] host_loads_ids [of now s] unfolding chosen by auto
    moreover have "map h_id (hosts t) = map h_id (hosts s)"
      using store by (auto simp: store_secrets_def and_then_Inr)
    ultimately have h: "load_id h \<in> set (map h_id (hosts t))" by simp
    have st: "benign (scheduler a) s t" by (rule store_secrets_benign [OF store])
    have "benign (scheduler a) t u"
      using add_node_benign [OF add] h benign_ids [OF st] d_mem by simp
    moreover have "benign (scheduler a) u s'"
      unfolding s' by (rule benign_keeps) (simp_all add: quiet_def split: option.splits)
    ultimately show ?thesis using benign_trans [OF st] benign_trans by blast
  qed (use assms spec in \<open>auto simp: place_replica_def Let_def\<close>)
qed

text \<open>Every step but \<open>open_access\<close> is benign.\<close>

definition benign_step :: "scheduler_config \<Rightarrow> store \<Rightarrow> string + (outcome \<times> store) \<Rightarrow> bool" where
  "benign_step cfg s x \<longleftrightarrow> (\<forall>r s'. x = Inr (r, s') \<longrightarrow> benign cfg s s')"

lemma benign_stepI: "(\<And>r s'. x = Inr (r, s') \<Longrightarrow> benign cfg s s') \<Longrightarrow> benign_step cfg s x"
  by (simp add: benign_step_def)

lemma benign_step_if:
  "(b \<Longrightarrow> benign_step cfg s x) \<Longrightarrow> (\<not> b \<Longrightarrow> benign_step cfg s y) \<Longrightarrow> benign_step cfg s (if b then x else y)"
  by simp

lemma benign_step_same: "benign_step cfg s (Inr (r, s))"
  by (simp add: benign_step_def)

lemma wait_steps_same:
  "wait_removed c s = Inr (r, s') \<Longrightarrow> s' = s"
  "wait_old_removed now c s = Inr (r, s') \<Longrightarrow> s' = s"
  "upgrade_check c s = Inr (r, s') \<Longrightarrow> s' = s"
  by (auto simp: wait_removed_def wait_old_removed_def upgrade_check_def Let_def and_then_Inr split: if_splits)

lemma wait_version_same:
  assumes "wait_version c s = Inr (r, s')"
  shows "s' = s"
proof -
  obtain target where "target_version c = Inr target" using assms by (auto simp: wait_version_def and_then_Inr)
  then show ?thesis using assms
    by (cases "sort_key n_node (filter (\<lambda>n. n_server_version n \<noteq> Some target) (live_nodes s (c_database_id c)))")
      (simp_all add: wait_version_def)
qed

lemma benign_waits:
  "benign_step cfg s (wait_applied now c except s)" "benign_step cfg s (wait_removed c s)"
  "benign_step cfg s (wait_old_removed now c s)" "benign_step cfg s (upgrade_check c s)"
  "benign_step cfg s (wait_version c s)"
  by (rule benign_stepI; drule wait_applied_same wait_steps_same wait_version_same; simp)+

lemma benign_status: "benign_step cfg s (Inr (r, set_status now i st m s))"
  by (auto simp: benign_step_def quiet_def intro!: benign_keeps)

lemma benign_generation:
  "benign_step cfg s (and_then (new_generation now c s) (\<lambda>(g, s). Inr (Finished, s)))"
  by (auto simp: benign_step_def and_then_Inr intro: new_generation_benign)

lemma benign_remove_replica:
  "benign_step cfg s (and_then (replica_source_of s i) (\<lambda>source.
    case source of Some _ \<Rightarrow> replica_task rnd now c kind s | None \<Rightarrow> Inr (Finished, s)))"
  by (auto simp: benign_step_def and_then_Inr intro: replica_task_benign split: option.splits)

lemmas benign_changes = place_step_benign run_task_benign place_replica_benign replica_task_benign promote_benign
  retract_old_benign retract_benign drop_old_benign finalize_benign ca_issue_benign secrets_steps_benign

lemma run_step_benign:
  assumes "run_step a rnd now c s = Inr (r, s')" "c_name c \<noteq> ''open_access''"
  shows "benign (scheduler a) s s'"
proof -
  have "benign_step (scheduler a) s (run_step a rnd now c s)"
    unfolding run_step_def Let_def if_not_P [OF assms(2)]
    by (intro benign_step_if)
      (rule benign_waits benign_status benign_generation benign_remove_replica benign_step_same
        benign_changes [THEN benign_stepI]; assumption?)+
  then show ?thesis using assms(1) by (simp add: benign_step_def)
qed

section \<open>The life of an operation\<close>

definition steps_of :: "step_row list \<Rightarrow> string \<Rightarrow> step_row list" where
  "steps_of ss op_id = filter (\<lambda>st. s_operation_id st = op_id) ss"

text \<open>
  The statuses of the steps of an operation, for each status of the operation: the
  steps of one that is due are done up to a point and pending from there; all are
  done once it has succeeded; one that failed stopped at a step.
\<close>

definition progress :: "string \<Rightarrow> string list \<Rightarrow> bool" where
  "progress st sts \<longleftrightarrow>
    ((st = ''pending'' \<or> st = ''running'')
      \<and> (\<exists>i < length sts. sts = replicate i ''done'' @ replicate (length sts - i) ''pending''))
    \<or> (st = ''succeeded'' \<and> sts = replicate (length sts) ''done'')
    \<or> (st = ''failed'' \<and> (\<exists>i < length sts. \<exists>x \<in> {''pending'', ''failed''}.
        sts = replicate i ''done'' @ x # replicate (length sts - i - 1) ''pending''))"

definition op_wf :: "step_row list \<Rightarrow> string \<times> nat \<times> string \<times> string \<times> string \<Rightarrow> bool" where
  "op_wf ss = (\<lambda>(op_id, q, db, kind, st). \<exists>k. kind = kind_as_str k
    \<and> map (\<lambda>r. (s_seq r, s_name r)) (steps_of ss op_id) = enumerate 0 (kind_steps k)
    \<and> progress st (map s_status (steps_of ss op_id)))"

definition ops_ok :: "step_row list \<Rightarrow> (string \<times> nat \<times> string \<times> string \<times> string) list \<Rightarrow> nat \<Rightarrow> bool" where
  "ops_ok ss cores q \<longleftrightarrow>
    distinct (map fst cores) \<and> distinct (map (fst \<circ> snd) cores)
    \<and> (\<forall>x \<in> set cores. op_wf ss x \<and> fst (snd x) < q) \<and> s_operation_id ` set ss \<subseteq> fst ` set cores"

definition ops_inv :: "store \<Rightarrow> bool" where
  "ops_inv s \<longleftrightarrow> ops_ok (steps s) (map op_core (operations s)) (next_seq s)"

lemma ops_inv_quiet: "quiet s s' \<Longrightarrow> ops_inv s \<Longrightarrow> ops_inv s'"
  by (simp add: quiet_def ops_inv_def)

lemma steps_of_append [simp]: "steps_of (ss @ ts) i = steps_of ss i @ steps_of ts i"
  by (simp add: steps_of_def)

lemma filter_update_where: "(\<And>x. q (f x) = q x) \<Longrightarrow> filter q (update_where p f xs) = update_where p f (filter q xs)"
  by (induction xs) (auto simp: update_where_def)

lemma update_where_absent: "(\<And>x. x \<in> set xs \<Longrightarrow> \<not> p x) \<Longrightarrow> update_where p f xs = xs"
  by (auto simp: update_where_def intro: map_idI)

lemma steps_of_new:
  "steps_of (map (new_step i now) names) j = (if i = j then map (new_step i now) names else [])"
  by (induction names) (auto simp: steps_of_def new_step_def)

lemma steps_of_absent: "i \<notin> s_operation_id ` set ss \<Longrightarrow> steps_of ss i = []"
  by (auto simp: steps_of_def filter_empty_conv)

lemma kind_steps_not_Nil: "kind_steps k \<noteq> []"
  by (cases k) simp_all

lemma new_steps_progress:
  assumes "names \<noteq> []"
  shows "progress ''pending'' (map s_status (map (new_step i now) (enumerate 0 names)))"
proof -
  have "map s_status (map (new_step i now) (enumerate 0 names)) = replicate (length names) ''pending''"
    by (rule nth_equalityI) (simp_all add: new_step_def nth_enumerate_eq)
  then show ?thesis using assms by (auto simp: progress_def intro!: exI [of _ 0])
qed

lemma new_steps_names:
  "map (\<lambda>r. (s_seq r, s_name r)) (map (new_step i now) (enumerate 0 names)) = enumerate 0 names"
  by (rule nth_equalityI) (simp_all add: new_step_def nth_enumerate_eq)

lemma create_with_Inr:
  assumes "create_with rnd now i kind g params s = Inr (op, s')"
  shows "o_id op = rnd ''operation id''" "o_id op \<notin> o_id ` set (operations s)"
    "op_core op = (rnd ''operation id'', next_seq s, i, kind_as_str kind, ''pending'')"
    "s' = s\<lparr>operations := operations s @ [op],
      steps := steps s @ map (new_step (o_id op) now) (enumerate 0 (kind_steps kind)), next_seq := Suc (next_seq s)\<rparr>"
  using assms by (auto simp: create_with_def Let_def op_core_def split: if_splits)

lemma create_with_ops:
  assumes "create_with rnd now i kind g params s = Inr (op, s')" "ops_inv s"
  shows "ops_inv s'"
proof -
  note new = create_with_Inr [OF assms(1)]
  let ?ss = "map (new_step (o_id op) now) (enumerate 0 (kind_steps kind))"
  have fresh: "o_id op \<notin> fst ` set (map op_core (operations s))"
    using new(2) by (auto simp: op_core_def)
  have absent: "steps_of (steps s) (o_id op) = []"
    using assms(2) fresh by (intro steps_of_absent) (auto simp: ops_inv_def ops_ok_def)
  have old: "op_wf (steps s @ ?ss) x" if "x \<in> set (map op_core (operations s))" for x
  proof -
    have "op_wf (steps s) x" using assms(2) that by (auto simp: ops_inv_def ops_ok_def)
    moreover have "steps_of ?ss (fst x) = []"
      using fresh that by (auto simp: steps_of_new)
    ultimately show ?thesis by (auto simp: op_wf_def split: prod.splits)
  qed
  have mine: "op_wf (steps s @ ?ss) (op_core op)"
    unfolding new(3) op_wf_def prod.case
    by (rule exI [of _ kind]) (simp add: new(1) [symmetric] absent steps_of_new new_steps_names new_steps_progress
        kind_steps_not_Nil del: map_map)
  have core: "fst (op_core op) = o_id op" by (simp add: op_core_def)
  have seqs: "fst (snd x) < next_seq s" if "x \<in> set (map op_core (operations s))" for x
    using assms(2) that by (auto simp: ops_inv_def ops_ok_def)
  have "next_seq s \<notin> (fst \<circ> snd) ` set (map op_core (operations s))"
    using seqs by fastforce
  then show ?thesis
    using assms(2) old mine fresh core seqs new(3) unfolding new(4)
    by (auto simp: ops_inv_def ops_ok_def new_step_def less_SucI)
qed

definition with_status ::
  "string \<Rightarrow> string \<Rightarrow> string \<times> nat \<times> string \<times> string \<times> string \<Rightarrow> string \<times> nat \<times> string \<times> string \<times> string" where
  "with_status op_id st' = (\<lambda>(i, q, d, k, st). (i, q, d, k, if i = op_id then st' else st))"

lemma op_core_with_status:
  assumes "\<And>op. op_core (f op) = with_status (o_id op) st' (op_core op)"
  shows "map op_core (update_where (\<lambda>op. o_id op = op_id) f ops) = map (with_status op_id st') (map op_core ops)"
  using assms by (auto simp: update_where_def with_status_def op_core_def)

lemma with_status_keeps [simp]:
  "fst (with_status i st x) = fst x" "fst (snd (with_status i st x)) = fst (snd x)"
  by (simp_all add: with_status_def split: prod.splits)

lemma ops_ok_advance:
  assumes inv: "ops_ok ss cores q"
    and others: "\<And>j. j \<noteq> op_id \<Longrightarrow> steps_of ss' j = steps_of ss j"
    and names: "map (\<lambda>r. (s_seq r, s_name r)) (steps_of ss' op_id) = map (\<lambda>r. (s_seq r, s_name r)) (steps_of ss op_id)"
    and prog: "progress st' (map s_status (steps_of ss' op_id))"
    and ids: "s_operation_id ` set ss' = s_operation_id ` set ss"
  shows "ops_ok ss' (map (with_status op_id st') cores) q"
proof -
  have "op_wf ss' (with_status op_id st' x)" if "x \<in> set cores" for x
  proof -
    have "op_wf ss x" using inv that by (simp add: ops_ok_def)
    then show ?thesis
      using others [of "fst x"] names prog
      by (cases "fst x = op_id") (auto simp: op_wf_def with_status_def split: prod.splits)
  qed
  moreover have "map fst (map (with_status op_id st') cores) = map fst cores"
    "map (fst \<circ> snd) (map (with_status op_id st') cores) = map (fst \<circ> snd) cores"
    "fst ` set (map (with_status op_id st') cores) = fst ` set cores"
    by (simp_all add: image_image)
  ultimately show ?thesis
    using inv ids unfolding ops_ok_def by (auto simp del: map_map)
qed

text \<open>Marking the step at a position marks exactly it.\<close>

lemma mark_at:
  assumes "map s_seq xs = [0 ..< length xs]" "i < length xs" "\<And>r. s_status (f r) = v"
    "\<And>r. r \<in> set xs \<Longrightarrow> s_operation_id r = op_id"
  shows "map s_status (update_where (\<lambda>r. s_operation_id r = op_id \<and> s_seq r = i) f xs) = (map s_status xs)[i := v]"
proof (rule nth_equalityI)
  fix k assume "k < length (map s_status (update_where (\<lambda>r. s_operation_id r = op_id \<and> s_seq r = i) f xs))"
  then have k: "k < length xs" by (simp add: update_where_def)
  have "s_seq (xs ! k) = k"
    using assms(1) k by (metis add_0 nth_map nth_upt)
  then show "map s_status (update_where (\<lambda>r. s_operation_id r = op_id \<and> s_seq r = i) f xs) ! k
      = (map s_status xs)[i := v] ! k"
    using k assms(3) assms(4) [OF nth_mem [OF k]] by (auto simp: update_where_def nth_list_update)
qed (simp add: update_where_def)

lemma steps_of_mark:
  assumes "\<And>r. s_operation_id (f r) = s_operation_id r"
  shows "steps_of (update_where (\<lambda>r. s_operation_id r = op_id \<and> s_seq r = i) f ss) j
    = (if j = op_id then update_where (\<lambda>r. s_operation_id r = op_id \<and> s_seq r = i) f (steps_of ss op_id)
       else steps_of ss j)"
proof -
  have "steps_of (update_where (\<lambda>r. s_operation_id r = op_id \<and> s_seq r = i) f ss) j
      = update_where (\<lambda>r. s_operation_id r = op_id \<and> s_seq r = i) f (steps_of ss j)"
    unfolding steps_of_def by (rule filter_update_where) (simp add: assms)
  then show ?thesis by (auto simp: steps_of_def intro: update_where_absent)
qed

lemma seqs_of_names: "map (\<lambda>r. (s_seq r, s_name r)) xs = enumerate 0 names \<Longrightarrow> map s_seq xs = [0 ..< length xs]"
proof -
  assume h: "map (\<lambda>r. (s_seq r, s_name r)) xs = enumerate 0 names"
  have "map fst (map (\<lambda>r. (s_seq r, s_name r)) xs) = [0 ..< length names]" unfolding h by simp
  moreover have "length xs = length names" using arg_cong [OF h, of length] by simp
  ultimately show ?thesis by (simp add: comp_def)
qed

lemma pending_at:
  assumes "sts = replicate i ''done'' @ replicate (length sts - i) ''pending''" "i < length sts" "j < length sts"
  shows "sts ! j = ''pending'' \<longleftrightarrow> i \<le> j"
  using assms(2,3) by (subst assms(1)) (auto simp: nth_append)

text \<open>A claimed step is the first pending step of its operation.\<close>

lemma claimed_position:
  assumes "c \<in> set (claims now s)" "ops_inv s"
  obtains op k where "op \<in> set (operations s)" "o_id op = c_operation_id c" "active op"
    "o_database_id op = c_database_id c" "o_kind op = c_kind c" "c_kind c = kind_as_str k"
    "map (\<lambda>r. (s_seq r, s_name r)) (steps_of (steps s) (c_operation_id c)) = enumerate 0 (kind_steps k)"
    "c_seq c < length (kind_steps k)" "c_name c = kind_steps k ! c_seq c"
    "map s_status (steps_of (steps s) (c_operation_id c))
      = replicate (c_seq c) ''done'' @ replicate (length (kind_steps k) - c_seq c) ''pending''"
    "earliest s op" "c_target_generation c = o_target_generation op" "c_params c = o_params op"
proof -
  obtain st op where st: "st \<in> set (steps s)" "op \<in> set (operations s)" "claimable now s st op" "c = claim_of now st op"
    using assms(1) by (auto simp: claims_def)
  then have c: "o_id op = c_operation_id c" "s_operation_id st = c_operation_id c" "s_status st = ''pending''"
    "active op" "first_pending s (c_operation_id c) (c_seq c)" "s_seq st = c_seq c" "s_name st = c_name c"
    "o_database_id op = c_database_id c" "o_kind op = c_kind c" "earliest s op"
    "c_target_generation c = o_target_generation op" "c_params c = o_params op"
    by (auto simp: claimable_def claim_of_def)
  let ?xs = "steps_of (steps s) (c_operation_id c)" and ?sts = "map s_status (steps_of (steps s) (c_operation_id c))"
  have "op_wf (steps s) (op_core op)" using assms(2) st(2) by (auto simp: ops_inv_def ops_ok_def)
  then obtain k where k: "c_kind c = kind_as_str k"
      "map (\<lambda>r. (s_seq r, s_name r)) ?xs = enumerate 0 (kind_steps k)" "progress (o_status op) ?sts"
    unfolding op_wf_def op_core_def prod.case c(1,9) by blast
  have len: "length ?xs = length (kind_steps k)" using arg_cong [OF k(2), of length] by simp
  obtain i where i: "i < length ?sts" "?sts = replicate i ''done'' @ replicate (length ?sts - i) ''pending''"
    using k(3) c(4) by (auto simp: progress_def active_def)
  have seqs: "map s_seq ?xs = [0 ..< length ?xs]" by (rule seqs_of_names [OF k(2)])
  obtain j where j: "j < length ?xs" "?xs ! j = st"
    using st(1) c(2) by (metis (mono_tags, lifting) in_set_conv_nth mem_Collect_eq set_filter steps_of_def)
  have js: "c_seq c = j" using seqs j c(6) by (metis add_0 nth_map nth_upt)
  have "?sts ! j = ''pending''" using j c(3) by simp
  then have "i \<le> j" using pending_at [OF i(2,1)] j(1) by simp
  moreover have "j \<le> i"
  proof -
    have "?xs ! i \<in> set (steps s)" "s_operation_id (?xs ! i) = c_operation_id c"
      using nth_mem [of i ?xs] i(1) by (auto simp: steps_of_def)
    moreover have "s_status (?xs ! i) = ''pending''" using pending_at [OF i(2,1), of i] i(1) by simp
    moreover have "s_seq (?xs ! i) = i" using seqs i(1) by (metis add_0 length_map nth_map nth_upt)
    ultimately show ?thesis using c(5) js by (auto simp: first_pending_def list_all_iff)
  qed
  ultimately have ij: "i = c_seq c" using js by simp
  have name: "c_name c = kind_steps k ! c_seq c"
    using arg_cong [OF k(2), of "\<lambda>l. l ! j"] j c(7) len js by (simp add: nth_enumerate_eq)
  show ?thesis
    by (rule that [OF st(2) c(1,4,8,9) k(1,2) _ name _ c(10-12)]) (use i ij len in simp_all)
qed

definition same_ops :: "store \<Rightarrow> store \<Rightarrow> bool" where
  "same_ops s s' \<longleftrightarrow>
    steps s' = steps s \<and> map op_core (operations s') = map op_core (operations s) \<and> next_seq s' = next_seq s"

lemma quiet_same_ops: "quiet s s' \<Longrightarrow> same_ops s s'"
  by (simp add: quiet_def same_ops_def)

lemma open_access_same_ops:
  assumes "open_access now c s = Inr (r, s')"
  shows "same_ops s s'"
proof -
  obtain g where "new_generation now c (s\<lparr>databases := update_where (\<lambda>d. d_id d = c_database_id c)
      (\<lambda>d. d\<lparr>d_access_open := True\<rparr>) (databases s)\<rparr>) = Inr (g, s')"
    using assms by (auto simp: open_access_def Let_def and_then_Inr)
  from new_generation_quiet [OF this] show ?thesis by (simp add: quiet_def same_ops_def)
qed

lemma run_step_same_ops:
  assumes "run_step a rnd now c s = Inr (r, s')"
  shows "same_ops s s'"
proof (cases "c_name c = ''open_access''")
  case True
  then have "run_step a rnd now c s = open_access now c s" by (simp add: run_step_def)
  then show ?thesis using open_access_same_ops [of now c s r s'] assms by simp
next
  case False
  then show ?thesis using run_step_benign [OF assms] by (simp add: benign_def quiet_same_ops)
qed

lemma replicate_step:
  assumes "i < n"
  shows "(replicate i x @ replicate (n - i) y)[i := z] = replicate i x @ z # replicate (n - i - 1) y"
proof -
  obtain m where m: "n - i = Suc m" using assms by (metis Suc_diff_Suc)
  show ?thesis unfolding m by (simp add: list_update_append)
qed

lemma with_status_twice [simp]: "with_status i st (with_status i st' x) = with_status i st x"
  by (simp add: with_status_def split: prod.splits)

text \<open>The parts of \<open>settle_outcome\<close> on a claimed step.\<close>

lemma marked_statuses:
  assumes "map (\<lambda>r. (s_seq r, s_name r)) (steps_of ss op_id) = enumerate 0 names" "i < length names"
    "map s_status (steps_of ss op_id) = replicate i ''done'' @ replicate (length names - i) ''pending''"
    "\<And>r. s_status (f r) = v"
  shows "map s_status (update_where (\<lambda>r. s_operation_id r = op_id \<and> s_seq r = i) f (steps_of ss op_id))
    = replicate i ''done'' @ v # replicate (length names - i - 1) ''pending''"
proof -
  have len: "length (steps_of ss op_id) = length names" using arg_cong [OF assms(1), of length] by simp
  have "map s_status (update_where (\<lambda>r. s_operation_id r = op_id \<and> s_seq r = i) f (steps_of ss op_id))
      = (map s_status (steps_of ss op_id))[i := v]"
    by (rule mark_at [OF seqs_of_names [OF assms(1)] _ assms(4)]) (use assms(2) len in \<open>auto simp: steps_of_def\<close>)
  then show ?thesis unfolding assms(3) replicate_step [OF assms(2)] .
qed

lemma mark_step_frame:
  "operations (mark_step now c v s) = operations s" "next_seq (mark_step now c v s) = next_seq s"
  "databases (mark_step now c v s) = databases s" "nodes (mark_step now c v s) = nodes s"
  "hosts (mark_step now c v s) = hosts s" "tasks (mark_step now c v s) = tasks s"
  by (simp_all add: mark_step_def)

lemma ops_ok_marked:
  assumes inv: "ops_ok ss cores q"
    and names: "map (\<lambda>r. (s_seq r, s_name r)) (steps_of ss op_id) = enumerate 0 names"
    and i: "i < length names"
    and sts: "map s_status (steps_of ss op_id) = replicate i ''done'' @ replicate (length names - i) ''pending''"
    and f: "\<And>r. s_status (f r) = v" "\<And>r. s_operation_id (f r) = s_operation_id r" "\<And>r. s_seq (f r) = s_seq r"
      "\<And>r. s_name (f r) = s_name r"
    and prog: "progress st' (replicate i ''done'' @ v # replicate (length names - i - 1) ''pending'')"
  shows "ops_ok (update_where (\<lambda>r. s_operation_id r = op_id \<and> s_seq r = i) f ss) (map (with_status op_id st') cores) q"
proof (rule ops_ok_advance [OF inv])
  let ?ss = "update_where (\<lambda>r. s_operation_id r = op_id \<and> s_seq r = i) f ss"
  note at = steps_of_mark [of f op_id i ss, OF f(2)]
  show "steps_of ?ss j = steps_of ss j" if "j \<noteq> op_id" for j using that by (simp add: at)
  show "map (\<lambda>r. (s_seq r, s_name r)) (steps_of ?ss op_id) = map (\<lambda>r. (s_seq r, s_name r)) (steps_of ss op_id)"
    unfolding at by (simp add: f)
  show "progress st' (map s_status (steps_of ?ss op_id))"
    unfolding at using marked_statuses [OF names i sts f(1)] prog by simp
  have "map s_operation_id ?ss = map s_operation_id ss" by (simp add: f)
  then show "s_operation_id ` set ?ss = s_operation_id ` set ss" by (metis set_map)
qed

lemma done_prefix: "replicate i x @ x # replicate k y = replicate (Suc i) x @ replicate k y"
  by (induction i) simp_all

text \<open>
  A claimed step on which \<open>settle_outcome\<close> is called: its operation is running and
  its steps stand at it.
\<close>

definition at_step :: "store \<Rightarrow> claimed \<Rightarrow> string list \<Rightarrow> bool" where
  "at_step s c names \<longleftrightarrow>
    map (\<lambda>r. (s_seq r, s_name r)) (steps_of (steps s) (c_operation_id c)) = enumerate 0 names
    \<and> c_seq c < length names
    \<and> map s_status (steps_of (steps s) (c_operation_id c))
      = replicate (c_seq c) ''done'' @ replicate (length names - c_seq c) ''pending''
    \<and> map (with_status (c_operation_id c) ''running'') (map op_core (operations s)) = map op_core (operations s)"

lemma open_steps_iff:
  assumes "at_step s c names"
  shows "list_ex (\<lambda>r. s_operation_id r = c_operation_id c \<and> s_status r = ''pending'') (steps (mark_step now c ''done'' s))
    \<longleftrightarrow> c_seq c + 1 < length names"
proof -
  let ?f = "\<lambda>r. r\<lparr>s_status := ''done'', s_attempts := s_attempts r + 1, s_finished_at := Some now\<rparr>"
  let ?ss = "steps (mark_step now c ''done'' s)"
  have sts: "map s_status (steps_of ?ss (c_operation_id c))
      = replicate (c_seq c) ''done'' @ ''done'' # replicate (length names - c_seq c - 1) ''pending''"
    using marked_statuses [of "steps s" "c_operation_id c" names "c_seq c" ?f "''done''"] assms
    by (simp add: at_step_def mark_step_def steps_of_mark)
  have "list_ex (\<lambda>r. s_operation_id r = c_operation_id c \<and> s_status r = ''pending'') ?ss
      \<longleftrightarrow> ''pending'' \<in> set (map s_status (steps_of ?ss (c_operation_id c)))"
    by (simp add: list_ex_iff steps_of_def image_iff eq_commute [of _ "''pending''"] conj_ac Bex_def)
  also have "\<dots> \<longleftrightarrow> c_seq c + 1 < length names" unfolding sts by (auto simp: set_replicate_conv_if)
  finally show ?thesis .
qed

lemma finish_step_ops:
  assumes "at_step s c names" "ops_inv s"
  shows "ops_inv (finish_step now c s)"
proof -
  let ?i = "c_operation_id c" and ?n = "length names"
  let ?f = "\<lambda>r. r\<lparr>s_status := ''done'', s_attempts := s_attempts r + 1, s_finished_at := Some now\<rparr>"
  have marked: "ops_ok (steps (mark_step now c ''done'' s)) (map (with_status ?i st) (map op_core (operations s))) (next_seq s)"
    if "progress st (replicate (c_seq c) ''done'' @ ''done'' # replicate (?n - c_seq c - 1) ''pending'')" for st
    using ops_ok_marked [of "steps s" _ _ ?i names "c_seq c" ?f "''done''"] assms that
    by (simp add: at_step_def mark_step_def ops_inv_def del: map_map)
  show ?thesis
  proof (cases "c_seq c + 1 < ?n")
    case True
    have "progress ''running'' (replicate (c_seq c) ''done'' @ ''done'' # replicate (?n - c_seq c - 1) ''pending'')"
      unfolding done_prefix progress_def using True by (auto intro!: exI [of _ "Suc (c_seq c)"])
    from marked [OF this] show ?thesis
      using open_steps_iff [OF assms(1)] True assms(1)
      by (simp add: finish_step_def Let_def ops_inv_def mark_step_frame update_where_absent at_step_def del: map_map)
  next
    case False
    then have "c_seq c + 1 = ?n" using assms(1) by (simp add: at_step_def)
    then have "progress ''succeeded'' (replicate (c_seq c) ''done'' @ ''done'' # replicate (?n - c_seq c - 1) ''pending'')"
      unfolding done_prefix progress_def by auto
    from marked [OF this] show ?thesis
      using open_steps_iff [OF assms(1)] False
      by (simp add: finish_step_def Let_def ops_inv_def mark_step_frame op_core_with_status op_core_def with_status_def
          del: map_map)
  qed
qed

lemma fail_step_ops:
  assumes "at_step s c names" "ops_inv s"
  shows "ops_inv (fail_step now c m s)"
proof -
  let ?f = "\<lambda>r. r\<lparr>s_status := ''failed'', s_attempts := s_attempts r + 1, s_finished_at := Some now\<rparr>"
  have "progress ''failed'' (replicate (c_seq c) ''done'' @ ''failed'' # replicate (length names - c_seq c - 1) ''pending'')"
    unfolding progress_def by (auto intro!: exI [of _ "c_seq c"])
  then have "ops_ok (steps (mark_step now c ''failed'' s))
      (map (with_status (c_operation_id c) ''failed'') (map op_core (operations s))) (next_seq s)"
    using ops_ok_marked [of "steps s" _ _ "c_operation_id c" names "c_seq c" ?f "''failed''"] assms
    by (simp add: at_step_def mark_step_def ops_inv_def del: map_map)
  then show ?thesis
    by (simp add: fail_step_def Let_def ops_inv_def mark_step_frame op_core_with_status op_core_def with_status_def
        del: map_map)
qed

lemma postpone_frame:
  "operations (postpone now c m s) = operations s" "next_seq (postpone now c m s) = next_seq s"
  "databases (postpone now c m s) = databases s" "nodes (postpone now c m s) = nodes s"
  "hosts (postpone now c m s) = hosts s" "tasks (postpone now c m s) = tasks s"
  by (simp_all add: postpone_def Let_def)

lemma postpone_steps:
  "steps (postpone now c m s) = update_where (\<lambda>r. s_operation_id r = c_operation_id c \<and> s_seq r = c_seq c)
    (\<lambda>r. r\<lparr>s_attempts := s_attempts r + 1, s_not_before := now + WAIT_RETRY\<rparr>) (steps s)"
  by (simp add: postpone_def Let_def)

lemma postpone_ops:
  assumes "ops_inv s"
  shows "ops_inv (postpone now c m s)"
proof -
  have "map s_operation_id (steps (postpone now c m s)) = map s_operation_id (steps s)" by (simp add: postpone_steps)
  then have "s_operation_id ` set (steps (postpone now c m s)) = s_operation_id ` set (steps s)" by (metis set_map)
  moreover have "op_wf (steps (postpone now c m s)) x = op_wf (steps s) x" for x
    unfolding postpone_steps by (auto simp: op_wf_def steps_of_mark split: prod.splits)
  ultimately show ?thesis using assms by (simp add: ops_inv_def ops_ok_def postpone_frame)
qed

definition running :: "claimed \<Rightarrow> store \<Rightarrow> store" where
  "running c s =
    s\<lparr>operations := update_where (\<lambda>op. o_id op = c_operation_id c) (\<lambda>op. op\<lparr>o_status := ''running''\<rparr>) (operations s)\<rparr>"

lemma running_frame [simp]:
  "steps (running c s) = steps s" "next_seq (running c s) = next_seq s" "databases (running c s) = databases s"
  "nodes (running c s) = nodes s" "hosts (running c s) = hosts s" "tasks (running c s) = tasks s"
  by (simp_all add: running_def)

lemma running_cores:
  "map op_core (operations (running c s)) = map (with_status (c_operation_id c) ''running'') (map op_core (operations s))"
  by (simp add: running_def op_core_with_status op_core_def with_status_def)

lemma step_on_Inr:
  assumes "step_on a rnd now c s = Inr s'" "op \<in> set (operations s)" "o_id op = c_operation_id c" "active op"
  obtains r t where "run_step a rnd now c (running c s) = Inr (r, t)" "s' = settle_outcome now c r t"
  using assms by (auto simp: step_on_def running_def and_then_Inr list_ex_iff Let_def split: if_splits)

lemma settle_outcome_ops:
  assumes "at_step s c names" "ops_inv s"
  shows "ops_inv (settle_outcome now c r s)"
  using finish_step_ops [OF assms] fail_step_ops [OF assms] postpone_ops [OF assms(2)]
  by (auto simp: settle_outcome_def split: outcome.splits)

lemma step_on_position:
  assumes "c \<in> set (claims now s)" "step_on a rnd now c s = Inr s'" "ops_inv s"
  obtains k r t where "c_kind c = kind_as_str k" "at_step (running c s) c (kind_steps k)" "ops_inv (running c s)"
    "c_name c = kind_steps k ! c_seq c" "run_step a rnd now c (running c s) = Inr (r, t)"
    "at_step t c (kind_steps k)" "ops_inv t" "s' = settle_outcome now c r t"
proof -
  obtain op k where op: "op \<in> set (operations s)" "o_id op = c_operation_id c" "active op" "c_kind c = kind_as_str k"
    "map (\<lambda>r. (s_seq r, s_name r)) (steps_of (steps s) (c_operation_id c)) = enumerate 0 (kind_steps k)"
    "c_seq c < length (kind_steps k)" "c_name c = kind_steps k ! c_seq c"
    "map s_status (steps_of (steps s) (c_operation_id c))
      = replicate (c_seq c) ''done'' @ replicate (length (kind_steps k) - c_seq c) ''pending''"
    by (rule claimed_position [OF assms(1,3)]) blast
  obtain r t where run: "run_step a rnd now c (running c s) = Inr (r, t)" "s' = settle_outcome now c r t"
    using step_on_Inr [OF assms(2) op(1-3)] by metis
  have at: "at_step (running c s) c (kind_steps k)"
    unfolding at_step_def running_cores using op(5,6,8) by (simp add: comp_def del: map_map) simp
  have "progress ''running'' (map s_status (steps_of (steps s) (c_operation_id c)))"
    unfolding op(8) progress_def using op(6) by (auto intro!: exI [of _ "c_seq c"])
  then have inv: "ops_inv (running c s)"
    using ops_ok_advance [of "steps s" "map op_core (operations s)" "next_seq s" "c_operation_id c" "steps s" "''running''"]
      assms(3) by (simp add: ops_inv_def running_cores del: map_map)
  have same: "same_ops (running c s) t" by (rule run_step_same_ops [OF run(1)])
  then have "at_step t c (kind_steps k)" "ops_inv t"
    using at inv by (simp_all add: same_ops_def at_step_def ops_inv_def del: map_map)
  then show ?thesis using that [OF op(4) at inv op(7) run(1)] run(2) by blast
qed

lemma step_on_ops:
  assumes "c \<in> set (claims now s)" "step_on a rnd now c s = Inr s'" "ops_inv s"
  shows "ops_inv s'"
  using assms by (elim step_on_position) (auto intro: settle_outcome_ops)

section \<open>The transactions, by what they do to operations\<close>

definition opened :: "store \<Rightarrow> string set" where
  "opened s = {d_id d |d. d \<in> set (databases s) \<and> d_access_open d}"

definition specs_ok :: "admin \<Rightarrow> store \<Rightarrow> bool" where
  "specs_ok a s \<longleftrightarrow> (\<forall>d \<in> set (databases s). spec_ok (is_cidr (admin_libs a)) (d_spec d))"

text \<open>A change that begins, advances and ends no operation, and opens no database.\<close>

definition begins :: "admin \<Rightarrow> store \<Rightarrow> store \<Rightarrow> bool" where
  "begins a s t \<longleftrightarrow> same_ops s t \<and> tasks t = tasks s \<and> opened t = opened s
    \<and> (refs_inv (scheduler a) s \<longrightarrow> refs_inv (scheduler a) t) \<and> (specs_ok a s \<longrightarrow> specs_ok a t)"

lemma opened_access: "opened s = fst ` {x \<in> set (map db_access (databases s)). snd x}"
  by (force simp: opened_def db_access_def)

lemma specs_ok_map: "specs_ok a s \<longleftrightarrow> list_all (spec_ok (is_cidr (admin_libs a))) (map d_spec (databases s))"
  by (auto simp: specs_ok_def list_all_iff)

lemma begins_refl [simp, intro]: "begins a s s"
  by (simp add: begins_def same_ops_def)

lemma begins_trans: "begins a s t \<Longrightarrow> begins a t u \<Longrightarrow> begins a s u"
  by (auto simp: begins_def same_ops_def)

text \<open>Most changes leave the keys and specifications as they are.\<close>

lemma begins_same:
  assumes "steps t = steps s" "operations t = operations s" "next_seq t = next_seq s" "tasks t = tasks s"
    "map db_access (databases t) = map db_access (databases s)" "map d_spec (databases t) = map d_spec (databases s)"
    "map node_key (nodes t) = map node_key (nodes s)" "map h_id (hosts t) = map h_id (hosts s)"
  shows "begins a s t"
proof -
  have "map d_id (databases t) = map d_id (databases s)" by (rule ids_of_access [OF assms(5)])
  then have "refs_inv (scheduler a) s \<longrightarrow> refs_inv (scheduler a) t"
    using assms(7,8) by (auto intro: refs_inv_same)
  moreover have "opened t = opened s" unfolding opened_access assms(5) ..
  moreover have "specs_ok a t = specs_ok a s" unfolding specs_ok_map assms(6) ..
  ultimately show ?thesis using assms(1-4) by (simp add: begins_def same_ops_def)
qed

lemma lock_Inr: "lock s i = Inr d \<Longrightarrow> d \<in> set (databases s) \<and> d_id d = i \<and> d_status d \<noteq> ''deleted''"
  by (auto simp: lock_def database_at_def dest!: filter_eq_ConsD split: list.splits if_splits)

lemma set_spec_begins:
  assumes "specs_ok a s \<Longrightarrow> spec_ok (is_cidr (admin_libs a)) spec"
  shows "begins a s (bump_hosts i (set_spec now i spec s))"
proof -
  have db: "map db_access (databases (set_spec now i spec s)) = map db_access (databases s)"
    by (simp add: set_spec_def db_access_def)
  then have ids: "map d_id (databases (set_spec now i spec s)) = map d_id (databases s)" by (rule ids_of_access)
  have "specs_ok a s \<longrightarrow> specs_ok a (bump_hosts i (set_spec now i spec s))"
    using assms by (auto simp: specs_ok_def set_spec_def set_update_where)
  moreover have "refs_inv (scheduler a) s \<longrightarrow> refs_inv (scheduler a) (bump_hosts i (set_spec now i spec s))"
    using ids by (auto intro!: refs_inv_same [of _ s]) (simp_all add: set_spec_def)
  moreover have "opened (bump_hosts i (set_spec now i spec s)) = opened s"
    unfolding opened_access by (simp add: db del: set_map)
  ultimately show ?thesis by (simp add: begins_def same_ops_def set_spec_def)
qed

text \<open>The handlers that record an operation.\<close>

definition begun :: "admin \<Rightarrow> store \<Rightarrow> store \<Rightarrow> bool" where
  "begun a s s' \<longleftrightarrow> (\<exists>t u rnd now i kind g params op.
    begins a s t \<and> create_with rnd now i kind g params t = Inr (op, u) \<and> begins a u s')"

lemma begunI: "create_with rnd now i kind g params t = Inr (op, s') \<Longrightarrow> begins a s t \<Longrightarrow> begun a s s'"
  unfolding begun_def by blast

lemma begun_then: "begun a s t \<Longrightarrow> begins a t u \<Longrightarrow> begun a s u"
  unfolding begun_def using begins_trans by blast

lemma begunI': "create_operation rnd now i kind g t = Inr (op, s') \<Longrightarrow> begins a s t \<Longrightarrow> begun a s s'"
  unfolding create_operation_def by (rule begunI)

lemma change_spec_as_begun:
  assumes "change_spec_as rnd now i kind params change s = Inr (op, s')"
    "\<And>d. lock s i = Inr d \<Longrightarrow> spec_ok (is_cidr (admin_libs a)) (d_spec d) \<Longrightarrow> replica_of (d_spec d) = None
      \<Longrightarrow> spec_ok (is_cidr (admin_libs a)) (change (d_spec d))"
  shows "begun a s s'"
proof -
  obtain d where d: "lock s i = Inr d" "replica_of (d_spec d) = None"
      "create_with rnd now i kind (d_generation d + 1) params (bump_hosts i (set_spec now i (change (d_spec d)) s)) = Inr (op, s')"
    using assms(1) by (auto simp: change_spec_as_def and_then_Inr not_a_replica_def split: if_splits)
  show ?thesis
    by (rule begunI [OF d(3) set_spec_begins])
      (use assms(2) [OF d(1) _ d(2)] lock_Inr [OF d(1)] in \<open>auto simp: specs_ok_def\<close>)
qed

lemma start_begun: "start rnd now i kind params s = Inr (op, s') \<Longrightarrow> begun a s s'"
  by (auto simp: start_def and_then_Inr split: if_splits intro: begunI)

lemma spec_ok_retention: "spec_ok p spec \<Longrightarrow> (\<And>d. days = Some d \<Longrightarrow> d \<noteq> 0) \<Longrightarrow> spec_ok p (with_retention days spec)"
  by (auto simp: spec_ok_def with_retention_def split: option.splits)

lemma resize_begun:
  assumes "resize a rnd now i new days s = Inr (op, s')" "\<And>d. days = Some d \<Longrightarrow> d \<noteq> 0"
  shows "begun a s s'"
proof -
  obtain d params where d: "lock s i = Inr d" "resources_positive new"
      "create_with rnd now i Resize (d_generation d + 1) params
        (bump_hosts i (set_spec now i (with_retention days ((d_spec d)\<lparr>spec_resources := new\<rparr>)) s)) = Inr (op, s')"
    using assms(1) by (auto simp: resize_def and_then_Inr Let_def neq_Nil_conv split: list.split_asm)
  show ?thesis
  proof (rule begunI [OF d(3) set_spec_begins])
    assume "specs_ok a s"
    then have "spec_ok (is_cidr (admin_libs a)) (d_spec d)" using lock_Inr [OF d(1)] by (simp add: specs_ok_def)
    then show "spec_ok (is_cidr (admin_libs a)) (with_retention days ((d_spec d)\<lparr>spec_resources := new\<rparr>))"
      using d(2) assms(2) by (intro spec_ok_retention) (auto simp: spec_ok_def)
  qed
qed

lemma update_begun: 
  assumes "update a rnd now i change s = Inr (op, s')"
  shows "begun a s s'"
proof -
  have days: "upd_retention_days change = Some d \<Longrightarrow> d \<noteq> 0" for d
    using assms by (auto simp: update_def and_then_Inr check_retention_Inr)
  obtain d where d: "lock s i = Inr d" using assms by (auto simp: update_def spec_of_def and_then_Inr)
  note run = assms [unfolded update_def spec_of_def d]
  consider (resources) new where "upd_resources change = Some new"
      "resize a rnd now i new (upd_retention_days change) s = Inr (op, s')"
    | (mode) mode where "check_replication_mode mode (ha (d_spec d)) = Inr ()"
      "change_spec_as rnd now i ReplicationMode (JObj [(''mode'', JStr mode)])
        (\<lambda>spec. with_retention (upd_retention_days change) (spec\<lparr>replication_mode := mode\<rparr>)) s = Inr (op, s')"
    | (days) n where "upd_retention_days change = Some n"
      "change_spec_as rnd now i Update (JObj []) (with_retention (Some n)) s = Inr (op, s')"
    using run by (auto simp: and_then_Inr change_spec_def split: option.splits if_splits)
  then show ?thesis
  proof cases
    case resources
    then show ?thesis using resize_begun days by blast
  next
    case mode
    then show ?thesis
      by (intro change_spec_as_begun [OF mode(2)] spec_ok_retention)
        (use d days in \<open>auto simp: spec_ok_def check_replication_mode_Inr\<close>)
  next
    case days_only: days
    then show ?thesis
      by (intro change_spec_as_begun [OF days_only(2)] spec_ok_retention) (use days in auto)
  qed
qed

lemma insert_database_begun:
  assumes "insert_database rnd now name ws spec kind s = Inr (op, s')"
    "specs_ok a s \<Longrightarrow> spec_ok (is_cidr (admin_libs a)) spec"
  shows "begun a s s'"
proof -
  let ?i = "rnd ''database id''"
  let ?t = "s\<lparr>databases := databases s @ [new_database now ?i name ws spec]\<rparr>"
  have new: "?i \<notin> set (map d_id (databases s))" "create_operation rnd now ?i kind 1 ?t = Inr (op, s')"
    using assms(1) by (auto simp: insert_database_def split: if_splits)
  have "begins a s ?t"
    using new(1) assms(2)
    by (auto simp: begins_def same_ops_def opened_def refs_inv_def refs_ok_def list_all_iff specs_ok_def new_database_def
        split: prod.splits)
  then show ?thesis using begunI' [OF new(2)] by blast
qed

lemma create_begun: "create a rnd now request s = Inr (op, s') \<Longrightarrow> begun a s s'"
  by (auto simp: create_def and_then_Inr dest: into_spec_Inr(1) intro!: insert_database_begun)

lemma upgrade_begun:
  assumes "upgrade rnd now i wanted s = Inr (op, s')"
  shows "begun a s s'"
proof -
  obtain params where "start rnd now i Upgrade params s = Inr (op, s')"
    using assms unfolding upgrade_def Let_def by (auto simp: and_then_Inr neq_Nil_conv split: if_split_asm list.split_asm)
  then show ?thesis by (rule start_begun)
qed

lemma generation_begins:
  "begins a s (s\<lparr>databases := update_where p (\<lambda>d. d\<lparr>d_generation := d_generation d + 1, d_updated_at := now\<rparr>) (databases s)\<rparr>)"
  by (rule begins_same) (simp_all add: db_access_def)

lemma bump_host_begins: "begins a s (bump_host h s)" "begins a s (bump_hosts i s)"
  by (rule begins_same; simp)+

lemma add_log_begins: "begins a s (add_log now i src m s)"
  by (rule begins_same) simp_all

lemma add_node_begins:
  assumes "add_node a rnd i node h address boot authority s = Inr (port, s')"
    "i \<in> set (map d_id (databases s))" "h \<in> set (map h_id (hosts s))"
  shows "begins a s s'"
  using add_node_benign [OF assms] add_node_quiet [OF assms(1)]
  by (simp add: begins_def benign_def quiet_def same_ops_def opened_def specs_ok_def)

lemma start_replacement_begun:
  assumes "start_replacement a rnd now i node wanted s = Inr (op, s')"
  shows "begun a s s'"
proof -
  obtain d target address authority new port t params where d: "lock s i = Inr d"
    and target: "find (\<lambda>h. (load_id h = wanted \<or> load_name h = wanted) \<and> online h) (host_loads now s) = Some target"
    and add: "add_node a rnd i new (load_id target) address ''seed'' authority s = Inr (Some port, t)"
    and op: "create_with rnd now i Replace (d_generation d + 1) params (bump_hosts i (t\<lparr>databases :=
      update_where (\<lambda>d. d_id d = i) (\<lambda>d. d\<lparr>d_generation := d_generation d + 1, d_updated_at := now\<rparr>) (databases t)\<rparr>))
      = Inr (op, s')"
    using assms by (auto simp: start_replacement_def Let_def and_then_Inr split: option.split_asm prod.splits)
  have "target \<in> set (host_loads now s)" using target by (auto simp: find_Some_iff)
  then have "load_id target \<in> set (map h_id (hosts s))" unfolding host_loads_ids [symmetric, of _ now] by simp
  moreover have "i \<in> set (map d_id (databases s))" using lock_Inr [OF d] by auto
  ultimately have "begins a s t" by (intro add_node_begins [OF add])
  then show ?thesis
    by (intro begunI [OF op] begins_trans [OF _ bump_host_begins(2)] begins_trans [OF _ generation_begins])
qed

lemma move_node_begun:
  assumes "move_node a rnd now i node from_host s = Inr s'"
  shows "begins a s s' \<or> begun a s s'"
proof -
  have host: "begins a t (t\<lparr>hosts := update_where p (\<lambda>h. h\<lparr>h_drain_error := e\<rparr>) (hosts t)\<rparr>)" for t p e
    by (rule begins_same) simp_all
  then have blocked: "begins a s (blocked from_host m s)" for m by (simp add: blocked_def)
  have moved: "begun a s ((add_log now (o_id op) ''drain'' m t)\<lparr>hosts := update_where p (\<lambda>h. h\<lparr>h_drain_error := None\<rparr>) (hosts t)\<rparr>)"
    if "start_replacement a rnd now i node w s = Inr (op, t)" for w op t m p
    using begun_then [OF start_replacement_begun [OF that] begins_trans [OF add_log_begins host]] by simp
  obtain d where d: "fetch_one (database_at s i) = Inr d" using assms by (auto simp: move_node_def and_then_Inr)
  show ?thesis
  proof (cases "place (scheduler a) (move_candidates now i node from_host s) 1 (spec_resources (d_spec d))")
    case (Placed chosen)
    obtain target where "fetch_one chosen = Inr target"
      using assms d Placed by (auto simp: move_node_def and_then_Inr)
    then show ?thesis
      using assms d Placed blocked moved
      by (cases "start_replacement a rnd now i node (load_id target) s") (auto simp: move_node_def)
  qed (use assms d blocked in \<open>auto simp: move_node_def\<close>)
qed

lemma renew_certificate_begun:
  assumes "renew_certificate a rnd now i node s = Inr s'"
  shows "begins a s s' \<or> begun a s s'"
proof -
  have reissued: "begins a s t" if "reissue a rnd i node address authority s = Inr t" for t address authority
    using that by (auto simp: reissue_def and_then_Inr node_key_def intro!: begins_same)
  have renewed: "begun a s (add_log now (o_id op) src m u)"
    if "reissue a rnd i node address authority s = Inr t"
      "create_operation rnd now i Update g (bump_host h (t\<lparr>databases :=
        update_where p (\<lambda>d. d\<lparr>d_generation := d_generation d + 1, d_updated_at := now\<rparr>) (databases t)\<rparr>)) = Inr (op, u)"
    for address authority t op u g h p m src
    by (rule begun_then [OF begunI' [OF that(2)] add_log_begins])
      (intro begins_trans [OF _ bump_host_begins(1)] begins_trans [OF _ generation_begins] reissued [OF that(1)])
  show ?thesis
    using assms renewed
    by (auto simp: renew_certificate_def Let_def and_then_Inr
        split: list.split_asm option.split_asm if_split_asm prod.splits)
qed

lemma create_replica_begun:
  assumes "create_replica a rnd now i name host s = Inr (op, s')"
  shows "begun a s s'"
proof -
  obtain d n where d: "lock s i = Inr d"
    and ins: "insert_database rnd now name (d_workspace d) ((d_spec d)
      \<lparr>data_name := Some (case data_name (d_spec d) of Some x \<Rightarrow> x | None \<Rightarrow> d_name d), ha := False,
       replication_mode := ''async'', spec_hosts := (case host of Some h \<Rightarrow> [h] | None \<Rightarrow> []), restore := None,
       replica_of := Some \<lparr>source_database_id = i, source_node_id = n\<rparr>\<rparr>) CreateReplica s = Inr (op, s')"
    using assms by (auto simp: create_replica_def Let_def and_then_Inr)
  show ?thesis
  proof (rule insert_database_begun [OF ins])
    assume "specs_ok a s"
    then have "spec_ok (is_cidr (admin_libs a)) (d_spec d)" using lock_Inr [OF d] by (simp add: specs_ok_def)
    then show "spec_ok (is_cidr (admin_libs a)) ((d_spec d)
      \<lparr>data_name := Some (case data_name (d_spec d) of Some x \<Rightarrow> x | None \<Rightarrow> d_name d), ha := False,
       replication_mode := ''async'', spec_hosts := (case host of Some h \<Rightarrow> [h] | None \<Rightarrow> []), restore := None,
       replica_of := Some \<lparr>source_database_id = i, source_node_id = n\<rparr>\<rparr>)"
      by (auto simp: spec_ok_def REPLICATION_MODES_def split: option.splits)
  qed
qed

lemma promote_replica_begun: "promote_replica rnd now i replica s = Inr (op, s') \<Longrightarrow> begun a s s'"
  by (auto simp: promote_replica_def and_then_Inr db_access_def intro!: begunI' begins_same)

lemma backup_now_begun: "backup_now rnd now i s = Inr (op, s') \<Longrightarrow> begun a s s'"
  by (auto simp: backup_now_def Let_def and_then_Inr intro!: begunI)

lemma restore_begun:
  assumes "restore_database rnd now display rfc3339 i name target wanted s = Inr (op, s')"
  shows "begun a s s'"
proof -
  obtain d src where d: "lock s i = Inr d" "check_hosts wanted (ha (d_spec d)) = Inr ()"
    and ins: "insert_database rnd now name None ((d_spec d)\<lparr>spec_hosts := wanted, replica_of := None, data_name := None,
      restore := Some src\<rparr>) Create s = Inr (op, s')"
    using assms by (auto simp: restore_database_def spec_of_def and_then_Inr split: if_splits)
  show ?thesis
    by (rule insert_database_begun [OF ins])
      (use lock_Inr [OF d(1)] d(2) in \<open>auto simp: specs_ok_def spec_ok_def check_hosts_Inr\<close>)
qed

lemma put_begun:
  "set_owner_password rnd now i verifier s = Inr (op, s') \<Longrightarrow> begun a s s'"
  "put_allowlist a rnd now i cidrs s = Inr (op, s') \<Longrightarrow> begun a s s'"
  "put_extensions rnd now i exts s = Inr (op, s') \<Longrightarrow> begun a s s'"
  by (auto simp: set_owner_password_def put_allowlist_def put_extensions_def change_spec_def and_then_Inr
      check_verifier_Inr check_cidrs_Inr check_extensions_Inr spec_ok_def owner_ok_def elim!: change_spec_as_begun)

lemma put_certificate_begun: "put_certificate a rnd now i cert key s = Inr (op, s') \<Longrightarrow> begun a s s'"
  by (auto simp: put_certificate_def and_then_Inr
      intro!: begunI' begins_trans [OF begins_same bump_host_begins(2)])
    (simp_all add: db_access_def)

text \<open>The transactions that record no operation.\<close>

lemma flag_nodes_begins:
  assumes "\<And>n. node_key (f n) = node_key n"
  shows "begins a s (flag_nodes now kind p f s)"
  by (rule begins_same) (simp_all add: flag_nodes_def Let_def assms)

lemma track_nodes_begins: "begins a s (track_nodes now s)"
  unfolding track_nodes_def
  by (intro begins_trans [OF begins_trans [OF flag_nodes_begins flag_nodes_begins] flag_nodes_begins])
    (simp_all add: node_key_def)

lemma sweep_begins: "begins a s (sweep now s)"
  unfolding sweep_def Let_def
  by (rule begins_trans [OF track_nodes_begins begins_same])
    (simp_all add: db_access_def comp_def if_distrib cong: if_cong)

lemma mark_drained_begins: "begins a s (mark_drained now s)"
  by (rule begins_same) (simp_all add: mark_drained_def Let_def)

lemma observe_key [simp]: "node_key (observe r n) = node_key n"
  by (simp add: observe_def node_key_def split: option.splits)

lemma report_begins: "report now h rep s = Inr s' \<Longrightarrow> begins a s s'"
  by (auto simp: report_def and_then_Inr intro!: begins_same)

lemma record_repository_begins:
  assumes "record_repository a rnd now repo s = Inr (r, s')"
  shows "begins a s s'"
proof -
  let ?hosts = "sort_desc_by (\<lambda>h. case h_last_seen_at h of Some t \<Rightarrow> t | None \<Rightarrow> 0) (filter (seen_lately now) (hosts s))"
  obtain h row where "s' = bump_host h (s\<lparr>repositories := repositories s @ [row]\<rparr>)"
    using assms by (cases ?hosts) (auto simp: record_repository_def Let_def and_then_Inr split: if_split_asm)
  then show ?thesis by (auto intro!: begins_same)
qed

lemma repository_changes_begin:
  "look_at_check i late s = (x, s') \<Longrightarrow> begins a s s'"
  "delete_repository i s = Inr (u, s') \<Longrightarrow> begins a s s'"
  "begins a s (repository_check h i err s)"
  by (auto simp: look_at_check_def delete_repository_def repository_check_def remove_repository_def
      Let_def split: option.split_asm if_split_asm intro!: begins_same)

lemma host_changes_begin:
  "drain now i s = Inr (u, s') \<Longrightarrow> begins a s s'"
  "undrain i s = Inr (u, s') \<Longrightarrow> begins a s s'"
  "enroll sign fingerprint now hash csr s = Inr (r, s') \<Longrightarrow> begins a s s'"
  "rotate_certificate sign fingerprint i csr s = Inr (c, s') \<Longrightarrow> begins a s s'"
  "append_log now h op_id chars s = Inr s' \<Longrightarrow> begins a s s'"
  by (auto simp: drain_def undrain_def enroll_def rotate_certificate_def append_log_def Let_def and_then_Inr
      split: list.split_asm option.split_asm if_split_asm intro!: begins_same)

lemma refs_ok_more_hosts: "refs_ok cfg ks hs ds \<Longrightarrow> h \<notin> set hs \<Longrightarrow> refs_ok cfg ks (hs @ [h]) ds"
  by (fastforce simp: refs_ok_def list_all_iff split: prod.splits)

lemma create_host_begins:
  assumes "create_host token_hash rnd now name fd s = Inr (r, s')"
  shows "begins a s s'"
proof -
  obtain ks where s': "s' = s\<lparr>hosts := hosts s @ [new_host (rnd ''host id'') name fd], tokens := ks\<rparr>"
      "h_id (new_host (rnd ''host id'') name fd) \<notin> set (map h_id (hosts s))"
    using assms by (force simp: create_host_def Let_def and_then_Inr list_ex_iff new_host_def split: if_splits)
  have "refs_inv (scheduler a) s'" if "refs_inv (scheduler a) s"
    using refs_ok_more_hosts [OF that [unfolded refs_inv_def] s'(2)] by (simp add: refs_inv_def s'(1))
  then show ?thesis by (simp add: s'(1) begins_def same_ops_def opened_def specs_ok_def)
qed

lemma delete_host_begins:
  assumes "delete_host i s = Inr (u, s')"
  shows "begins a s s'"
proof -
  have unused: "n \<in> set (nodes s) \<Longrightarrow> n_host_id n \<noteq> i" for n
    using assms by (auto simp: delete_host_def Let_def filter_empty_conv split: if_splits)
  have s': "hosts s' = filter (\<lambda>h. h_id h \<noteq> i) (hosts s)" "nodes s' = nodes s" "databases s' = databases s"
    "steps s' = steps s" "operations s' = operations s" "tasks s' = tasks s" "next_seq s' = next_seq s"
    using assms by (auto simp: delete_host_def Let_def delete_where_def split: if_splits)
  have "refs_inv (scheduler a) s'" if "refs_inv (scheduler a) s"
    using that unused unfolding refs_inv_def refs_ok_def s'
    by (auto simp: list_all_iff node_key_def distinct_map_filter)
  then show ?thesis using s' by (simp add: begins_def same_ops_def opened_def specs_ok_def)
qed

lemma record_backups_frame:
  "record_backups now i known bs s = Inr s' \<Longrightarrow>
    databases s' = databases s \<and> nodes s' = nodes s \<and> hosts s' = hosts s \<and> operations s' = operations s
    \<and> steps s' = steps s \<and> tasks s' = tasks s \<and> next_seq s' = next_seq s"
  by (induction now i known bs s rule: record_backups.induct) (auto split: if_splits)

lemma report_events_frame [simp]:
  "databases (report_events now r b s) = databases s" "nodes (report_events now r b s) = nodes s"
  "hosts (report_events now r b s) = hosts s" "operations (report_events now r b s) = operations s"
  "steps (report_events now r b s) = steps s" "tasks (report_events now r b s) = tasks s"
  "next_seq (report_events now r b s) = next_seq s"
  by (simp_all add: report_events_def Let_def split: option.splits)

lemma cluster_report_begins:
  assumes "apply_cluster_report now h r s = Inr s'"
  shows "begins a s s'"
proof -
  obtain known before u where
    u: "record_backups now (cr_database_id r) known (cr_backups r) (report_events now r before s) = Inr u"
    and s': "s' = u\<lparr>backups := delete_where (\<lambda>b. b_database_id b = cr_database_id r
        \<and> b_id b \<notin> set (map br_id (cr_backups r))) (backups u),
      databases := update_where (\<lambda>d. d_id d = cr_database_id r) (\<lambda>d. d\<lparr>d_observed := observed_of r before\<rparr>) (databases u)\<rparr>"
    using assms by (auto simp: apply_cluster_report_def Let_def and_then_Inr split: if_splits)
  show ?thesis
    by (rule begins_same) (use record_backups_frame [OF u] s' in \<open>simp_all add: db_access_def\<close>)
qed

lemma load_bootstrap_host_begins:
  assumes "load_bootstrap_host rnd now bh s = Inr s'"
  shows "begins a s s'"
proof -
  let ?new = "s\<lparr>hosts := hosts s @ [new_host (rnd ''host id'') (bh_name bh) (bh_failure_domain bh)]\<rparr>"
  obtain t where t: "(if list_ex (\<lambda>h. h_name h = bh_name bh) (hosts s) then Inr s
        else if list_ex (\<lambda>h. h_id h = rnd ''host id'') (hosts s) then Inl ''duplicate key'' else Inr ?new) = Inr t"
    and s': "s' = t \<or> (\<exists>ks. s' = t\<lparr>tokens := ks\<rparr>)"
    using assms unfolding load_bootstrap_host_def Let_def and_then_Inr by (auto split: if_split_asm)
  have "begins a s t"
  proof (cases "t = s")
    case False
    then have new: "t = ?new" "h_id (new_host (rnd ''host id'') (bh_name bh) (bh_failure_domain bh)) \<notin> set (map h_id (hosts s))"
      using t by (auto simp: list_ex_iff new_host_def split: if_split_asm)
    have "refs_inv (scheduler a) t" if "refs_inv (scheduler a) s"
      using refs_ok_more_hosts [OF that [unfolded refs_inv_def] new(2)] by (simp add: refs_inv_def new(1))
    then show ?thesis by (simp add: new(1) begins_def same_ops_def opened_def specs_ok_def)
  qed simp
  moreover have "begins a t s'" using s' by (auto intro!: begins_same)
  ultimately show ?thesis by (rule begins_trans)
qed

lemma reseal_rows:
  assumes "reseal_all a rnd s = Inr (k, s')"
  shows "map db_access (databases s') = map db_access (databases s)" "map d_spec (databases s') = map d_spec (databases s)"
    "map node_key (nodes s') = map node_key (nodes s)"
proof -
  have keep: "collect_results (map f xs) = Inr ys \<Longrightarrow> (\<And>x y. f x = Inr y \<Longrightarrow> g y = g x) \<Longrightarrow> map g ys = map g xs"
    for f :: "'r \<Rightarrow> string + 'r" and g :: "'r \<Rightarrow> 'k" and xs ys
    by (induction xs arbitrary: ys) (auto simp: and_then_Inr)
  obtain ds ns where "collect_results (map (reseal_database a rnd) (databases s)) = Inr ds" "databases s' = ds"
      "collect_results (map (reseal_node a rnd) (nodes s)) = Inr ns" "nodes s' = ns"
    using assms by (auto simp: reseal_all_def and_then_Inr)
  then show "map db_access (databases s') = map db_access (databases s)" "map d_spec (databases s') = map d_spec (databases s)"
    "map node_key (nodes s') = map node_key (nodes s)"
    by (auto intro!: keep simp: reseal_database_def reseal_node_def db_access_def node_key_def and_then_Inr split: option.splits)
qed

lemma rotation_begins:
  "start_rotation a rnd s v = (st, s', v') \<Longrightarrow> begins a s s'"
  "advance_rotation a rnd s v = (r, s', v') \<Longrightarrow> begins a s s'"
  by (auto simp: start_rotation_def advance_rotation_def bump_all_hosts_def Let_def
      split: sum.split_asm prod.split_asm option.split_asm if_split_asm intro!: begins_same)

lemma reseal_begins:
  assumes "reseal_all a rnd s = Inr (k, s')"
  shows "begins a s s'"
proof (rule begins_same)
  show "steps s' = steps s" "operations s' = operations s" "next_seq s' = next_seq s" "tasks s' = tasks s"
    "map h_id (hosts s') = map h_id (hosts s)"
    using assms by (auto simp: reseal_all_def and_then_Inr)
qed (use reseal_rows [OF assms] in simp_all)

end
