(* ===== verification/Admin_Demo.thy ===== *)
theory Admin_Demo
  imports Control_Plane "HOL-Library.Code_Target_Nat"
begin

text \<open>
  A run of the control plane on a concrete instance of the libraries it calls: a
  host is created, enrols and reports, a repository is recorded and verified, a
  one-node database is created, placed, backed up and opened to clients. The witnesses of the
  theorems about reachable stores are taken at its end.
\<close>

section \<open>Libraries\<close>

definition demo_secrets :: database_secrets where
  "demo_secrets =
    \<lparr>ca_cert_pem = ''ca'', ca_key_pem = ''key'', superuser_password = ''s'', replication_password = ''r'',
     auth_password = ''a'', api_key = ''k'', backup_key = ''b'', source_backup_key = None,
     previous_ca_cert_pem = None, next_pw = None, proxy_cert = None\<rparr>"

definition demo_libs :: libs where
  "demo_libs =
    \<lparr>lib_encrypt = (\<lambda>k n p c. Some (k @ p)),
     lib_decrypt = (\<lambda>k n b c. strip_prefix k b),
     database_to_vec = (\<lambda>v. ca_cert_pem v), database_from_slice = (\<lambda>b. Some (demo_secrets\<lparr>ca_cert_pem := b\<rparr>)),
     node_to_vec = (\<lambda>v. cert_pem v), node_from_slice = (\<lambda>b. Some \<lparr>cert_pem = b, key_pem = b\<rparr>),
     credentials_to_vec = (\<lambda>v. []), credentials_from_slice = (\<lambda>b. None),
     string_to_vec = (\<lambda>s. s), string_from_slice = Some, lib_sha256_hex = (\<lambda>s. s),
     ca_generate = (\<lambda>name r. Inr \<lparr>ca_cert = filter (\<lambda>c. c \<noteq> CHR 0x0A) name, ca_key = ''key''\<rparr>),
     ca_from_pem = (\<lambda>cert key. Inr \<lparr>ca_cert = cert, ca_key = key\<rparr>),
     ca_issue_node = (\<lambda>ca names r. Inr \<lparr>issued_cert_pem = CHR ''n'' # ca_cert ca, issued_key_pem = ''key'', issued_not_after = 0\<rparr>),
     ca_issue_server = (\<lambda>ca names r. Inr \<lparr>issued_cert_pem = CHR ''s'' # ca_cert ca, issued_key_pem = ''key'', issued_not_after = 0\<rparr>),
     ca_store = (\<lambda>ca. Inr ()), value_to_vec = Some, tls_agent = (\<lambda>cas cert. Inr ()), tls_server = (\<lambda>cert. Inr ()),
     lib_base64 = (\<lambda>b. b), is_cidr = (\<lambda>s. s \<noteq> []), check_certificate = (\<lambda>cert key. Inr ())\<rparr>"

definition demo_admin :: admin where
  "demo_admin = \<lparr>admin_libs = demo_libs, secrets = \<lparr>cipher = ''new'', previous_cipher = Some ''old''\<rparr>,
    scheduler = default_scheduler_config\<lparr>port_base_end := 20010\<rparr>\<rparr>"

definition demo_rnd :: random where
  "demo_rnd what = what @ replicate 32 CHR ''0''"

section \<open>A run\<close>

definition demo_host :: string where
  "demo_host = demo_rnd ''host id''"

definition demo_report :: host_report where
  "demo_report =
    \<lparr>hr_observed_generation = 1, hr_version = ''1.0'', hr_address = ''10.0.0.1'',
     hr_capacity = \<lparr>vcpu = 8, memory_gb = 32, storage_gb = 500\<rparr>, hr_instances = [],
     hr_ca_fingerprint = Some ''ca'', hr_postgres_versions = []\<rparr>"

definition demo_repository :: create_repository where
  "demo_repository =
    \<lparr>repo_name = ''main'', repo_kind = ''posix'', repo_path = Some ''/backups'', repo_bucket = None, repo_prefix = None,
     repo_region = None, repo_endpoint = None, repo_path_style = False, repo_access_key_id = None, repo_secret_access_key = None\<rparr>"

definition demo_request :: create_database where
  "demo_request =
    \<lparr>req_name = ''shop'', req_workspace = None, req_version = hd POSTGRES_VERSIONS, req_ha = False, req_hosts = [],
     req_resources = \<lparr>vcpu = 2, memory_gb = 4, storage_gb = 50\<rparr>, req_replication_mode = None,
     req_owner = \<lparr>username = ''shop'', scram_verifier = ''SCRAM-SHA-256$4096:salt$stored:server''\<rparr>,
     req_allowed_cidrs = [''10.0.0.0/8''], req_extensions = [],
     req_backup = \<lparr>repository_id = demo_rnd ''repository id'', retention_days = 7\<rparr>\<rparr>"

definition demo_running :: host_report where
  "demo_running = demo_report\<lparr>hr_instances := [\<lparr>ir_database_id = demo_rnd ''database id'', ir_node = ''n1'', ir_observed_generation = 9,
    ir_state = ''running'', ir_error = None, ir_archived_until = None, ir_server_version = None\<rparr>]\<rparr>"

text \<open>
  The steps of the reconciler are \<open>place\<close>, \<open>wait_applied\<close>, \<open>first_backup\<close> (which hands out
  a task), \<open>first_backup\<close> again (which finds the answer) and \<open>open_access\<close>.
\<close>

definition demo_run :: "string + store" where
  "demo_run =
    and_then (map_err message (create_host (\<lambda>x. x) demo_rnd 0 ''h1'' None empty_store)) (\<lambda>(_, s).
    and_then (map_err message (enroll (\<lambda>csr h. Inr csr) ''ca'' 1 (random_token demo_rnd ''enrollment'') ''csr'' s)) (\<lambda>(_, s).
    and_then (map_err message (report 2 demo_host demo_report s)) (\<lambda>s.
    and_then (map_err message (record_repository demo_admin demo_rnd 3 demo_repository s)) (\<lambda>(_, s).
    and_then (Inr (repository_check demo_host (demo_rnd ''repository id'') None s)) (\<lambda>s.
    and_then (map_err message (create demo_admin demo_rnd 4 demo_request s)) (\<lambda>(_, s).
    and_then (step_once demo_admin demo_rnd 5 s) (\<lambda>(_, s).
    and_then (map_err message (report 6 demo_host demo_running s)) (\<lambda>s.
    and_then (step_once demo_admin demo_rnd 7 s) (\<lambda>(_, s).
    and_then (step_once demo_admin demo_rnd 8 s) (\<lambda>(_, s).
    and_then (map_err message (task_result 9 demo_host (demo_rnd ''task id'') True None JNull s)) (\<lambda>s.
    and_then (step_once demo_admin demo_rnd (secs 2) s) (\<lambda>(_, s).
    and_then (step_once demo_admin demo_rnd (secs 3) s) (\<lambda>(_, s).
    Inr s)))))))))))))"

lemma step_once_reach:
  assumes "cp_reach a s" "step_once a rnd now s = Inr (b, s')"
  shows "cp_reach a s'"
proof (cases "claims now s")
  case Nil
  then show ?thesis using assms by (simp add: step_once_def)
next
  case (Cons c cs)
  then have "step_on a rnd now c s = Inr s'" using assms(2) by (auto simp: step_once_def and_then_Inr)
  then show ?thesis by (rule more_steps [OF assms(1) reconcile, rotated]) (simp add: Cons)
qed

definition reaches :: "admin \<Rightarrow> string + store \<Rightarrow> bool" where
  "reaches a x \<longleftrightarrow> (\<forall>s. x = Inr s \<longrightarrow> cp_reach a s)"

lemma reaches_store:
  assumes "cp_reach a s" "\<And>s'. x = Inr s' \<Longrightarrow> cp_step a s s'" "\<And>s'. cp_reach a s' \<Longrightarrow> reaches a (f s')"
  shows "reaches a (and_then (map_err g x) f)"
proof (cases x)
  case (Inr s')
  then show ?thesis using assms(3) [OF more_steps [OF assms(1) assms(2)]] by simp
qed (simp add: reaches_def)

lemma reaches_pair:
  assumes "cp_reach a s" "\<And>r s'. x = Inr (r, s') \<Longrightarrow> cp_step a s s'" "\<And>s'. cp_reach a s' \<Longrightarrow> reaches a (f s')"
  shows "reaches a (and_then (map_err g x) (\<lambda>(_, s). f s))"
proof (cases x)
  case (Inr p)
  then show ?thesis using assms(3) [OF more_steps [OF assms(1) assms(2)]] by (cases p) simp
qed (simp add: reaches_def)

lemma reaches_next:
  assumes "cp_reach a s" "cp_step a s s'" "\<And>s'. cp_reach a s' \<Longrightarrow> reaches a (f s')"
  shows "reaches a (and_then (Inr s') f)"
  using assms(3) [OF more_steps [OF assms(1,2)]] by simp

lemma reaches_step:
  assumes "cp_reach a s" "\<And>s'. cp_reach a s' \<Longrightarrow> reaches a (f s')"
  shows "reaches a (and_then (step_once a rnd now s) (\<lambda>(_, s). f s))"
proof (cases "step_once a rnd now s")
  case (Inr p)
  then show ?thesis using assms(2) [OF step_once_reach [OF assms(1)]] by (cases p) simp
qed (simp add: reaches_def)

lemma demo_run_reach: "reaches demo_admin demo_run"
  unfolding demo_run_def
  apply (rule reaches_pair [OF init], erule creates_host)
  apply (rule reaches_pair, assumption, erule enrolls)
  apply (rule reaches_store, assumption, erule reports)
  apply (rule reaches_pair, assumption, erule records_repository)
  apply (rule reaches_next, assumption, rule checks)
  apply (rule reaches_pair, assumption, erule creates)
  apply (rule reaches_step, assumption)
  apply (rule reaches_store, assumption, erule reports)
  apply (rule reaches_step, assumption)+
  apply (rule reaches_store, assumption, erule answers)
  apply (rule reaches_step, assumption)+
  apply (simp add: reaches_def)
  done

text \<open>What the witnesses use of the store at its end.\<close>

definition demo_facts :: "store \<Rightarrow> bool" where
  "demo_facts s \<longleftrightarrow>
    list_ex (\<lambda>t. t_status t \<noteq> ''pending'') (tasks s) \<and> operations s \<noteq> [] \<and> nodes s \<noteq> [] \<and> databases s \<noteq> []
    \<and> (case build_desired_state demo_admin demo_host s of
          Inr ds \<Rightarrow> list_ex (\<lambda>i. i_allowed_cidrs i \<noteq> []) (desired_instances ds)
        | Inl e \<Rightarrow> False)"

lemma demo_evaluated: "(case demo_run of Inr s \<Rightarrow> demo_facts s | Inl e \<Rightarrow> False)"
  by code_simp

lemma demo_store:
  obtains s where "cp_reach demo_admin s" "demo_facts s"
proof (cases demo_run)
  case (Inl e)
  have False using demo_evaluated unfolding Inl sum.case .
  then show ?thesis ..
next
  case (Inr s)
  have "demo_facts s" using demo_evaluated unfolding Inr sum.case .
  moreover have "cp_reach demo_admin s" using demo_run_reach Inr by (simp add: reaches_def)
  ultimately show ?thesis using that by blast
qed

end
