(* ===== verification/Control_Safety.thy ===== *)
theory Control_Safety
  imports Admin_Demo
begin

text \<open>
  What holds in every store the control plane can reach. Every transaction of
  \<open>Control_Plane\<close> is one of five kinds; each invariant is proved once for each kind.
\<close>

section \<open>The kinds of transactions\<close>

lemma cp_step_kinds:
  assumes "cp_step a s s'"
  obtains (begins) "begins a s s'"
    | (begun) "begun a s s'"
    | (step) c now rnd where "c \<in> set (claims now s)" "step_on a rnd now c s = Inr s'"
    | (delete) rnd now i op where "delete rnd now i s = Inr (op, s')"
    | (answer) now h task success err out where "task_result now h task success err out s = Inr s'"
  using assms
proof cases
  case (moves rnd now i node from_host)
  from move_node_begun [OF this] show ?thesis by (rule disjE) (erule that)+
next
  case (renews rnd now i node)
  from renew_certificate_begun [OF this] show ?thesis by (rule disjE) (erule that)+
next
  case (deletes_replica rnd now i replica op)
  then have "delete rnd now replica s = Inr (op, s')" by (auto simp: delete_replica_def and_then_Inr)
  then show ?thesis by (rule that(4))
next
  case (switches rnd now i target op)
  then have "start rnd now i Switchover (JObj [(''target'', jopt target)]) s = Inr (op, s')"
    by (auto simp: switchover_def and_then_Inr split: if_splits)
  then show ?thesis by (rule that(2) [OF start_begun])
next
  case creates then show ?thesis by (rule that(2) [OF create_begun])
next
  case updates then show ?thesis by (rule that(2) [OF update_begun])
next
  case upgrades then show ?thesis by (rule that(2) [OF upgrade_begun])
next
  case replaces then show ?thesis by (rule that(2) [OF start_replacement_begun])
next
  case sets_password then show ?thesis by (rule that(2) [OF put_begun(1)])
next
  case sets_allowlist then show ?thesis by (rule that(2) [OF put_begun(2)])
next
  case sets_extensions then show ?thesis by (rule that(2) [OF put_begun(3)])
next
  case sets_certificate then show ?thesis by (rule that(2) [OF put_certificate_begun])
next
  case creates_replica then show ?thesis by (rule that(2) [OF create_replica_begun])
next
  case promotes_replica then show ?thesis by (rule that(2) [OF promote_replica_begun])
next
  case backs_up then show ?thesis by (rule that(2) [OF backup_now_begun])
next
  case restores then show ?thesis by (rule that(2) [OF restore_begun])
next
  case restarts then show ?thesis unfolding restart_def by (rule that(2) [OF start_begun])
next
  case rotates_ca then show ?thesis unfolding rotate_ca_def by (rule that(2) [OF start_begun])
next
  case rotates_passwords then show ?thesis unfolding rotate_passwords_def by (rule that(2) [OF start_begun])
next
  case records_repository then show ?thesis by (rule that(1) [OF record_repository_begins])
next
  case looks_at_check then show ?thesis by (rule that(1) [OF repository_changes_begin(1)])
next
  case deletes_repository then show ?thesis by (rule that(1) [OF repository_changes_begin(2)])
next
  case creates_host then show ?thesis by (rule that(1) [OF create_host_begins])
next
  case deletes_host then show ?thesis by (rule that(1) [OF delete_host_begins])
next
  case drains then show ?thesis by (rule that(1) [OF host_changes_begin(1)])
next
  case undrains then show ?thesis by (rule that(1) [OF host_changes_begin(2)])
next
  case enrolls then show ?thesis by (rule that(1) [OF host_changes_begin(3)])
next
  case rotates_certificate then show ?thesis by (rule that(1) [OF host_changes_begin(4)])
next
  case logs_lines then show ?thesis by (rule that(1) [OF host_changes_begin(5)])
next
  case reports then show ?thesis by (rule that(1) [OF report_begins])
next
  case cluster_reports then show ?thesis by (rule that(1) [OF cluster_report_begins])
next
  case loads_host then show ?thesis by (rule that(1) [OF load_bootstrap_host_begins])
next
  case starts_rotation then show ?thesis by (rule that(1) [OF rotation_begins(1)])
next
  case advances_rotation then show ?thesis by (rule that(1) [OF rotation_begins(2)])
next
  case reseals then show ?thesis by (rule that(1) [OF reseal_begins])
next
  case sweeps then show ?thesis using that(1) sweep_begins by simp
next
  case drained then show ?thesis using that(1) mark_drained_begins by simp
next
  case checks then show ?thesis using that(1) repository_changes_begin(3) by simp
next
  case reconcile then show ?thesis by (rule that(3))
next
  case deletes then show ?thesis by (rule that(4))
next
  case answers then show ?thesis by (rule that(5))
qed

section \<open>Operations advance step by step\<close>

lemma begins_ops: "begins a s s' \<Longrightarrow> ops_inv s \<Longrightarrow> ops_inv s'"
  by (simp add: begins_def same_ops_def ops_inv_def)

lemma begunE:
  assumes "begun a s s'"
  obtains t u rnd now i kind g params op where "begins a s t" "create_with rnd now i kind g params t = Inr (op, u)"
    "begins a u s'"
  using assms unfolding begun_def by (elim exE conjE)

lemma begun_ops: "begun a s s' \<Longrightarrow> ops_inv s \<Longrightarrow> ops_inv s'"
  by (elim begunE) (rule begins_ops, assumption, rule create_with_ops, assumption, rule begins_ops)

text \<open>A delete ends every operation of its database that is due.\<close>

definition superseded :: "time \<Rightarrow> string \<Rightarrow> store \<Rightarrow> store" where
  "superseded now i s =
    s\<lparr>operations := update_where (\<lambda>op. o_database_id op = i \<and> active op)
        (\<lambda>op. op\<lparr>o_status := ''failed'', o_error := Some ''superseded by delete'', o_finished_at := Some now\<rparr>)
        (operations s),
      tasks := update_where (\<lambda>t. t_database_id t = i \<and> t_status t = ''pending'')
        (\<lambda>t. t\<lparr>t_status := ''failed'', t_error := Some ''superseded by delete'', t_finished_at := Some now\<rparr>)
        (tasks s)\<rparr>"

lemma delete_Inr:
  assumes "delete rnd now i s = Inr (op, s')"
  obtains d where "lock s i = Inr d" "create_with rnd now i Delete (d_generation d) (JObj [])
      (set_status now i ''deleting'' None (superseded now i s)) = Inr (op, s')"
  using assms that by (auto simp: delete_def and_then_Inr Let_def superseded_def create_operation_def split: if_splits)

lemma progress_superseded:
  assumes "progress st sts" "st = ''pending'' \<or> st = ''running''"
  shows "progress ''failed'' sts"
proof -
  obtain i where i: "i < length sts" "sts = replicate i ''done'' @ replicate (length sts - i) ''pending''"
    using assms by (auto simp: progress_def)
  then obtain k where "length sts - i = Suc k" by (metis Suc_diff_Suc)
  then have k: "sts = replicate i ''done'' @ ''pending'' # replicate k ''pending''" "length sts - i - 1 = k"
    using i(2) by simp_all
  then show ?thesis using i(1) by (auto simp: progress_def intro!: exI [of _ i])
qed

lemma superseded_cores:
  "map op_core (operations (superseded now i s)) =
    map (\<lambda>(op_id, q, db, kind, st). (op_id, q, db, kind,
      if db = i \<and> (st = ''pending'' \<or> st = ''running'') then ''failed'' else st)) (map op_core (operations s))"
  by (auto simp: superseded_def update_where_def op_core_def active_def)

lemma ops_ok_map:
  assumes "ops_ok ss cs q" "\<And>x. fst (f x) = fst x" "\<And>x. fst (snd (f x)) = fst (snd x)" "\<And>x. op_wf ss x \<Longrightarrow> op_wf ss (f x)"
  shows "ops_ok ss (map f cs) q"
  using assms by (simp add: ops_ok_def comp_def image_image)

lemma op_wf_superseded:
  assumes "op_wf ss (op_id, q, db, kind, st)"
  shows "op_wf ss (op_id, q, db, kind, if db = i \<and> (st = ''pending'' \<or> st = ''running'') then ''failed'' else st)"
proof (cases "db = i \<and> (st = ''pending'' \<or> st = ''running'')")
  case True
  obtain k where "kind = kind_as_str k"
    "map (\<lambda>r. (s_seq r, s_name r)) (steps_of ss op_id) = enumerate 0 (kind_steps k)"
    "progress st (map s_status (steps_of ss op_id))"
    using assms unfolding op_wf_def by auto
  then show ?thesis using True progress_superseded [of st] by (auto simp: op_wf_def)
qed (use assms in auto)

lemma superseded_ops:
  assumes "ops_inv s"
  shows "ops_inv (superseded now i s)"
proof -
  have "steps (superseded now i s) = steps s" "next_seq (superseded now i s) = next_seq s" by (simp_all add: superseded_def)
  then show ?thesis
    unfolding ops_inv_def superseded_cores
    using assms [unfolded ops_inv_def] op_wf_superseded by (auto intro!: ops_ok_map simp del: map_map)
qed

lemma set_status_same_ops:
  "operations (set_status now i st e s) = operations s" "steps (set_status now i st e s) = steps s"
  "next_seq (set_status now i st e s) = next_seq s" "tasks (set_status now i st e s) = tasks s"
  by (simp_all add: set_status_def)

lemma delete_ops:
  assumes "delete rnd now i s = Inr (op, s')" "ops_inv s"
  shows "ops_inv s'"
  using assms(1)
proof (rule delete_Inr)
  fix d assume "create_with rnd now i Delete (d_generation d) (JObj [])
    (set_status now i ''deleting'' None (superseded now i s)) = Inr (op, s')"
  then show "ops_inv s'"
    by (rule create_with_ops) (use superseded_ops [OF assms(2)] in \<open>simp add: ops_inv_def set_status_same_ops\<close>)
qed

lemma task_result_Inr:
  assumes "task_result now h task success err out s = Inr s'"
  obtains i where "s' = bump_hosts i (s\<lparr>tasks := update_where (\<lambda>t. t_id t = task \<and> t_status t = ''pending'')
    (\<lambda>t. t\<lparr>t_status := (if success then ''succeeded'' else ''failed''), t_error := err, t_output := out,
      t_finished_at := Some now\<rparr>) (tasks s)\<rparr>)"
  using assms that by (auto simp: task_result_def and_then_Inr split: if_splits)

lemma task_result_ops: "task_result now h task success err out s = Inr s' \<Longrightarrow> ops_inv s \<Longrightarrow> ops_inv s'"
  by (erule task_result_Inr) (simp add: ops_inv_def)

lemma ops_invariant: "cp_reach a s \<Longrightarrow> ops_inv s"
proof (erule cp_reach_invariant)
  show "ops_inv empty_store" by (simp add: ops_inv_def ops_ok_def empty_store_def)
  fix s s' assume inv: "ops_inv s" and "cp_step a s s'"
  from this(2) show "ops_inv s'"
  proof (cases rule: cp_step_kinds)
    case begins then show ?thesis using inv by (rule begins_ops)
  next
    case begun then show ?thesis using inv by (rule begun_ops)
  next
    case step then show ?thesis using inv by (rule step_on_ops)
  next
    case delete then show ?thesis using inv by (rule delete_ops)
  next
    case answer then show ?thesis using inv by (rule task_result_ops)
  qed
qed

section \<open>Every stored specification has passed its checks\<close>

definition same_specs :: "store \<Rightarrow> store \<Rightarrow> bool" where
  "same_specs s s' \<longleftrightarrow> map d_spec (databases s') = map d_spec (databases s)"

lemma same_specs_ok: "same_specs s s' \<Longrightarrow> specs_ok a s' = specs_ok a s"
  by (simp add: same_specs_def specs_ok_map)

lemma same_specs_refl [simp]: "same_specs s s"
  by (simp add: same_specs_def)

lemma same_specs_trans: "same_specs s t \<Longrightarrow> same_specs t u \<Longrightarrow> same_specs s u"
  by (simp add: same_specs_def)

lemma new_generation_specs: "new_generation now c s = Inr (g, s') \<Longrightarrow> same_specs s s'"
  by (drule new_generation_quiet) (simp add: same_specs_def)

lemma generation_specs: "new_generation now c t = Inr (g, s') \<Longrightarrow> databases t = databases s \<Longrightarrow> same_specs s s'"
  by (drule new_generation_specs) (simp add: same_specs_def)

lemma run_task_on_specs: "run_task_on rnd now c i kind run_on params s = Inr (r, s') \<Longrightarrow> same_specs s s'"
  by (auto simp: run_task_on_def same_specs_def split: option.splits if_splits)

lemma run_task_specs: "run_task rnd now c kind run_on params s = Inr (r, s') \<Longrightarrow> same_specs s s'"
  unfolding run_task_def by (rule run_task_on_specs)

lemma replica_task_specs: "replica_task rnd now c kind s = Inr (r, s') \<Longrightarrow> same_specs s s'"
  by (auto simp: replica_task_def and_then_Inr Let_def split: prod.splits intro: run_task_on_specs)

lemma retract_old_specs: "retract_old now c s = Inr (r, s') \<Longrightarrow> same_specs s s'"
  by (auto simp: retract_old_def and_then_Inr Let_def elim!: generation_specs)

lemma node_steps_specs:
  "retract c s = Inr (r, s') \<Longrightarrow> same_specs s s'"
  "drop_old c s = Inr (r, s') \<Longrightarrow> same_specs s s'"
  "finalize now c s = Inr (r, s') \<Longrightarrow> same_specs s s'"
  by (auto simp: retract_def drop_old_def finalize_def set_status_def and_then_Inr Let_def same_specs_def split: option.splits)

lemma store_secrets_specs: "store_secrets a rnd i v s = Inr s' \<Longrightarrow> same_specs s s'"
  by (auto simp: store_secrets_def and_then_Inr same_specs_def)

lemma publish_secrets_specs: "publish_secrets a rnd now c v s = Inr (r, s') \<Longrightarrow> same_specs s s'"
  by (auto simp: publish_secrets_def and_then_Inr intro: same_specs_trans [OF store_secrets_specs new_generation_specs])

lemma reissue_all_specs: "reissue_all a rnd i authority ns s = Inr s' \<Longrightarrow> same_specs s s'"
proof (induction a rnd i authority ns s rule: reissue_all.induct)
  case (2 a rnd i authority node address rest s)
  then show ?case by (auto simp: and_then_Inr reissue_def same_specs_def)
qed simp

lemma ca_issue_specs: "ca_issue a rnd now c s = Inr (r, s') \<Longrightarrow> same_specs s s'"
  by (auto simp: ca_issue_def and_then_Inr intro: same_specs_trans [OF reissue_all_specs new_generation_specs])

lemma secrets_steps_specs:
  "ca_trust_both a rnd now c s = Inr (r, s') \<Longrightarrow> same_specs s s'"
  "ca_trust_new a rnd now c s = Inr (r, s') \<Longrightarrow> same_specs s s'"
  "passwords_offer a rnd now c s = Inr (r, s') \<Longrightarrow> same_specs s s'"
  "passwords_commit a rnd now c s = Inr (r, s') \<Longrightarrow> same_specs s s'"
  by (auto simp: ca_trust_both_def ca_trust_new_def passwords_offer_def passwords_commit_def and_then_Inr Let_def
      intro: publish_secrets_specs)

lemma add_node_specs: "add_node a rnd i node h address boot authority s = Inr (port, s') \<Longrightarrow> same_specs s s'"
  by (drule add_node_quiet) (simp add: same_specs_def)

lemma place_nodes_specs: "place_nodes a rnd now c authority first k hs s = Inr (r, s') \<Longrightarrow> same_specs s s'"
proof (induction a rnd now c authority first k hs s rule: place_nodes.induct)
  case (2 a rnd now c authority first i h hs s)
  obtain port t where add: "add_node a rnd (c_database_id c) (''n'' @ show_radix 10 (i + 1)) (load_id h)
      (case load_address h of Some x \<Rightarrow> x | None \<Rightarrow> []) (if i = 0 then first else ''seed'') authority s = Inr (port, t)"
    using "2.prems"(1) by (auto simp: and_then_Inr Let_def)
  note b = add_node_specs [OF add]
  show ?case
  proof (cases port)
    case None
    then show ?thesis using "2.prems"(1) add b by (auto simp: Let_def)
  next
    case (Some p)
    let ?u = "add_log now (c_operation_id c) ''reconciler'' (''placed '' @ (''n'' @ show_radix 10 (i + 1))
      @ '' on host '' @ load_id h @ '' at port '' @ show_int p) t"
    have run: "place_nodes a rnd now c authority first (i + 1) hs ?u = Inr (r, s')"
      using "2.prems"(1) add Some by (simp add: Let_def)
    have "same_specs ?u s'" by (rule "2.IH" [OF refl refl refl refl run])
    then show ?thesis using same_specs_trans [OF b] by (simp add: same_specs_def)
  qed
qed simp

lemma place_step_specs:
  assumes "place_step a rnd now c s = Inr (r, s')"
  shows "same_specs s s'"
proof -
  obtain d where d: "fetch_one (database_at s (c_database_id c)) = Inr d"
    using assms by (auto simp: place_step_def and_then_Inr)
  show ?thesis
  proof (cases "place (scheduler a) (filter (wanted_host (d_spec d)) (filter usable_host (host_loads now s)))
      (if ha (d_spec d) then HA_NODES else 1) (spec_resources (d_spec d))")
    case (Placed chosen)
    obtain authority sealed k where k: "place_nodes a rnd now c authority k 0 chosen
        (s\<lparr>databases := update_where (\<lambda>d. d_id d = c_database_id c)
          (\<lambda>d. d\<lparr>d_ca_cert_pem := Some (ca_cert authority), d_secrets := Some sealed\<rparr>) (databases s)\<rparr>) = Inr (r, s')"
      using assms d Placed by (auto simp: place_step_def and_then_Inr Let_def)
    show ?thesis by (rule same_specs_trans [OF _ place_nodes_specs [OF k]]) (simp add: same_specs_def)
  qed (use assms d in \<open>auto simp: place_step_def Let_def\<close>)
qed

lemma place_replica_specs:
  assumes "place_replica a rnd now c s = Inr (r, s')"
  shows "same_specs s s'"
proof -
  obtain spec src where spec: "spec_of_database s (c_database_id c) = Inr spec" "replica_of spec = Some src"
    using assms by (auto simp: place_replica_def and_then_Inr)
  let ?hosts = "filter (wanted_host spec) (filter (\<lambda>h. domain h \<notin> set (taken_domains s (source_database_id src)))
    (filter usable_host (host_loads now s)))"
  show ?thesis
  proof (cases "place (scheduler a) ?hosts 1 (spec_resources spec)")
    case (Placed chosen)
    obtain h rest v authority t port u where "chosen = h # rest"
      and store: "store_secrets a rnd (c_database_id c) v s = Inr t"
      and add: "add_node a rnd (c_database_id c) ''n1'' (load_id h) (case load_address h of Some x \<Rightarrow> x | None \<Rightarrow> [])
        ''replica'' authority t = Inr (port, u)"
      and s': "s' = (case port of None \<Rightarrow> u | Some p \<Rightarrow> add_log now (c_operation_id c) ''reconciler''
        (''placed the replica on host '' @ load_name h @ '' at port '' @ show_int p)
        (bump_hosts (source_database_id src) u))"
      by (rule place_replica_Placed [OF assms spec Placed])
    have "databases s' = databases u" unfolding s' by (cases port) simp_all
    then show ?thesis
      using same_specs_trans [OF store_secrets_specs [OF store] add_node_specs [OF add]] by (simp add: same_specs_def)
  qed (use assms spec in \<open>auto simp: place_replica_def Let_def\<close>)
qed

definition keeps_specs :: "admin \<Rightarrow> store \<Rightarrow> string + (outcome \<times> store) \<Rightarrow> bool" where
  "keeps_specs a s x \<longleftrightarrow> (\<forall>r s'. x = Inr (r, s') \<longrightarrow> specs_ok a s \<longrightarrow> specs_ok a s')"

lemma keeps_specsI: "(\<And>r s'. x = Inr (r, s') \<Longrightarrow> same_specs s s') \<Longrightarrow> keeps_specs a s x"
  by (auto simp: keeps_specs_def same_specs_ok)

lemma keeps_specs_if:
  "(b \<Longrightarrow> keeps_specs a s x) \<Longrightarrow> (\<not> b \<Longrightarrow> keeps_specs a s y) \<Longrightarrow> keeps_specs a s (if b then x else y)"
  by simp

lemma keeps_specs_same: "keeps_specs a s (Inr (r, s))"
  by (simp add: keeps_specs_def)

lemma keeps_specs_waits:
  "keeps_specs a s (wait_applied now c except s)" "keeps_specs a s (wait_removed c s)"
  "keeps_specs a s (wait_old_removed now c s)" "keeps_specs a s (upgrade_check c s)"
  "keeps_specs a s (wait_version c s)"
  by (rule keeps_specsI; drule wait_applied_same wait_steps_same wait_version_same; simp)+

lemma keeps_specs_status: "keeps_specs a s (Inr (r, set_status now i st m s))"
  by (rule keeps_specsI) (auto simp: same_specs_def)

lemma keeps_specs_generation:
  "keeps_specs a s (and_then (new_generation now c s) (\<lambda>(g, s). Inr (Finished, s)))"
  by (rule keeps_specsI) (auto simp: and_then_Inr intro: new_generation_specs)

lemma keeps_specs_remove_replica:
  "keeps_specs a s (and_then (replica_source_of s i) (\<lambda>source.
    case source of Some _ \<Rightarrow> replica_task rnd now c kind s | None \<Rightarrow> Inr (Finished, s)))"
  by (rule keeps_specsI) (auto simp: and_then_Inr intro: replica_task_specs split: option.splits)

lemma keeps_specs_open_access: "keeps_specs a s (open_access now c s)"
proof (rule keeps_specsI)
  fix r s' assume "open_access now c s = Inr (r, s')"
  then obtain g where "new_generation now c (s\<lparr>databases := update_where (\<lambda>d. d_id d = c_database_id c)
      (\<lambda>d. d\<lparr>d_access_open := True\<rparr>) (databases s)\<rparr>) = Inr (g, s')"
    by (auto simp: open_access_def Let_def and_then_Inr)
  from new_generation_specs [OF this] show "same_specs s s'" by (simp add: same_specs_def)
qed

lemma keeps_specs_promote: "keeps_specs a s (promote now c s)"
  unfolding keeps_specs_def
proof (intro allI impI)
  fix r s' assume run: "promote now c s = Inr (r, s')" and inv: "specs_ok a s"
  obtain spec where spec: "spec_of_database s (c_database_id c) = Inr spec"
    using run by (auto simp: promote_def and_then_Inr)
  let ?dbs = "update_where (\<lambda>d. d_id d = c_database_id c) (\<lambda>d. d\<lparr>d_spec := spec\<lparr>replica_of := None\<rparr>\<rparr>) (databases s)"
  obtain t g where t: "new_generation now c t = Inr (g, s')" "databases t = ?dbs"
    using run spec that by (cases "replica_of spec") (auto simp: promote_def and_then_Inr Let_def)
  have "spec_ok (is_cidr (admin_libs a)) spec"
    using spec inv by (auto simp: spec_of_database_def and_then_Inr fetch_one_Inr database_at_def specs_ok_def dest!: filter_eq_ConsD)
  then have "spec_ok (is_cidr (admin_libs a)) (spec\<lparr>replica_of := None\<rparr>)" by (simp add: spec_ok_def)
  then have "specs_ok a t" using inv t(2) by (auto simp: specs_ok_def set_update_where)
  then show "specs_ok a s'" using same_specs_ok [OF new_generation_specs [OF t(1)]] by simp
qed

lemmas specs_changes = place_step_specs run_task_specs place_replica_specs replica_task_specs
  retract_old_specs node_steps_specs ca_issue_specs secrets_steps_specs

lemma run_step_specs: "keeps_specs a s (run_step a rnd now c s)"
  unfolding run_step_def Let_def
  by (intro keeps_specs_if)
    (rule keeps_specs_waits keeps_specs_status keeps_specs_generation keeps_specs_remove_replica keeps_specs_same
      keeps_specs_open_access keeps_specs_promote specs_changes [THEN keeps_specsI]; assumption?)+

text \<open>What the tables look like around a step.\<close>

lemma settle_outcome_frame:
  "nodes (settle_outcome now c r s) = nodes s" "hosts (settle_outcome now c r s) = hosts s"
  "map db_access (databases (settle_outcome now c r s)) = map db_access (databases s)"
  "map d_spec (databases (settle_outcome now c r s)) = map d_spec (databases s)"
  by (auto simp: settle_outcome_def finish_step_def fail_step_def postpone_def mark_step_def Let_def split: outcome.splits)

lemma create_with_frame:
  assumes "create_with rnd now i kind g params s = Inr (op, s')"
  shows "nodes s' = nodes s" "hosts s' = hosts s" "databases s' = databases s" "tasks s' = tasks s"
  using assms by (auto simp: create_with_def Let_def split: if_splits)

lemma begun_keeps:
  assumes "begun a s s'"
  shows "refs_inv (scheduler a) s \<Longrightarrow> refs_inv (scheduler a) s'" "specs_ok a s \<Longrightarrow> specs_ok a s'" "opened s' = opened s"
    "tasks s' = tasks s"
proof -
  obtain t u rnd now i kind g params op where "begins a s t" "create_with rnd now i kind g params t = Inr (op, u)" "begins a u s'"
    by (rule begunE [OF assms])
  note h = this(1) create_with_frame [OF this(2)] this(3)
  show "refs_inv (scheduler a) s \<Longrightarrow> refs_inv (scheduler a) s'" "specs_ok a s \<Longrightarrow> specs_ok a s'" "opened s' = opened s"
    "tasks s' = tasks s"
    using h by (simp_all add: begins_def refs_inv_def specs_ok_def opened_def)
qed

lemma step_on_refs:
  assumes "c \<in> set (claims now s)" "step_on a rnd now c s = Inr s'" "ops_inv s"
  shows "refs_inv (scheduler a) s \<Longrightarrow> refs_inv (scheduler a) s'" "specs_ok a s \<Longrightarrow> specs_ok a s'"
proof -
  obtain k r t where t: "run_step a rnd now c (running c s) = Inr (r, t)" "s' = settle_outcome now c r t"
    by (rule step_on_position [OF assms])
  have ids: "map d_id (databases s') = map d_id (databases t)"
    unfolding t(2) by (rule ids_of_access [OF settle_outcome_frame(3)])
  show "refs_inv (scheduler a) s'" if "refs_inv (scheduler a) s"
  proof -
    have "refs_inv (scheduler a) (running c s)" using that by (simp add: refs_inv_def)
    then have "refs_inv (scheduler a) t"
    proof (cases "c_name c = ''open_access''")
      case True
      then have "open_access now c (running c s) = Inr (r, t)" using t(1) by (simp add: run_step_def)
      then obtain g where "new_generation now c ((running c s)\<lparr>databases := update_where (\<lambda>d. d_id d = c_database_id c)
          (\<lambda>d. d\<lparr>d_access_open := True\<rparr>) (databases (running c s))\<rparr>) = Inr (g, t)"
        by (auto simp: open_access_def Let_def and_then_Inr)
      from new_generation_benign [OF this] show ?thesis
        using that by (simp add: benign_def refs_inv_def)
    next
      case False
      then show ?thesis using run_step_benign [OF t(1)] that by (simp add: benign_def refs_inv_def)
    qed
    then show ?thesis by (rule refs_inv_same) (simp_all add: t(2) settle_outcome_frame ids [unfolded t(2)])
  qed
  show "specs_ok a s'" if "specs_ok a s"
  proof -
    have "specs_ok a t" using run_step_specs [of a "running c s" rnd now c] t(1) that by (simp add: keeps_specs_def specs_ok_def)
    then show ?thesis by (simp add: t(2) specs_ok_map settle_outcome_frame)
  qed
qed

lemma delete_keeps:
  assumes "delete rnd now i s = Inr (op, s')"
  shows "refs_inv (scheduler a) s \<Longrightarrow> refs_inv (scheduler a) s'" "specs_ok a s \<Longrightarrow> specs_ok a s'" "opened s' = opened s"
proof -
  obtain d where "lock s i = Inr d" "create_with rnd now i Delete (d_generation d) (JObj [])
      (set_status now i ''deleting'' None (superseded now i s)) = Inr (op, s')"
    by (rule delete_Inr [OF assms])
  note h = create_with_frame [OF this(2)]
  have db: "map db_access (databases s') = map db_access (databases s)" "map d_spec (databases s') = map d_spec (databases s)"
    by (simp_all add: h(3) superseded_def)
  show "refs_inv (scheduler a) s \<Longrightarrow> refs_inv (scheduler a) s'"
    by (erule refs_inv_same) (simp_all add: h(1,2) superseded_def ids_of_access [OF db(1)])
  show "specs_ok a s \<Longrightarrow> specs_ok a s'" by (simp only: specs_ok_map db(2))
  show "opened s' = opened s" by (simp only: opened_access db(1))
qed

lemma answer_keeps:
  assumes "task_result now h task success err out s = Inr s'"
  shows "refs_inv (scheduler a) s' = refs_inv (scheduler a) s" "specs_ok a s' = specs_ok a s" "opened s' = opened s"
  using assms by (auto elim!: task_result_Inr simp: refs_inv_def specs_ok_def opened_def)

lemma tables_invariant:
  assumes "cp_reach a s"
  shows "refs_inv (scheduler a) s \<and> specs_ok a s \<and> ops_inv s"
  using assms
proof (rule cp_reach_invariant)
  show "refs_inv (scheduler a) empty_store \<and> specs_ok a empty_store \<and> ops_inv empty_store"
    by (simp add: refs_inv_def refs_ok_def specs_ok_def empty_store_def ops_inv_def ops_ok_def)
  fix s s' assume inv: "refs_inv (scheduler a) s \<and> specs_ok a s \<and> ops_inv s" and "cp_step a s s'"
  from this(2) show "refs_inv (scheduler a) s' \<and> specs_ok a s' \<and> ops_inv s'"
  proof (cases rule: cp_step_kinds)
    case begins
    then show ?thesis using inv begins_ops [OF begins] by (simp add: begins_def)
  next
    case begun
    then show ?thesis using inv begun_keeps [OF begun] begun_ops [OF begun] by simp
  next
    case (step c now rnd)
    have ops: "ops_inv s" using inv by simp
    show ?thesis using inv step_on_refs [OF step ops] step_on_ops [OF step ops] by simp
  next
    case (delete rnd now i op)
    then show ?thesis using inv delete_keeps [OF delete] delete_ops [OF delete] by simp
  next
    case (answer now h task success err out)
    then show ?thesis using inv answer_keeps [OF answer] task_result_ops [OF answer] by simp
  qed
qed

section \<open>No client reaches a database before its first backup\<close>

definition backed :: "store \<Rightarrow> string \<Rightarrow> bool" where
  "backed s op_id \<longleftrightarrow> (\<exists>t \<in> set (tasks s). t_operation_id t = op_id \<and> t_kind t = ''backup'' \<and> t_status t = ''succeeded'')"

definition op_owner :: "operation_row \<Rightarrow> string \<times> string" where
  "op_owner op = (o_id op, o_database_id op)"

definition backups_first :: "store \<Rightarrow> bool" where
  "backups_first s \<longleftrightarrow>
    (\<forall>r \<in> set (steps s). s_name r = ''first_backup'' \<and> s_status r = ''done'' \<longrightarrow> backed s (s_operation_id r))
    \<and> (\<forall>i \<in> opened s. \<exists>op_id. (op_id, i) \<in> set (map op_owner (operations s)) \<and> backed s op_id)"

text \<open>A task that has an answer stays as it is.\<close>

definition tasks_grow :: "store \<Rightarrow> store \<Rightarrow> bool" where
  "tasks_grow s s' \<longleftrightarrow> {t \<in> set (tasks s). t_status t \<noteq> ''pending''} \<subseteq> set (tasks s')"

lemma tasks_grow_refl [simp]: "tasks_grow s s"
  by (auto simp: tasks_grow_def)

lemma tasks_grow_trans: "tasks_grow s t \<Longrightarrow> tasks_grow t u \<Longrightarrow> tasks_grow s u"
  by (auto simp: tasks_grow_def)

lemma backed_grow: "backed s i \<Longrightarrow> tasks_grow s s' \<Longrightarrow> backed s' i"
  by (auto simp: backed_def tasks_grow_def)

lemma tasks_grow_update: "tasks s' = update_where (\<lambda>t. p t \<and> t_status t = ''pending'') f (tasks s) \<Longrightarrow> tasks_grow s s'"
  by (auto simp: tasks_grow_def update_where_def image_iff intro!: bexI)

lemma quiet_grow: "quiet s s' \<Longrightarrow> tasks_grow s s'"
  by (auto simp: quiet_def tasks_grow_def)

lemma settle_outcome_grow: "tasks_grow s (settle_outcome now c r s)"
proof (cases r)
  case (Failed m)
  then show ?thesis by (intro tasks_grow_update) (simp add: settle_outcome_def fail_step_def Let_def mark_step_def)
next
  case Finished
  then show ?thesis by (simp add: settle_outcome_def finish_step_def Let_def mark_step_def tasks_grow_def)
next
  case (Wait m)
  then show ?thesis
    by (cases "c_past_deadline c"; intro tasks_grow_update [where p = "\<lambda>t. c_past_deadline c \<and> t_operation_id t = c_operation_id c"])
      (simp_all add: settle_outcome_def postpone_frame fail_step_def mark_step_def Let_def update_where_absent)
qed

text \<open>The step before \<open>open_access\<close> is \<open>first_backup\<close>.\<close>

lemma backup_before_access:
  "i < length (kind_steps k) \<Longrightarrow> kind_steps k ! i = ''open_access'' \<Longrightarrow> \<exists>j. i = Suc j \<and> kind_steps k ! j = ''first_backup''"
  by (cases k) (auto simp: nth_Cons' less_Suc_eq split: if_splits)

lemma at_step_earlier:
  assumes "at_step s c names" "j < c_seq c"
  obtains r where "r \<in> set (steps s)" "s_operation_id r = c_operation_id c" "s_name r = names ! j" "s_status r = ''done''"
proof -
  let ?xs = "steps_of (steps s) (c_operation_id c)"
  have h: "map (\<lambda>r. (s_seq r, s_name r)) ?xs = enumerate 0 names" "c_seq c < length names"
    "map s_status ?xs = replicate (c_seq c) ''done'' @ replicate (length names - c_seq c) ''pending''"
    using assms(1) by (simp_all add: at_step_def)
  have len: "length ?xs = length names" using arg_cong [OF h(1), of length] by simp
  have j: "j < length ?xs" using assms(2) h(2) len by simp
  have "s_name (?xs ! j) = names ! j" using arg_cong [OF h(1), of "\<lambda>l. snd (l ! j)"] j len by (simp add: nth_enumerate_eq)
  moreover have "s_status (?xs ! j) = ''done''"
    using arg_cong [OF h(3), of "\<lambda>l. l ! j"] j assms(2) by (simp add: nth_append)
  moreover have "?xs ! j \<in> set (steps s)" "s_operation_id (?xs ! j) = c_operation_id c"
    using nth_mem [OF j] by (auto simp: steps_of_def)
  ultimately show ?thesis using that by blast
qed

lemma settle_outcome_steps:
  assumes "r' \<in> set (steps (settle_outcome now c r s))" "s_status r' = ''done''"
  obtains x where "x \<in> set (steps s)" "s_operation_id x = s_operation_id r'" "s_name x = s_name r'"
    "s_status x = ''done'' \<or> r = Finished \<and> s_operation_id x = c_operation_id c \<and> s_seq x = c_seq c"
  using assms that
  by (cases r) (auto simp: settle_outcome_def finish_step_def fail_step_def mark_step_def postpone_def Let_def set_update_where
      split: if_splits)

lemma owners_of_cores: "map op_core xs = map op_core ys \<Longrightarrow> map op_owner xs = map op_owner ys"
proof -
  assume "map op_core xs = map op_core ys"
  then have "map (\<lambda>(i, q, d, k, st). (i, d)) (map op_core xs) = map (\<lambda>(i, q, d, k, st). (i, d)) (map op_core ys)" by simp
  then show ?thesis by (simp add: op_core_def op_owner_def [abs_def] comp_def)
qed

lemma owners_kept:
  "map op_owner (operations (running c s)) = map op_owner (operations s)"
  "map op_owner (operations (settle_outcome now c r s)) = map op_owner (operations s)"
  "map op_owner (operations (superseded now i s)) = map op_owner (operations s)"
  by (auto simp: op_owner_def running_def superseded_def settle_outcome_def finish_step_def fail_step_def mark_step_def
      postpone_def Let_def split: outcome.splits)

lemma backups_first_grow:
  assumes "backups_first s" "steps s' = steps s" "opened s' = opened s" "tasks_grow s s'"
    "set (map op_owner (operations s)) \<subseteq> set (map op_owner (operations s'))"
  shows "backups_first s'"
  unfolding backups_first_def assms(2,3)
proof (intro conjI ballI impI)
  fix r assume "r \<in> set (steps s)" "s_name r = ''first_backup'' \<and> s_status r = ''done''"
  then show "backed s' (s_operation_id r)" using assms(1) backed_grow [OF _ assms(4)] by (simp add: backups_first_def)
next
  fix i assume "i \<in> opened s"
  then obtain op_id where "(op_id, i) \<in> set (map op_owner (operations s))" "backed s op_id"
    using assms(1) unfolding backups_first_def by blast
  then show "\<exists>op_id. (op_id, i) \<in> set (map op_owner (operations s')) \<and> backed s' op_id"
    using assms(5) backed_grow [OF _ assms(4)] by blast
qed

lemma run_task_finished:
  assumes "run_task rnd now c kind run_on params s = Inr (Finished, s')"
  shows "\<exists>t \<in> set (tasks s'). t_operation_id t = c_operation_id c \<and> t_kind t = kind \<and> t_status t = ''succeeded''"
proof -
  obtain t where "find (\<lambda>t. t_operation_id t = c_operation_id c \<and> t_kind t = kind) (tasks s) = Some t"
      "t_status t = ''succeeded''" "s' = s"
    using assms by (auto simp: run_task_def run_task_on_def split: option.splits if_splits)
  then show ?thesis by (auto simp: find_Some_iff)
qed

lemma run_step_opens:
  assumes "run_step a rnd now c s = Inr (r, t)"
  shows "tasks_grow s t" "opened t \<subseteq> opened s \<union> (if c_name c = ''open_access'' then {c_database_id c} else {})"
    "c_name c = ''first_backup'' \<Longrightarrow> r = Finished \<Longrightarrow> backed t (c_operation_id c)"
proof -
  have "tasks_grow s t \<and> opened t \<subseteq> opened s \<union> (if c_name c = ''open_access'' then {c_database_id c} else {})"
  proof (cases "c_name c = ''open_access''")
    case True
    then have "open_access now c s = Inr (r, t)" using assms by (simp add: run_step_def)
    then obtain g where "new_generation now c (s\<lparr>databases := update_where (\<lambda>d. d_id d = c_database_id c)
        (\<lambda>d. d\<lparr>d_access_open := True\<rparr>) (databases s)\<rparr>) = Inr (g, t)"
      by (auto simp: open_access_def Let_def and_then_Inr)
    note q = new_generation_quiet [OF this]
    then have "opened t = opened (s\<lparr>databases := update_where (\<lambda>d. d_id d = c_database_id c)
        (\<lambda>d. d\<lparr>d_access_open := True\<rparr>) (databases s)\<rparr>)"
      unfolding opened_access by (simp add: quiet_def)
    also have "\<dots> \<subseteq> opened s \<union> {c_database_id c}" by (auto simp: opened_def set_update_where)
    finally show ?thesis using True q by (simp add: tasks_grow_def)
  next
    case False
    note q = run_step_benign [OF assms False]
    then have "opened t = opened s" unfolding opened_access by (simp add: benign_def quiet_def)
    then show ?thesis using q quiet_grow by (simp add: benign_def)
  qed
  then show "tasks_grow s t" "opened t \<subseteq> opened s \<union> (if c_name c = ''open_access'' then {c_database_id c} else {})" by simp_all
  assume h: "c_name c = ''first_backup''" "r = Finished"
  then have "run_task rnd now c ''backup'' ''leader'' (JObj [(''label'', JStr FIRST_BACKUP_LABEL)]) s = Inr (Finished, t)"
    using assms by (simp add: run_step_def)
  from run_task_finished [OF this] show "backed t (c_operation_id c)" by (auto simp: backed_def)
qed

lemma at_step_name:
  assumes "at_step s c names" "x \<in> set (steps s)" "s_operation_id x = c_operation_id c" "s_seq x = c_seq c"
  shows "s_name x = names ! c_seq c"
proof -
  let ?xs = "steps_of (steps s) (c_operation_id c)"
  have "x \<in> set ?xs" using assms(2,3) by (simp add: steps_of_def)
  then have "(s_seq x, s_name x) \<in> set (map (\<lambda>r. (s_seq r, s_name r)) ?xs)" by force
  also have "map (\<lambda>r. (s_seq r, s_name r)) ?xs = enumerate 0 names" using assms(1) by (simp add: at_step_def)
  finally show ?thesis using assms(4) by (auto simp: in_set_enumerate_eq)
qed

lemma step_on_backups:
  assumes claim: "c \<in> set (claims now s)" and run: "step_on a rnd now c s = Inr s'" and ops: "ops_inv s" and inv: "backups_first s"
  shows "backups_first s'"
proof -
  obtain k r t where k: "at_step (running c s) c (kind_steps k)" "c_name c = kind_steps k ! c_seq c"
    and t: "run_step a rnd now c (running c s) = Inr (r, t)" "at_step t c (kind_steps k)" "s' = settle_outcome now c r t"
    by (rule step_on_position [OF claim run ops])
  obtain op where op: "op \<in> set (operations s)" "o_id op = c_operation_id c" "o_database_id op = c_database_id c"
    by (rule claimed_position [OF claim ops])
  note ro = run_step_opens [OF t(1)]
  have steps: "steps t = steps s" using run_step_same_ops [OF t(1)] by (simp add: same_ops_def)
  have st: "tasks_grow s t" using ro(1) by (simp add: tasks_grow_def)
  have grow: "tasks_grow s s'" "tasks_grow t s'"
    unfolding t(3) by (rule tasks_grow_trans [OF st settle_outcome_grow], rule settle_outcome_grow)
  have "map op_core (operations t) = map op_core (operations (running c s))"
    using run_step_same_ops [OF t(1)] by (simp add: same_ops_def)
  from owners_of_cores [OF this] have owners: "map op_owner (operations s') = map op_owner (operations s)"
    unfolding t(3) owners_kept(1,2) .
  have opened: "opened s' = opened t" unfolding t(3) opened_access settle_outcome_frame(3) ..
  have "backed s' (s_operation_id x)" if x: "x \<in> set (steps s')" "s_name x = ''first_backup''" "s_status x = ''done''" for x
  proof -
    obtain y where y: "y \<in> set (steps t)" "s_operation_id y = s_operation_id x" "s_name y = s_name x"
      "s_status y = ''done'' \<or> r = Finished \<and> s_operation_id y = c_operation_id c \<and> s_seq y = c_seq c"
      using settle_outcome_steps [OF x(1) [unfolded t(3)] x(3)] by metis
    from y(4) show ?thesis
    proof
      assume "s_status y = ''done''"
      then have "backed s (s_operation_id y)" using inv y(1,3) x(2) steps unfolding backups_first_def by simp
      then show ?thesis using backed_grow [OF _ grow(1)] y(2) by simp
    next
      assume fin: "r = Finished \<and> s_operation_id y = c_operation_id c \<and> s_seq y = c_seq c"
      then have "c_name c = ''first_backup''" using at_step_name [OF t(2) y(1)] k(2) x(2) y(3) by simp
      then have "backed t (c_operation_id c)" using ro(3) fin by simp
      then show ?thesis using backed_grow [OF _ grow(2)] y(2) fin by simp
    qed
  qed
  moreover have "\<exists>op_id. (op_id, i) \<in> set (map op_owner (operations s')) \<and> backed s' op_id" if "i \<in> opened s'" for i
  proof (cases "i \<in> opened s")
    case True
    then obtain op_id where "(op_id, i) \<in> set (map op_owner (operations s))" "backed s op_id"
      using inv unfolding backups_first_def by blast
    then show ?thesis unfolding owners using backed_grow [OF _ grow(1)] by blast
  next
    case False
    have "opened (running c s) = opened s" by (simp add: opened_def)
    then have i: "c_name c = ''open_access''" "i = c_database_id c"
      using that False ro(2) opened by (auto split: if_splits)
    obtain j where j: "c_seq c = Suc j" "kind_steps k ! j = ''first_backup''"
      using backup_before_access [of "c_seq c" k] k i(1) by (auto simp: at_step_def)
    obtain x where x: "x \<in> set (steps s)" "s_operation_id x = c_operation_id c" "s_name x = kind_steps k ! j" "s_status x = ''done''"
      using at_step_earlier [OF k(1), of j] j(1) by auto
    have "backed s (s_operation_id x)" using inv x(1,3,4) j(2) unfolding backups_first_def by simp
    then have "backed s (c_operation_id c)" using x(2) by simp
    moreover have "(c_operation_id c, i) \<in> set (map op_owner (operations s))"
      using op i(2) by (force simp: op_owner_def)
    ultimately show ?thesis unfolding owners using backed_grow [OF _ grow(1)] by blast
  qed
  ultimately show ?thesis by (simp add: backups_first_def)
qed

lemma create_with_adds:
  assumes "create_with rnd now i kind g params s = Inr (op, s')" "backups_first s"
  shows "backups_first s'"
proof -
  let ?id = "rnd ''operation id''"
  have s': "steps s' = steps s @ map (new_step ?id now) (enumerate 0 (kind_steps kind))" "tasks s' = tasks s"
      "databases s' = databases s" "set (map op_owner (operations s)) \<subseteq> set (map op_owner (operations s'))"
    using assms(1) by (auto simp: create_with_def Let_def split: if_splits)
  have same: "backed s' = backed s" "opened s' = opened s" by (simp_all add: backed_def opened_def s' fun_eq_iff)
  show ?thesis
    unfolding backups_first_def same
  proof (intro conjI ballI impI)
    fix r assume "r \<in> set (steps s')" "s_name r = ''first_backup'' \<and> s_status r = ''done''"
    then show "backed s (s_operation_id r)" using assms(2) by (auto simp: s'(1) backups_first_def new_step_def)
  next
    fix j assume "j \<in> opened s"
    then show "\<exists>op_id. (op_id, j) \<in> set (map op_owner (operations s')) \<and> backed s op_id"
      using assms(2) s'(4) unfolding backups_first_def by blast
  qed
qed

lemma begins_backups:
  assumes "begins a s s'" "backups_first s"
  shows "backups_first s'"
proof (rule backups_first_grow [OF assms(2)])
  show "set (map op_owner (operations s)) \<subseteq> set (map op_owner (operations s'))"
    using owners_of_cores [of "operations s'" "operations s"] assms(1) by (simp add: begins_def same_ops_def del: set_map)
qed (use assms(1) in \<open>simp_all add: begins_def same_ops_def tasks_grow_def\<close>)

lemma begun_backups: "begun a s s' \<Longrightarrow> backups_first s \<Longrightarrow> backups_first s'"
  by (elim begunE) (rule begins_backups, assumption, rule create_with_adds, assumption, rule begins_backups)

lemma delete_backups:
  assumes "delete rnd now i s = Inr (op, s')" "backups_first s"
  shows "backups_first s'"
  using assms(1)
proof (rule delete_Inr)
  fix d assume "create_with rnd now i Delete (d_generation d) (JObj [])
    (set_status now i ''deleting'' None (superseded now i s)) = Inr (op, s')"
  then show "backups_first s'"
  proof (rule create_with_adds)
    show "backups_first (set_status now i ''deleting'' None (superseded now i s))"
    proof (rule backups_first_grow [OF assms(2)])
      show "tasks_grow s (set_status now i ''deleting'' None (superseded now i s))"
        by (rule tasks_grow_update [where p = "\<lambda>t. t_database_id t = i"]) (simp add: superseded_def)
      show "opened (set_status now i ''deleting'' None (superseded now i s)) = opened s"
        unfolding opened_access by (simp add: superseded_def del: set_map)
      show "set (map op_owner (operations s)) \<subseteq> set (map op_owner (operations (set_status now i ''deleting'' None (superseded now i s))))"
        by (simp only: set_status_frame owners_kept(3) subset_refl)
    qed (simp add: superseded_def)
  qed
qed

lemma answer_backups:
  assumes "task_result now h task success err out s = Inr s'" "backups_first s"
  shows "backups_first s'"
  using assms(1)
proof (rule task_result_Inr)
  fix i assume s': "s' = bump_hosts i (s\<lparr>tasks := update_where (\<lambda>t. t_id t = task \<and> t_status t = ''pending'')
    (\<lambda>t. t\<lparr>t_status := (if success then ''succeeded'' else ''failed''), t_error := err, t_output := out,
      t_finished_at := Some now\<rparr>) (tasks s)\<rparr>)"
  show ?thesis
  proof (rule backups_first_grow [OF assms(2)])
    show "tasks_grow s s'" by (rule tasks_grow_update [where p = "\<lambda>t. t_id t = task"]) (simp add: s')
  qed (simp_all add: s' opened_def)
qed

lemma backups_invariant:
  assumes "cp_reach a s"
  shows "backups_first s \<and> ops_inv s"
  using assms
proof (rule cp_reach_invariant)
  show "backups_first empty_store \<and> ops_inv empty_store"
    by (simp add: backups_first_def opened_def empty_store_def ops_inv_def ops_ok_def)
  fix s s' assume inv: "backups_first s \<and> ops_inv s" and "cp_step a s s'"
  then have b: "backups_first s" and ops: "ops_inv s" by simp_all
  from \<open>cp_step a s s'\<close> show "backups_first s' \<and> ops_inv s'"
  proof (cases rule: cp_step_kinds)
    case begins
    show ?thesis using begins_backups [OF begins b] begins_ops [OF begins ops] by simp
  next
    case begun
    show ?thesis using begun_backups [OF begun b] begun_ops [OF begun ops] by simp
  next
    case step
    show ?thesis using step_on_backups [OF step ops b] step_on_ops [OF step ops] by simp
  next
    case delete
    show ?thesis using delete_backups [OF delete b] delete_ops [OF delete ops] by simp
  next
    case answer
    show ?thesis using answer_backups [OF answer b] task_result_ops [OF answer ops] by simp
  qed
qed

section \<open>Properties\<close>

lemma build_instance_access:
  assumes "build_instance a s (n, r, d) = Inr x"
  shows "i_database_id x = d_id d \<and> i_allowed_cidrs x = (if d_access_open d then allowed_cidrs (d_spec d) else [])"
proof -
  obtain sealed v b where v: "d_secrets d = Some sealed" "open_database a (d_id d) sealed = Inr v"
      "repository_of a s (repository_id (backup (d_spec d))) = Inr b"
    using assms unfolding build_instance_def Let_def prod.case and_then_Inr ok_or_Inr by blast
  obtain kind config credentials where b: "b = (kind, config, credentials)" by (cases b)
  show ?thesis
    using assms unfolding build_instance_def Let_def prod.case v ok_or.simps b and_then.simps
    by (cases "open_node a (node_context (d_id d) (n_node n)) (n_secrets n)"; cases "replica_of (d_spec d)") auto
qed

lemma build_desired_state_instances:
  assumes "build_desired_state a h s = Inr ds"
  shows "collect_results (map (build_instance a s) (instance_rows s h)) = Inr (desired_instances ds)"
  using assms unfolding build_desired_state_def and_then_Inr by (elim exE conjE) auto

lemma list_all2_in_set: "list_all2 P xs ys \<Longrightarrow> y \<in> set ys \<Longrightarrow> \<exists>x \<in> set xs. P x y"
  by (induction rule: list_all2_induct) auto

lemma instance_of_row:
  assumes "build_desired_state a h s = Inr ds" "x \<in> set (desired_instances ds)"
  obtains d where "d \<in> set (databases s)" "i_database_id x = d_id d"
    "i_allowed_cidrs x = (if d_access_open d then allowed_cidrs (d_spec d) else [])"
proof -
  have "\<exists>row \<in> set (instance_rows s h). build_instance a s row = Inr x"
    using list_all2_in_set [OF _ assms(2)] build_desired_state_instances [OF assms(1)] unfolding collect_results_map by blast
  then obtain n r d where row: "(n, r, d) \<in> set (instance_rows s h)" "build_instance a s (n, r, d) = Inr x" by auto
  from row(1) have "d \<in> set (databases s)" by (auto simp: instance_rows_def)
  then show ?thesis using build_instance_access [OF row(2)] by (intro that [of d]) simp_all
qed



text \<open>C8. An operation runs its steps in order: its rows are the steps of its kind, numbered from zero; while it is due
  the steps are done up to a point and pending from there; all are done once it has succeeded, and one that failed
  stopped at a step with everything before it done and everything after it never started.\<close>

theorem operations_run_in_order:
  assumes "cp_reach a s" "op \<in> set (operations s)"
  shows "\<exists>k. o_kind op = kind_as_str k
    \<and> map (\<lambda>r. (s_seq r, s_name r)) (steps_of (steps s) (o_id op)) = enumerate 0 (kind_steps k)
    \<and> progress (o_status op) (map s_status (steps_of (steps s) (o_id op)))"
proof -
  have "op_wf (steps s) (op_core op)"
    using tables_invariant [OF assms(1)] assms(2) unfolding ops_inv_def ops_ok_def by auto
  then show ?thesis by (simp add: op_wf_def op_core_def)
qed

theorem operations_run_in_order_witness:
  "\<exists>s op. cp_reach demo_admin s \<and> op \<in> set (operations s) \<and> (\<exists>k. o_kind op = kind_as_str k
    \<and> map (\<lambda>r. (s_seq r, s_name r)) (steps_of (steps s) (o_id op)) = enumerate 0 (kind_steps k)
    \<and> progress (o_status op) (map s_status (steps_of (steps s) (o_id op))))"
proof -
  obtain s where s: "cp_reach demo_admin s" "demo_facts s" by (rule demo_store)
  then have op: "hd (operations s) \<in> set (operations s)" by (simp add: demo_facts_def)
  show ?thesis by (intro exI) (rule conjI [OF s(1) conjI [OF op operations_run_in_order [OF s(1) op]]])
qed



subsection \<open>Ports\<close>

lemma generate_series_elem:
  assumes "p \<in> set (generate_series lo hi step)" "0 < step"
  obtains i where "p = lo + step * int i" "p \<le> hi"
proof -
  obtain i where i: "p = lo + step * int i" "i \<in> set [0 ..< nat ((hi - lo) div step + 1)]"
    using assms(1) unfolding generate_series_def set_map by blast
  then have "int i \<le> (hi - lo) div step" by (simp add: zless_nat_eq_int_zless)
  then have "step * int i \<le> step * ((hi - lo) div step)" using assms(2) by (intro mult_left_mono) simp_all
  also have "\<dots> \<le> hi - lo" using mult_div_mod_eq [of step "hi - lo"] pos_mod_sign [OF assms(2), of "hi - lo"] by linarith
  finally show ?thesis using i(1) by (intro that [of i]) simp_all
qed

lemma blocks_apart:
  assumes "p \<in> set (generate_series lo hi PORT_BLOCK)" "q \<in> set (generate_series lo hi PORT_BLOCK)" "p \<noteq> q"
  shows "{p ..< p + PORT_BLOCK} \<inter> {q ..< q + PORT_BLOCK} = {}"
proof -
  have pos: "0 < PORT_BLOCK" by (simp add: PORT_BLOCK_def)
  obtain i where i: "p = lo + PORT_BLOCK * int i" by (rule generate_series_elem [OF assms(1) pos])
  obtain j where j: "q = lo + PORT_BLOCK * int j" by (rule generate_series_elem [OF assms(2) pos])
  have "i \<noteq> j" using i j assms(3) by auto
  then show ?thesis unfolding i j PORT_BLOCK_def by auto
qed

text \<open>C10. Every node has a block of ten ports inside the configured range and below 65536, and the blocks of two nodes
  on one host never overlap.\<close>

theorem port_blocks_disjoint:
  assumes "cp_reach a s" "validate_scheduler (scheduler a) = Inr ()" "n \<in> set (nodes s)"
  shows "port_base_start (scheduler a) \<le> n_port_base n \<and> n_port_base n \<le> port_base_end (scheduler a)
    \<and> 1024 \<le> n_port_base n \<and> n_port_base n + PORT_BLOCK \<le> 65535
    \<and> (\<forall>m \<in> set (nodes s). m \<noteq> n \<longrightarrow> n_host_id m = n_host_id n \<longrightarrow>
        {n_port_base m ..< n_port_base m + PORT_BLOCK} \<inter> {n_port_base n ..< n_port_base n + PORT_BLOCK} = {})"
proof -
  let ?series = "generate_series (port_base_start (scheduler a)) (port_base_end (scheduler a)) PORT_BLOCK"
  have refs: "refs_inv (scheduler a) s" using tables_invariant [OF assms(1)] by simp
  then have series: "n_port_base m \<in> set ?series" if "m \<in> set (nodes s)" for m
    using that by (auto simp: refs_inv_def refs_ok_def list_all_iff node_key_def)
  have keys: "inj_on (\<lambda>m. (n_host_id m, n_port_base m)) (set (nodes s))"
    using refs by (simp add: refs_inv_def refs_ok_def node_key_def comp_def distinct_map)
  have "0 < PORT_BLOCK" by (simp add: PORT_BLOCK_def)
  then obtain i where i: "n_port_base n = port_base_start (scheduler a) + PORT_BLOCK * int i"
      "n_port_base n \<le> port_base_end (scheduler a)"
    by (rule generate_series_elem [OF series [OF assms(3)]])
  have "port_base_start (scheduler a) \<le> n_port_base n" using i(1) by (simp add: PORT_BLOCK_def)
  moreover have "1024 \<le> port_base_start (scheduler a)" "port_base_end (scheduler a) \<le> 65535 - PORT_BLOCK"
    using assms(2) by (auto simp: validate_scheduler_def split: if_splits)
  moreover have "{n_port_base m ..< n_port_base m + PORT_BLOCK} \<inter> {n_port_base n ..< n_port_base n + PORT_BLOCK} = {}"
    if "m \<in> set (nodes s)" "m \<noteq> n" "n_host_id m = n_host_id n" for m
  proof (rule blocks_apart [OF series [OF that(1)] series [OF assms(3)]])
    show "n_port_base m \<noteq> n_port_base n" using inj_onD [OF keys _ that(1) assms(3)] that(2,3) by auto
  qed
  ultimately show ?thesis using i(2) by auto
qed

theorem port_blocks_disjoint_witness:
  "\<exists>s n. cp_reach demo_admin s \<and> validate_scheduler (scheduler demo_admin) = Inr () \<and> n \<in> set (nodes s)
    \<and> 1024 \<le> n_port_base n \<and> n_port_base n + PORT_BLOCK \<le> 65535"
proof -
  obtain s where s: "cp_reach demo_admin s" "demo_facts s" by (rule demo_store)
  then have n: "hd (nodes s) \<in> set (nodes s)" by (simp add: demo_facts_def)
  have v: "validate_scheduler (scheduler demo_admin) = Inr ()"
    by (simp add: demo_admin_def validate_scheduler_def share_ok_def PORT_BLOCK_def default_scheduler_config_def)
  show ?thesis using port_blocks_disjoint [OF s(1) v n] s(1) v n by blast
qed

subsection \<open>Answers\<close>

lemma step_on_grow:
  assumes "c \<in> set (claims now s)" "step_on a rnd now c s = Inr s'"
  shows "tasks_grow s s'"
proof (cases "list_ex (\<lambda>op. o_id op = c_operation_id c \<and> active op) (operations s)")
  case True
  then obtain r t where t: "run_step a rnd now c (running c s) = Inr (r, t)" "s' = settle_outcome now c r t"
    using assms(2) by (auto simp: step_on_def Let_def and_then_Inr running_def)
  have "tasks_grow s t" using run_step_opens(1) [OF t(1)] by (simp add: tasks_grow_def)
  then show ?thesis unfolding t(2) by (rule tasks_grow_trans [OF _ settle_outcome_grow])
qed (use assms(2) in \<open>simp add: step_on_def\<close>)

lemma delete_grow:
  assumes "delete rnd now i s = Inr (op, s')"
  shows "tasks_grow s s'"
  using assms
proof (rule delete_Inr)
  fix d assume "create_with rnd now i Delete (d_generation d) (JObj [])
    (set_status now i ''deleting'' None (superseded now i s)) = Inr (op, s')"
  then show ?thesis
    by (intro tasks_grow_update [where p = "\<lambda>t. t_database_id t = i"]) (simp add: create_with_frame(4) superseded_def)
qed

lemma answer_grow:
  assumes "task_result now h task success err out s = Inr s'"
  shows "tasks_grow s s'"
  using assms by (rule task_result_Inr) (rule tasks_grow_update [where p = "\<lambda>t. t_id t = task"], simp)

text \<open>C12. The outcome of a task is settled once: no transaction changes or removes a task that is no longer pending.\<close>

theorem settled_tasks_stand:
  assumes "cp_step a s s'" "t \<in> set (tasks s)" "t_status t \<noteq> ''pending''"
  shows "t \<in> set (tasks s')"
proof -
  have "tasks_grow s s'"
    using assms(1)
  proof (cases rule: cp_step_kinds)
    case begins
    then show ?thesis by (simp add: begins_def tasks_grow_def)
  next
    case begun
    then show ?thesis using begun_keeps(4) [OF begun] by (simp add: tasks_grow_def)
  next
    case step
    show ?thesis by (rule step_on_grow [OF step])
  next
    case delete
    show ?thesis by (rule delete_grow [OF delete])
  next
    case answer
    show ?thesis by (rule answer_grow [OF answer])
  qed
  then show ?thesis using assms(2,3) by (auto simp: tasks_grow_def)
qed
theorem settled_tasks_stand_witness:
  "\<exists>s t. cp_reach demo_admin s \<and> t \<in> set (tasks s) \<and> t_status t \<noteq> ''pending'' \<and> t \<in> set (tasks (sweep 0 s))"
proof -
  obtain s where s: "cp_reach demo_admin s" "demo_facts s" by (rule demo_store)
  then obtain t where t: "t \<in> set (tasks s)" "t_status t \<noteq> ''pending''"
    unfolding demo_facts_def list_ex_iff by blast
  have "t \<in> set (tasks (sweep 0 s))" by (rule settled_tasks_stand [OF cp_step.sweeps t])
  then show ?thesis using s(1) t by blast
qed

subsection \<open>A pass over the due steps ends\<close>

text \<open>The steps a pass can still claim, when its clock stays below \<open>bound\<close>.\<close>

definition due_before :: "time \<Rightarrow> store \<Rightarrow> step_row list" where
  "due_before bound s = filter (\<lambda>r. s_status r = ''pending'' \<and> s_not_before r < bound) (steps s)"

lemma filter_update_where_less:
  assumes "\<And>x. P (f x) \<Longrightarrow> False" "x \<in> set xs" "q x" "P x"
  shows "length (filter P (update_where q f xs)) < length (filter P xs)"
  using assms(2)
proof (induction xs)
  case (Cons y ys)
  have le: "length (filter P (update_where q f zs)) \<le> length (filter P zs)" for zs
    by (induction zs) (auto simp: update_where_def dest: assms(1))
  show ?case
  proof (cases "x = y")
    case True
    then show ?thesis using le [of ys] assms(1,3,4) by (auto simp: update_where_def)
  next
    case False
    then show ?thesis using Cons assms(1) by (auto simp: update_where_def)
  qed
qed simp

lemma settle_outcome_rows:
  "\<exists>f. steps (settle_outcome now c r s) = update_where (\<lambda>x. s_operation_id x = c_operation_id c \<and> s_seq x = c_seq c) f (steps s)
    \<and> (\<forall>x. s_status (f x) \<noteq> ''pending'' \<or> s_not_before (f x) = now + WAIT_RETRY)"
  by (cases r) (auto simp: settle_outcome_def finish_step_def fail_step_def postpone_def mark_step_def Let_def intro!: exI)

lemma step_on_rows:
  assumes "c \<in> set (claims now s)" "step_on a rnd now c s = Inr s'" "now < bound" "bound \<le> now + WAIT_RETRY"
  shows "length (due_before bound s') < length (due_before bound s)"
proof -
  obtain st op where claim: "c = claim_of now st op" "st \<in> set (steps s)" "op \<in> set (operations s)" "claimable now s st op"
    using assms(1) by (auto simp: claims_def)
  then have active: "list_ex (\<lambda>op. o_id op = c_operation_id c \<and> active op) (operations s)"
    by (auto simp: list_ex_iff claimable_def claim_of_def)
  then obtain r t where t: "run_step a rnd now c (running c s) = Inr (r, t)" "s' = settle_outcome now c r t"
    using assms(2) by (auto simp: step_on_def Let_def and_then_Inr running_def)
  have "steps t = steps s" using run_step_same_ops [OF t(1)] by (simp add: same_ops_def)
  then obtain f where f: "steps s' = update_where (\<lambda>x. s_operation_id x = c_operation_id c \<and> s_seq x = c_seq c) f (steps s)"
      "\<And>x. s_status (f x) \<noteq> ''pending'' \<or> s_not_before (f x) = now + WAIT_RETRY"
    using settle_outcome_rows [of now c r t] unfolding t(2) by auto
  show ?thesis
    unfolding due_before_def f(1)
  proof (rule filter_update_where_less [where x = st])
    show "s_status (f x) = ''pending'' \<and> s_not_before (f x) < bound \<Longrightarrow> False" for x
      using f(2) [of x] assms(4) by auto
  qed (use claim assms(3) in \<open>auto simp: claim_of_def claimable_def\<close>)
qed

lemma run_due_ends:
  assumes "\<And>k. snd (draw k) < bound" "\<And>k. bound \<le> snd (draw k) + WAIT_RETRY" "length (due_before bound s) < fuel"
  shows "\<exists>s'. run_due a draw fuel k s = Some s'"
  using assms(3)
proof (induction fuel arbitrary: k s)
  case (Suc fuel)
  show ?case
  proof (cases "claims (snd (draw k)) s")
    case Nil
    then show ?thesis by (simp add: step_once_def)
  next
    case (Cons c cs)
    show ?thesis
    proof (cases "step_on a (fst (draw k)) (snd (draw k)) c s")
      case (Inr t)
      have "length (due_before bound t) < length (due_before bound s)"
        by (rule step_on_rows [OF _ Inr assms(1,2)]) (simp add: Cons)
      then have "length (due_before bound t) < fuel" using Suc.prems by simp
      then show ?thesis using Suc.IH [of t "k + 1"] Inr Cons by (simp add: step_once_def)
    qed (simp add: step_once_def Cons)
  qed
qed simp

text \<open>C13. A pass of the reconciler over the due steps ends: if its clock readings span less than the five seconds a
  waiting step is put off for, it runs at most as many steps as there are rows, whatever hosts answered.\<close>

theorem reconciler_pass_ends:
  assumes "\<And>k. began \<le> snd (draw k)" "\<And>k. snd (draw k) < began + WAIT_RETRY"
  shows "\<exists>s'. run_due a draw (Suc (length (steps s))) 0 s = Some s'"
proof (rule run_due_ends)
  show "snd (draw k) < began + WAIT_RETRY" "began + WAIT_RETRY \<le> snd (draw k) + WAIT_RETRY" for k
    using assms by simp_all
  show "length (due_before (began + WAIT_RETRY) s) < Suc (length (steps s))"
    by (simp add: due_before_def le_imp_less_Suc)
qed

theorem reconciler_pass_ends_witness:
  "\<exists>s s'. cp_reach demo_admin s \<and> operations s \<noteq> [] \<and> run_due demo_admin (\<lambda>k. (demo_rnd, 0)) (Suc (length (steps s))) 0 s = Some s'"
proof -
  obtain s where s: "cp_reach demo_admin s" "demo_facts s" by (rule demo_store)
  have "\<exists>s'. run_due demo_admin (\<lambda>k. (demo_rnd, 0)) (Suc (length (steps s))) 0 s = Some s'"
    by (rule reconciler_pass_ends [where began = 0]) (simp_all add: WAIT_RETRY_def secs_def)
  then show ?thesis using s by (auto simp: demo_facts_def)
qed

subsection \<open>A step that fails without an outcome\<close>

text \<open>
  An error in a step rolls its transaction back and nothing else records it, so the
  step stays the first to be claimed. Deleting a replica that was never placed is
  such a step: every pass stops at it, and no later step of any database runs.
\<close>

lemma unplaced_replica_blocks_the_pass:
  assumes "claims (snd (draw k)) s = c # cs" "c_name c = ''remove_replica''"
    "spec_of_database s (c_database_id c) = Inr spec" "replica_of spec = Some src"
    "\<And>n. n \<in> set (nodes s) \<Longrightarrow> n_database_id n \<noteq> c_database_id c"
  shows "run_due a draw (Suc fuel) k s = Some s"
proof -
  have active: "list_ex (\<lambda>op. o_id op = c_operation_id c \<and> active op) (operations s)"
  proof -
    have "c \<in> set (claims (snd (draw k)) s)" by (simp add: assms(1))
    then show ?thesis by (auto simp: claims_def claimable_def claim_of_def list_ex_iff)
  qed
  have source: "replica_source_of (running c s) (c_database_id c) = Inr (Some src)"
    using assms(3,4) by (simp add: replica_source_of_def spec_of_database_def database_at_def)
  have "filter (\<lambda>(n, h). n_database_id n = c_database_id c) (nodes_hosts (running c s)) = []"
    using assms(5) by (auto simp: filter_empty_conv nodes_hosts_def)
  then have "replica_task (fst (draw k)) (snd (draw k)) c ''remove_replica'' (running c s) = Inl ''no rows returned''"
    by (simp add: replica_task_def source fetch_one_def)
  then have "step_on a (fst (draw k)) (snd (draw k)) c s = Inl ''no rows returned''"
    using active assms(2) source by (simp add: step_on_def Let_def running_def run_step_def)
  then show ?thesis by (simp add: step_once_def assms(1))
qed

end
