(* ===== verification/Fleet_Rotation.thy ===== *)
theory Fleet_Rotation
  imports Admin_Demo
begin

text \<open>
  What the rotations of \<open>Admin_Rotation\<close> guarantee. Sealing everything again with a
  new key loses nothing. During a rotation of the admin CA no enrolled host is
  locked out: here the host's side is \<open>AdminClient\<close> of
  \<open>vk-agent/src/host/client.rs\<close>, the files that hold the CAs it trusts and its
  client certificate, and a run interleaves hosts, service and restarts.
\<close>

section \<open>The key that seals secrets\<close>

text \<open>The laws of the libraries: what is sealed opens to itself, and a JSON value written again reads the same.\<close>

definition cipher_laws :: "libs \<Rightarrow> bool" where
  "cipher_laws l \<longleftrightarrow>
    (\<forall>k n p c b. lib_encrypt l k n p c = Some b \<longrightarrow> lib_decrypt l k n b c = Some p)
    \<and> (\<forall>p q. value_to_vec l p = Some q \<longrightarrow>
         database_from_slice l q = database_from_slice l p \<and> node_from_slice l q = node_from_slice l p
         \<and> credentials_from_slice l q = credentials_from_slice l p \<and> string_from_slice l q = string_from_slice l p)"

definition without_previous :: "admin \<Rightarrow> admin" where
  "without_previous a = a\<lparr>secrets := (secrets a)\<lparr>previous_cipher := None\<rparr>\<rparr>"

lemma seal_opens:
  assumes "seal a rnd context plain = Inr sealed" "cipher_laws (admin_libs a)" "\<And>x. length (rnd x) \<ge> NONCE_LEN"
  shows "unseal a context sealed = Inr plain" "unseal (without_previous a) context sealed = Inr plain"
proof -
  obtain body where body: "lib_encrypt (admin_libs a) (cipher (secrets a)) (take NONCE_LEN (rnd (''nonce '' @ context))) plain context = Some body"
      "sealed = take NONCE_LEN (rnd (''nonce '' @ context)) @ body"
    using assms(1) by (auto simp: seal_def Let_def split: option.splits)
  have "length (take NONCE_LEN (rnd (''nonce '' @ context))) = NONCE_LEN" using assms(3) by simp
  then show "unseal a context sealed = Inr plain" "unseal (without_previous a) context sealed = Inr plain"
    using body assms(2) by (auto simp: unseal_def cipher_laws_def without_previous_def)
qed

lemma reseal_Inr:
  assumes "reseal a rnd context sealed = Inr again" "cipher_laws (admin_libs a)" "\<And>x. length (rnd x) \<ge> NONCE_LEN"
  obtains p q where "unseal a context sealed = Inr p" "value_to_vec (admin_libs a) p = Some q"
    "unseal (without_previous a) context again = Inr q"
proof -
  obtain p q where pq: "unseal a context sealed = Inr p" "value_to_vec (admin_libs a) p = Some q" "seal a rnd context q = Inr again"
    using assms(1) by (auto simp: reseal_def and_then_Inr)
  then show ?thesis using that seal_opens(2) [OF pq(3) assms(2,3)] by blast
qed

lemma admin_libs_without [simp]: "admin_libs (without_previous a) = admin_libs a"
  by (simp add: without_previous_def)

lemma reseal_opens:
  assumes "reseal a rnd context sealed = Inr again" "cipher_laws (admin_libs a)" "\<And>x. length (rnd x) \<ge> NONCE_LEN"
  shows "open_database (without_previous a) context again = open_database a context sealed"
    "open_node (without_previous a) context again = open_node a context sealed"
    "and_then (unseal (without_previous a) context again) (\<lambda>p. ok_or (credentials_from_slice (admin_libs a) p) ''invalid JSON'')
      = and_then (unseal a context sealed) (\<lambda>p. ok_or (credentials_from_slice (admin_libs a) p) ''invalid JSON'')"
    "and_then (unseal (without_previous a) context again) (\<lambda>p. ok_or (string_from_slice (admin_libs a) p) ''invalid JSON'')
      = and_then (unseal a context sealed) (\<lambda>p. ok_or (string_from_slice (admin_libs a) p) ''invalid JSON'')"
proof -
  obtain p q where "unseal a context sealed = Inr p" "value_to_vec (admin_libs a) p = Some q"
    "unseal (without_previous a) context again = Inr q"
    by (rule reseal_Inr [OF assms])
  then show "open_database (without_previous a) context again = open_database a context sealed"
    "open_node (without_previous a) context again = open_node a context sealed"
    "and_then (unseal (without_previous a) context again) (\<lambda>p. ok_or (credentials_from_slice (admin_libs a) p) ''invalid JSON'')
      = and_then (unseal a context sealed) (\<lambda>p. ok_or (credentials_from_slice (admin_libs a) p) ''invalid JSON'')"
    "and_then (unseal (without_previous a) context again) (\<lambda>p. ok_or (string_from_slice (admin_libs a) p) ''invalid JSON'')
      = and_then (unseal a context sealed) (\<lambda>p. ok_or (string_from_slice (admin_libs a) p) ''invalid JSON'')"
    using assms(2) by (auto simp: open_database_def open_node_def cipher_laws_def)
qed

text \<open>What a row's sealed value opens to.\<close>

definition database_opens :: "admin \<Rightarrow> database_row \<Rightarrow> (string \<times> (string + database_secrets) option)" where
  "database_opens a d = (d_id d, map_option (open_database a (d_id d)) (d_secrets d))"

definition node_opens :: "admin \<Rightarrow> node_row \<Rightarrow> string \<times> string \<times> (string + node_secrets)" where
  "node_opens a n = (n_database_id n, n_node n, open_node a (node_context (n_database_id n) (n_node n)) (n_secrets n))"

lemma reseal_all_Inr:
  assumes "reseal_all a rnd s = Inr (k, t)" "cipher_laws (admin_libs a)" "\<And>x. length (rnd x) \<ge> NONCE_LEN"
  shows "map (database_opens (without_previous a)) (databases t) = map (database_opens a) (databases s)"
    "map (node_opens (without_previous a)) (nodes t) = map (node_opens a) (nodes s)"
    "repository_of (without_previous a) t i = repository_of a s i"
    "map_option (new_ca (without_previous a)) (ca_rotation t) = map_option (new_ca a) (ca_rotation s)"
proof -
  note ok = reseal_opens [OF _ assms(2,3)]
  have ds: "list_all2 (\<lambda>d d'. reseal_database a rnd d = Inr d') (databases s) (databases t)"
    and ns: "list_all2 (\<lambda>n n'. reseal_node a rnd n = Inr n') (nodes s) (nodes t)"
    and rs: "list_all2 (\<lambda>r r'. reseal_repository a rnd r = Inr r') (repositories s) (repositories t)"
    and ro: "reseal_rotation a rnd (ca_rotation s) = Inr (ca_rotation t)"
    using assms(1) by (auto simp: reseal_all_def and_then_Inr collect_results_map)
  show "map (database_opens (without_previous a)) (databases t) = map (database_opens a) (databases s)"
    using ds by (induction rule: list_all2_induct)
      (auto simp: reseal_database_def database_opens_def and_then_Inr ok(1) split: option.splits)
  show "map (node_opens (without_previous a)) (nodes t) = map (node_opens a) (nodes s)"
    using ns by (induction rule: list_all2_induct) (auto simp: reseal_node_def node_opens_def and_then_Inr ok(2))
  have "rel_option (\<lambda>r r'. reseal_repository a rnd r = Inr r')
      (find (\<lambda>r. r_id r = i) (repositories s)) (find (\<lambda>r. r_id r = i) (repositories t))"
    using rs by (induction rule: list_all2_induct) (auto simp: reseal_repository_def and_then_Inr split: option.splits)
  then show "repository_of (without_previous a) t i = repository_of a s i"
  proof cases
    case None
    then show ?thesis by (simp add: repository_of_def)
  next
    case (Some r r')
    then have "i = r_id r" by (auto simp: find_Some_iff)
    then show ?thesis
      using Some ok(3)
      by (cases "r_credentials r") (auto simp: repository_of_def reseal_repository_def and_then_Inr)
  qed
  have "new_ca (without_previous a) r' = new_ca a r"
    if "reseal a rnd NEW_KEY_CONTEXT (new_key r) = Inr x" "r' = r\<lparr>new_key := x\<rparr>" for r r' x
    using ok(4) [OF that(1)] that(2) by (simp add: new_ca_def and_then_assoc [symmetric])
  then show "map_option (new_ca (without_previous a)) (ca_rotation t) = map_option (new_ca a) (ca_rotation s)"
    using ro by (cases "ca_rotation s")
      (auto simp: reseal_rotation_def and_then_Inr eq_commute [of _ "ca_rotation t"])
qed

section \<open>The host\<close>

text \<open>
  The files of a host: the bundle of CAs it trusts and its client certificate. The
  HTTP client is built from both, and is rebuilt whenever one changes.
\<close>

record host_files =
  file_ca :: string
  file_cert :: string

definition ca_fingerprint :: "admin \<Rightarrow> host_files \<Rightarrow> string" where
  "ca_fingerprint a f = lib_sha256_hex (admin_libs a) (file_ca f)"

definition trust :: "admin \<Rightarrow> string \<Rightarrow> host_files \<Rightarrow> host_files" where
  "trust a bundle f =
    (if ca_fingerprint a f = lib_sha256_hex (admin_libs a) bundle then f else f\<lparr>file_ca := bundle\<rparr>)"

definition publish :: "admin \<Rightarrow> desired_state \<Rightarrow> host_files \<Rightarrow> host_files" where
  "publish a d f = (case desired_ca d of Some ca \<Rightarrow> trust a (bundle_pem ca) f | None \<Rightarrow> f)"

section \<open>The fleet\<close>

text \<open>
  The service, the metadata database and the files of every enrolled host.
  \<open>certs pem\<close> are the certificates of a PEM text, \<open>issuer pem\<close> is the CA that
  signed a certificate and \<open>sign ca\<close> is \<open>sign_host_csr\<close>: what TLS and \<open>rcgen\<close>
  make of PEM texts. A host enrols once, since its token is for one use. A step of
  the service is taken when it succeeds. \<open>lossy\<close> says whether the answer to a renewal can be lost.
\<close>

record fleet =
  fl_store :: store
  fl_service :: service
  fl_files :: "string \<rightharpoonup> host_files"

record tls =
  certs :: "string \<Rightarrow> string set"
  issuer :: "string \<Rightarrow> string"
  sign :: "ca \<Rightarrow> string \<Rightarrow> string \<Rightarrow> string + string"

definition tls_laws :: "tls \<Rightarrow> admin \<Rightarrow> bool" where
  "tls_laws w a \<longleftrightarrow>
    (\<forall>p q. certs w (p @ [CHR 0x0A] @ q) = certs w p \<union> certs w q)
    \<and> (\<forall>ca csr h c. sign w ca csr h = Inr c \<longrightarrow> issuer w c = ca_cert ca)
    \<and> (\<forall>ca names r c. ca_issue_server (admin_libs a) ca names r = Inr c \<longrightarrow> issuer w (issued_cert_pem c) = ca_cert ca)
    \<and> (\<forall>name r ca. ca_generate (admin_libs a) name r = Inr ca \<longrightarrow> ca_cert ca \<in> certs w (ca_cert ca))
    \<and> (\<forall>cert key ca. ca_from_pem (admin_libs a) cert key = Inr ca \<longrightarrow> ca_cert ca = cert)
    \<and> inj (lib_sha256_hex (admin_libs a))"

text \<open>Both sides of the handshake: the host trusts what the agent API presents, and the agent API the host.\<close>

definition handshake :: "tls \<Rightarrow> service \<Rightarrow> host_files \<Rightarrow> bool" where
  "handshake w v f \<longleftrightarrow>
    (case service_listeners v of
       None \<Rightarrow> False
     | Some l \<Rightarrow> issuer w (issued_cert_pem (agent_presents l)) \<in> certs w (file_ca f)
         \<and> issuer w (file_cert f) \<in> (\<Union>p \<in> set (agent_trusted l). certs w p))"

text \<open>What a rotation looks at in a host's row.\<close>

definition host_key :: "host_row \<Rightarrow> string \<times> bool \<times> string option \<times> string option" where
  "host_key h = (h_id h, h_enrolled_at h \<noteq> None, h_ca_fingerprint h, h_certificate_ca h)"

definition fresh_ca :: "admin \<Rightarrow> rotation_row \<Rightarrow> store \<Rightarrow> bool" where
  "fresh_ca a r s \<longleftrightarrow> new_cert_pem r \<noteq> old_cert_pem r
    \<and> (\<forall>h \<in> set (hosts s). h_ca_fingerprint h \<noteq> Some (lib_sha256_hex (admin_libs a) (rotation_bundle r))
        \<and> h_certificate_ca h \<noteq> Some (lib_sha256_hex (admin_libs a) (new_cert_pem r)))"

inductive fleet_step :: "tls \<Rightarrow> admin \<Rightarrow> bool \<Rightarrow> fleet \<Rightarrow> fleet \<Rightarrow> bool" for w a lossy where
  elsewhere: "map host_key (hosts s') = map host_key (hosts s) \<Longrightarrow> ca_rotation s' = ca_rotation s \<Longrightarrow>
    fleet_step w a lossy \<lparr>fl_store = s, fl_service = v, fl_files = fs\<rparr> \<lparr>fl_store = s', fl_service = v, fl_files = fs\<rparr>"
| joins: "create_host token_hash rnd now name fd s = Inr (r, s') \<Longrightarrow>
    fleet_step w a lossy \<lparr>fl_store = s, fl_service = v, fl_files = fs\<rparr> \<lparr>fl_store = s', fl_service = v, fl_files = fs\<rparr>"
| leaves: "delete_host i s = Inr (u, s') \<Longrightarrow>
    fleet_step w a lossy \<lparr>fl_store = s, fl_service = v, fl_files = fs\<rparr> \<lparr>fl_store = s', fl_service = v, fl_files = fs\<rparr>"
| enrols: "enroll (sign w (service_ca v)) (lib_sha256_hex (admin_libs a) (ca_cert (service_ca v))) now hash csr s = Inr ((i, c), s') \<Longrightarrow>
    service_listeners v = Some l \<Longrightarrow> issuer w (issued_cert_pem (agent_presents l)) \<in> certs w (ca_cert (service_ca v)) \<Longrightarrow>
    list_all (\<lambda>h. h_id h = i \<longrightarrow> h_enrolled_at h = None) (hosts s) \<Longrightarrow>
    fleet_step w a lossy \<lparr>fl_store = s, fl_service = v, fl_files = fs\<rparr>
      \<lparr>fl_store = s', fl_service = v, fl_files = fs(i \<mapsto> \<lparr>file_ca = ca_cert (service_ca v), file_cert = c\<rparr>)\<rparr>"
| reads: "fs i = Some f \<Longrightarrow> handshake w v f \<Longrightarrow> known_host s (Some i) = Inr i \<Longrightarrow>
    build_desired_state a i s = Inr d \<Longrightarrow>
    fleet_step w a lossy \<lparr>fl_store = s, fl_service = v, fl_files = fs\<rparr>
      \<lparr>fl_store = s, fl_service = v, fl_files = fs(i \<mapsto> publish a d f)\<rparr>"
| reports_in: "fs i = Some f \<Longrightarrow> handshake w v f \<Longrightarrow> known_host s (Some i) = Inr i \<Longrightarrow>
    hr_ca_fingerprint r = Some (ca_fingerprint a f) \<Longrightarrow> report now i r s = Inr s' \<Longrightarrow>
    fleet_step w a lossy \<lparr>fl_store = s, fl_service = v, fl_files = fs\<rparr> \<lparr>fl_store = s', fl_service = v, fl_files = fs\<rparr>"
| renews_certificate: "fs i = Some f \<Longrightarrow> handshake w v f \<Longrightarrow> known_host s (Some i) = Inr i \<Longrightarrow>
    rotate_certificate (sign w (service_ca v)) (lib_sha256_hex (admin_libs a) (ca_cert (service_ca v))) i csr s = Inr (c, s') \<Longrightarrow>
    fleet_step w a lossy \<lparr>fl_store = s, fl_service = v, fl_files = fs\<rparr>
      \<lparr>fl_store = s', fl_service = v, fl_files = fs(i \<mapsto> f\<lparr>file_cert := c\<rparr>)\<rparr>"
| loses_answer: "lossy \<Longrightarrow> fs i = Some f \<Longrightarrow> handshake w v f \<Longrightarrow> known_host s (Some i) = Inr i \<Longrightarrow>
    rotate_certificate (sign w (service_ca v)) (lib_sha256_hex (admin_libs a) (ca_cert (service_ca v))) i csr s = Inr (c, s') \<Longrightarrow>
    fleet_step w a lossy \<lparr>fl_store = s, fl_service = v, fl_files = fs\<rparr> \<lparr>fl_store = s', fl_service = v, fl_files = fs\<rparr>"
| starts: "start_rotation a rnd s v = (Inr st, s', v') \<Longrightarrow> ca_rotation s' = Some r \<Longrightarrow> fresh_ca a r s \<Longrightarrow>
    fleet_step w a lossy \<lparr>fl_store = s, fl_service = v, fl_files = fs\<rparr> \<lparr>fl_store = s', fl_service = v', fl_files = fs\<rparr>"
| advances: "advance_rotation a rnd s v = (Inr (), s', v') \<Longrightarrow>
    fleet_step w a lossy \<lparr>fl_store = s, fl_service = v, fl_files = fs\<rparr> \<lparr>fl_store = s', fl_service = v', fl_files = fs\<rparr>"
| restarts_service: "service_listeners v = Some l \<Longrightarrow> start_service a rnd (server_names l) (ca_dir v) = Inr u \<Longrightarrow>
    resume a rnd' s u = (Inr (), v') \<Longrightarrow>
    fleet_step w a lossy \<lparr>fl_store = s, fl_service = v, fl_files = fs\<rparr> \<lparr>fl_store = s, fl_service = v', fl_files = fs\<rparr>"

inductive fleet_reach :: "tls \<Rightarrow> admin \<Rightarrow> bool \<Rightarrow> fleet \<Rightarrow> bool" for w a lossy where
  begin_fleet: "start_service a rnd names ca = Inr v \<Longrightarrow> ca_cert ca \<in> certs w (ca_cert ca) \<Longrightarrow> ca_rotation s = None \<Longrightarrow>
    hosts s = [] \<Longrightarrow> fleet_reach w a lossy \<lparr>fl_store = s, fl_service = v, fl_files = Map.empty\<rparr>"
| next_fleet: "fleet_reach w a lossy x \<Longrightarrow> fleet_step w a lossy x y \<Longrightarrow> fleet_reach w a lossy y"

text \<open>Where the service stands: the CA on disk, the CA it signs and listens with, and the CAs it trusts.\<close>

definition service_at :: "tls \<Rightarrow> service \<Rightarrow> string \<Rightarrow> string \<Rightarrow> string set \<Rightarrow> bool" where
  "service_at w v stored signer trusted \<longleftrightarrow>
    (\<exists>l. service_listeners v = Some l \<and> ca_cert (service_ca v) = signer \<and> ca_cert (ca_dir v) = stored
      \<and> issuer w (issued_cert_pem (agent_presents l)) = signer \<and> set (agent_trusted l) = trusted)"

definition hosts_at :: "(host_row \<Rightarrow> host_files \<Rightarrow> bool) \<Rightarrow> store \<Rightarrow> (string \<rightharpoonup> host_files) \<Rightarrow> bool" where
  "hosts_at p s fs \<longleftrightarrow>
    (\<forall>h \<in> set (hosts s). if h_enrolled_at h = None then h_ca_fingerprint h = None
      else \<exists>f. fs (h_id h) = Some f \<and> p h f)"

text \<open>What each phase asks of a host.\<close>

definition rotation_ok :: "tls \<Rightarrow> admin \<Rightarrow> rotation_row \<Rightarrow> host_row \<Rightarrow> host_files \<Rightarrow> bool" where
  "rotation_ok w a r h f \<longleftrightarrow>
    (if phase r = ''trust'' then
       old_cert_pem r \<in> certs w (file_ca f) \<and> issuer w (file_cert f) = old_cert_pem r
       \<and> (h_ca_fingerprint h = Some (lib_sha256_hex (admin_libs a) (rotation_bundle r)) \<longrightarrow> file_ca f = rotation_bundle r)
       \<and> h_certificate_ca h \<noteq> Some (lib_sha256_hex (admin_libs a) (new_cert_pem r))
     else if phase r = ''issue'' then
       new_cert_pem r \<in> certs w (file_ca f) \<and> issuer w (file_cert f) \<in> {old_cert_pem r, new_cert_pem r}
       \<and> (h_certificate_ca h = Some (lib_sha256_hex (admin_libs a) (new_cert_pem r)) \<longrightarrow> issuer w (file_cert f) = new_cert_pem r)
     else new_cert_pem r \<in> certs w (file_ca f) \<and> issuer w (file_cert f) = new_cert_pem r)"

definition steady :: "tls \<Rightarrow> string \<Rightarrow> host_row \<Rightarrow> host_files \<Rightarrow> bool" where
  "steady w c h f \<longleftrightarrow> c \<in> certs w (file_ca f) \<and> issuer w (file_cert f) = c"

definition rotating :: "tls \<Rightarrow> rotation_row \<Rightarrow> service \<Rightarrow> bool" where
  "rotating w r v \<longleftrightarrow>
    old_cert_pem r \<in> certs w (old_cert_pem r) \<and> new_cert_pem r \<in> certs w (new_cert_pem r) \<and> old_cert_pem r \<noteq> new_cert_pem r
    \<and> (if phase r = ''trust'' then service_at w v (old_cert_pem r) (old_cert_pem r) {old_cert_pem r, new_cert_pem r}
       else if phase r = ''issue'' then service_at w v (old_cert_pem r) (new_cert_pem r) {old_cert_pem r, new_cert_pem r}
       else phase r = ''trim'' \<and> service_at w v (new_cert_pem r) (new_cert_pem r) {new_cert_pem r})"

definition fleet_inv :: "tls \<Rightarrow> admin \<Rightarrow> store \<Rightarrow> service \<Rightarrow> (string \<rightharpoonup> host_files) \<Rightarrow> bool" where
  "fleet_inv w a s v fs \<longleftrightarrow> distinct (map h_id (hosts s)) \<and>
    (case ca_rotation s of
       None \<Rightarrow> (\<exists>c. c \<in> certs w c \<and> service_at w v c c {c} \<and> hosts_at (steady w c) s fs)
     | Some r \<Rightarrow> rotating w r v \<and> hosts_at (rotation_ok w a r) s fs)"

lemma apply_phase_at:
  assumes "apply_phase a rnd r v = (Inr (), v')" "service_listeners v = Some l" "tls_laws w a"
  shows "service_at w v' (if phase r = ''trim'' then new_cert_pem r else ca_cert (ca_dir v))
    (if phase r = ''trust'' then ca_cert (service_ca v) else new_cert_pem r)
    (if phase r = ''trim'' then {new_cert_pem r} else {old_cert_pem r, new_cert_pem r})"
proof -
  obtain ca where ca: "new_ca a r = Inr ca" using assms(1,2) by (auto simp: apply_phase_def split: sum.splits)
  then have "ca_cert ca = new_cert_pem r" using assms(3) by (auto simp: new_ca_def and_then_Inr tls_laws_def)
  moreover have "issuer w (issued_cert_pem c) = ca_cert ca" if "ca_issue_server (admin_libs a) ca names x = Inr c" for ca names x c
    using assms(3) that by (simp add: tls_laws_def)
  ultimately show ?thesis
    using assms(1,2) ca by (auto simp: apply_phase_def Let_def service_at_def split: sum.splits if_splits)
qed

lemma hosts_at_weaken:
  assumes "hosts_at p s fs"
    "\<And>h f. h \<in> set (hosts s) \<Longrightarrow> h_enrolled_at h \<noteq> None \<Longrightarrow> fs (h_id h) = Some f \<Longrightarrow> p h f \<Longrightarrow> q h f"
    "hosts s' = hosts s"
  shows "hosts_at q s' fs"
  unfolding hosts_at_def assms(3)
proof
  fix h assume h: "h \<in> set (hosts s)"
  then have "if h_enrolled_at h = None then h_ca_fingerprint h = None else \<exists>f. fs (h_id h) = Some f \<and> p h f"
    using assms(1) by (simp add: hosts_at_def)
  then show "if h_enrolled_at h = None then h_ca_fingerprint h = None else \<exists>f. fs (h_id h) = Some f \<and> q h f"
    using assms(2) [OF h] by (cases "h_enrolled_at h = None") auto
qed

lemma rotation_ok_key: "host_key h' = host_key h \<Longrightarrow> rotation_ok w a r h' = rotation_ok w a r h"
  by (auto simp: host_key_def rotation_ok_def fun_eq_iff)

lemma steady_key: "steady w c h' = steady w c h"
  by (simp add: steady_def fun_eq_iff)

lemma hosts_at_key:
  assumes "map host_key (hosts s') = map host_key (hosts s)" "hosts_at p s fs" "\<And>h h'. host_key h' = host_key h \<Longrightarrow> p h' = p h"
  shows "hosts_at p s' fs"
  unfolding hosts_at_def
proof
  fix h' assume "h' \<in> set (hosts s')"
  then have "host_key h' \<in> set (map host_key (hosts s'))" by simp
  then obtain h where h: "h \<in> set (hosts s)" "host_key h' = host_key h" unfolding assms(1) by auto
  then show "if h_enrolled_at h' = None then h_ca_fingerprint h' = None else \<exists>f. fs (h_id h') = Some f \<and> p h' f"
    using assms(2) assms(3) [OF h(2)] unfolding hosts_at_def by (auto simp: host_key_def)
qed

lemma hosts_at_update:
  assumes "hosts_at p s fs" "hosts s' = update_where (\<lambda>h. h_id h = i) g (hosts s)" "\<And>h. h_id (g h) = h_id h"
    "\<And>h. h \<in> set (hosts s) \<Longrightarrow> h_id h = i \<Longrightarrow>
      if h_enrolled_at (g h) = None then h_ca_fingerprint (g h) = None else p (g h) f"
  shows "hosts_at p s' (fs(i \<mapsto> f))"
  unfolding hosts_at_def
proof
  fix h' assume "h' \<in> set (hosts s')"
  then obtain h where h: "h \<in> set (hosts s)" "h' = (if h_id h = i then g h else h)"
    unfolding assms(2) by (auto simp: update_where_def)
  show "if h_enrolled_at h' = None then h_ca_fingerprint h' = None else \<exists>f'. (fs(i \<mapsto> f)) (h_id h') = Some f' \<and> p h' f'"
  proof (cases "h_id h = i")
    case True
    then show ?thesis using assms(3,4) h by auto
  next
    case False
    then show ?thesis using assms(1) h by (auto simp: hosts_at_def)
  qed
qed

lemma update_where_id: "update_where p (\<lambda>x. x) xs = xs"
  by (simp add: update_where_def)

lemma hosts_at_row:
  assumes "hosts_at p s fs" "h \<in> set (hosts s)" "h_enrolled_at h \<noteq> None" "fs (h_id h) = Some f"
  shows "p h f"
  using assms by (fastforce simp: hosts_at_def)

lemma hosts_at_blank: "hosts_at p s fs \<Longrightarrow> h \<in> set (hosts s) \<Longrightarrow> h_enrolled_at h = None \<Longrightarrow> h_ca_fingerprint h = None"
  by (fastforce simp: hosts_at_def)

text \<open>The steps of hosts.\<close>

lemma trust_file: "inj (lib_sha256_hex (admin_libs a)) \<Longrightarrow> trust a bundle f = f\<lparr>file_ca := bundle\<rparr>"
  by (simp add: trust_def ca_fingerprint_def inj_eq)

lemma bundle_certs:
  "tls_laws w a \<Longrightarrow> certs w (rotation_bundle r) =
    (if phase r = ''trim'' then certs w (new_cert_pem r) else certs w (new_cert_pem r) \<union> certs w (old_cert_pem r))"
  by (simp add: tls_laws_def rotation_bundle_def del: append.simps)

lemma rotating_cases:
  assumes "rotating w r v"
  obtains (trust) "phase r = ''trust''" "service_at w v (old_cert_pem r) (old_cert_pem r) {old_cert_pem r, new_cert_pem r}"
    | (issue) "phase r = ''issue''" "service_at w v (old_cert_pem r) (new_cert_pem r) {old_cert_pem r, new_cert_pem r}"
    | (trim) "phase r = ''trim''" "service_at w v (new_cert_pem r) (new_cert_pem r) {new_cert_pem r}"
proof -
  note h = assms [unfolded rotating_def]
  show ?thesis
  proof (cases "phase r = ''trust''")
    case True
    then show ?thesis using h that(1) by simp
  next
    case not_trust: False
    then show ?thesis using h that(2,3) by (cases "phase r = ''issue''") simp_all
  qed
qed

lemma publish_ok:
  assumes "rotation_ok w a r h f" "rotating w r v" "tls_laws w a"
  shows "rotation_ok w a r h (f\<lparr>file_ca := rotation_bundle r\<rparr>)"
proof -
  have self: "old_cert_pem r \<in> certs w (old_cert_pem r)" "new_cert_pem r \<in> certs w (new_cert_pem r)"
    using assms(2) by (simp_all add: rotating_def)
  show ?thesis
    using assms(2)
    by (cases rule: rotating_cases) (use assms(1) self bundle_certs [OF assms(3), of r] in \<open>simp_all add: rotation_ok_def\<close>)
qed

lemma reads_inv:
  assumes "fleet_inv w a s v fs" "fs i = Some f" "build_desired_state a i s = Inr d" "tls_laws w a"
  shows "fleet_inv w a s v (fs(i \<mapsto> publish a d f))"
proof -
  have d: "desired_ca d = for_hosts s" using assms(3) by (auto simp: build_desired_state_def and_then_Inr)
  show ?thesis
  proof (cases "ca_rotation s")
    case None
    then have "publish a d f = f" by (simp add: publish_def d for_hosts_def)
    then have "fs(i \<mapsto> publish a d f) = fs" using assms(2) by auto
    then show ?thesis using assms(1) by simp
  next
    case (Some r)
    have "inj (lib_sha256_hex (admin_libs a))" using assms(4) by (simp add: tls_laws_def)
    from trust_file [OF this] have pub: "publish a d f = f\<lparr>file_ca := rotation_bundle r\<rparr>" using Some by (simp add: publish_def d for_hosts_def)
    have rot: "rotating w r v" and at: "hosts_at (rotation_ok w a r) s fs"
      using assms(1) Some by (simp_all add: fleet_inv_def)
    have "hosts_at (rotation_ok w a r) s (fs(i \<mapsto> publish a d f))"
    proof (rule hosts_at_update [OF at, where g = "\<lambda>h. h"])
      fix h assume "h \<in> set (hosts s)" "h_id h = i"
      then show "if h_enrolled_at h = None then h_ca_fingerprint h = None else rotation_ok w a r h (publish a d f)"
        unfolding pub using hosts_at_blank [OF at] hosts_at_row [OF at] publish_ok [OF _ rot assms(4)] assms(2) by simp
    qed (simp_all add: update_where_id)
    then show ?thesis using Some rot assms(1) by (simp add: fleet_inv_def)
  qed
qed

lemma reports_inv:
  assumes "fleet_inv w a s v fs" "fs i = Some f" "hr_ca_fingerprint r = Some (ca_fingerprint a f)"
    "report now i r s = Inr s'" "tls_laws w a" "known_host s (Some i) = Inr i"
  shows "fleet_inv w a s' v fs"
proof -
  let ?g = "\<lambda>h. h\<lparr>h_observed_generation := hr_observed_generation r, h_version := Some (hr_version r),
            h_address := Some (hr_address r), h_capacity := Some (hr_capacity r),
            h_ca_fingerprint := hr_ca_fingerprint r, h_postgres_versions := hr_postgres_versions r,
            h_last_seen_at := Some now\<rparr>"
  have s': "hosts s' = update_where (\<lambda>h. h_id h = i) ?g (hosts s)" "ca_rotation s' = ca_rotation s"
    using assms(4) by (auto simp: report_def and_then_Inr)
  have "\<exists>h \<in> set (hosts s). h_id h = i \<and> h_enrolled_at h \<noteq> None"
    using assms(6) by (auto simp: known_host_def list_ex_iff split: if_splits)
  then have enrolled: "h_enrolled_at h \<noteq> None" if "h \<in> set (hosts s)" "h_id h = i" for h
    using that assms(1) by (auto simp: fleet_inv_def distinct_map inj_on_def)
  have ids: "distinct (map h_id (hosts s'))" using assms(1) s'(1) by (simp add: fleet_inv_def)
  have fs: "fs(i \<mapsto> f) = fs" using assms(2) by auto
  have keep: "hosts_at p s' fs" if at: "hosts_at p s fs" and p: "\<And>h. p h f \<Longrightarrow> p (?g h) f" for p
  proof -
    have "hosts_at p s' (fs(i \<mapsto> f))"
    proof (rule hosts_at_update [OF at s'(1)])
      fix h assume h: "h \<in> set (hosts s)" "h_id h = i"
      have "p h f" by (rule hosts_at_row [OF at h(1) enrolled [OF h]]) (simp add: h(2) assms(2))
      then show "if h_enrolled_at (?g h) = None then h_ca_fingerprint (?g h) = None else p (?g h) f"
        using p enrolled [OF h] by auto
    qed simp
    then show ?thesis unfolding fs .
  qed
  have inj: "inj (lib_sha256_hex (admin_libs a))" using assms(5) by (simp add: tls_laws_def)
  show ?thesis
  proof (cases "ca_rotation s")
    case None
    then obtain c where c: "c \<in> certs w c" "service_at w v c c {c}" "hosts_at (steady w c) s fs"
      using assms(1) by (auto simp: fleet_inv_def)
    have "hosts_at (steady w c) s' fs" by (rule keep [OF c(3)]) (simp add: steady_def)
    then show ?thesis using c None s'(2) ids by (auto simp: fleet_inv_def)
  next
    case (Some ro)
    then have at: "hosts_at (rotation_ok w a ro) s fs" "rotating w ro v" using assms(1) by (simp_all add: fleet_inv_def)
    have "hosts_at (rotation_ok w a ro) s' fs"
      by (rule keep [OF at(1)]) (simp add: rotation_ok_def assms(3) ca_fingerprint_def inj_eq [OF inj] split: if_splits)
    then show ?thesis using at(2) Some s'(2) ids by (simp add: fleet_inv_def)
  qed
qed

lemma service_at_ca: "service_at w v stored signer trusted \<Longrightarrow> ca_cert (service_ca v) = signer"
  by (auto simp: service_at_def)

lemma signed_ok:
  assumes "rotating w r v" "rotation_ok w a r h f" "issuer w c = ca_cert (service_ca v)" "inj (lib_sha256_hex (admin_libs a))"
  shows "rotation_ok w a r (h\<lparr>h_certificate_ca := Some (lib_sha256_hex (admin_libs a) (ca_cert (service_ca v)))\<rparr>)
    (f\<lparr>file_cert := c\<rparr>)"
proof -
  have ne: "old_cert_pem r \<noteq> new_cert_pem r" using assms(1) by (simp add: rotating_def)
  show ?thesis
    using assms(1)
    by (cases rule: rotating_cases)
      (use assms(2,3) ne service_at_ca in \<open>simp_all add: rotation_ok_def inj_eq [OF assms(4)]\<close>)
qed

lemma enrolled_ok:
  assumes "rotating w r v" "issuer w c = ca_cert (service_ca v)" "inj (lib_sha256_hex (admin_libs a))"
    "h_ca_fingerprint h = None" "h_certificate_ca h = Some (lib_sha256_hex (admin_libs a) (ca_cert (service_ca v)))"
  shows "rotation_ok w a r h \<lparr>file_ca = ca_cert (service_ca v), file_cert = c\<rparr>"
proof -
  have r: "old_cert_pem r \<noteq> new_cert_pem r" "old_cert_pem r \<in> certs w (old_cert_pem r)" "new_cert_pem r \<in> certs w (new_cert_pem r)"
    using assms(1) by (simp_all add: rotating_def)
  show ?thesis
    using assms(1)
    by (cases rule: rotating_cases)
      (use assms(2,4,5) r service_at_ca in \<open>simp_all add: rotation_ok_def inj_eq [OF assms(3)]\<close>)
qed

text \<open>The two ways a host's certificate is signed.\<close>

lemma signs_inv:
  assumes inv: "fleet_inv w a s v fs" and laws: "tls_laws w a"
    and s': "hosts s' = update_where (\<lambda>h. h_id h = i) g (hosts s)" "ca_rotation s' = ca_rotation s"
    and g: "\<And>h. h_id (g h) = h_id h" "\<And>h. h_ca_fingerprint (g h) = h_ca_fingerprint h"
    and rot: "\<And>r h. rotating w r v \<Longrightarrow> hosts_at (rotation_ok w a r) s fs \<Longrightarrow> h \<in> set (hosts s) \<Longrightarrow> h_id h = i \<Longrightarrow>
      h_enrolled_at (g h) \<noteq> None \<and> rotation_ok w a r (g h) f"
    and calm: "\<And>c h. c \<in> certs w c \<Longrightarrow> service_at w v c c {c} \<Longrightarrow> hosts_at (steady w c) s fs \<Longrightarrow> h \<in> set (hosts s) \<Longrightarrow> h_id h = i \<Longrightarrow>
      h_enrolled_at (g h) \<noteq> None \<and> steady w c (g h) f"
  shows "fleet_inv w a s' v (fs(i \<mapsto> f))"
proof (cases "ca_rotation s")
  case None
  then obtain c where c: "c \<in> certs w c" "service_at w v c c {c}" "hosts_at (steady w c) s fs"
    using inv by (auto simp: fleet_inv_def)
  have "hosts_at (steady w c) s' (fs(i \<mapsto> f))"
    by (rule hosts_at_update [OF c(3) s'(1) g(1)]) (simp add: calm [OF c, THEN conjunct1] calm [OF c, THEN conjunct2])
  then show ?thesis using c None s' g(1) inv by (auto simp: fleet_inv_def)
next
  case (Some r)
  then have at: "hosts_at (rotation_ok w a r) s fs" "rotating w r v" using inv by (simp_all add: fleet_inv_def)
  have "hosts_at (rotation_ok w a r) s' (fs(i \<mapsto> f))"
    by (rule hosts_at_update [OF at(1) s'(1) g(1)]) (simp add: rot [OF at(2,1), THEN conjunct1] rot [OF at(2,1), THEN conjunct2])
  then show ?thesis using at(2) Some s' g(1) inv by (simp add: fleet_inv_def)
qed

lemma known_host_row:
  assumes "known_host s (Some i) = Inr i" "distinct (map h_id (hosts s))" "h \<in> set (hosts s)" "h_id h = i"
  shows "h_enrolled_at h \<noteq> None"
  using assms by (auto simp: known_host_def list_ex_iff distinct_map inj_on_def split: if_splits)

lemma renews_inv:
  assumes "fleet_inv w a s v fs" "tls_laws w a" "fs i = Some f" "known_host s (Some i) = Inr i"
    "rotate_certificate (sign w (service_ca v)) (lib_sha256_hex (admin_libs a) (ca_cert (service_ca v))) i csr s = Inr (c, s')"
  shows "fleet_inv w a s' v (fs(i \<mapsto> f\<lparr>file_cert := c\<rparr>))"
proof -
  let ?g = "\<lambda>h. h\<lparr>h_certificate_ca := Some (lib_sha256_hex (admin_libs a) (ca_cert (service_ca v)))\<rparr>"
  have inj: "inj (lib_sha256_hex (admin_libs a))" and law: "\<And>ca csr h c. sign w ca csr h = Inr c \<Longrightarrow> issuer w c = ca_cert ca"
    using assms(2) by (simp_all add: tls_laws_def)
  have s': "sign w (service_ca v) csr i = Inr c" "hosts s' = update_where (\<lambda>h. h_id h = i) ?g (hosts s)"
    "ca_rotation s' = ca_rotation s"
    using assms(5) by (auto simp: rotate_certificate_def and_then_Inr)
  have iss: "issuer w c = ca_cert (service_ca v)" by (rule law [OF s'(1)])
  have enrolled: "h \<in> set (hosts s) \<Longrightarrow> h_id h = i \<Longrightarrow> h_enrolled_at h \<noteq> None" for h
    using known_host_row [OF assms(4)] assms(1) by (simp add: fleet_inv_def)
  show ?thesis
  proof (rule signs_inv [OF assms(1,2) s'(2,3)])
    fix r h assume r: "rotating w r v" "hosts_at (rotation_ok w a r) s fs" and h: "h \<in> set (hosts s)" "h_id h = i"
    have "rotation_ok w a r h f" by (rule hosts_at_row [OF r(2) h(1) enrolled [OF h]]) (simp add: h(2) assms(3))
    then show "h_enrolled_at (?g h) \<noteq> None \<and> rotation_ok w a r (?g h) (f\<lparr>file_cert := c\<rparr>)"
      using enrolled [OF h] signed_ok [OF r(1) _ iss inj] by simp
  next
    fix d h assume c: "service_at w v d d {d}" "hosts_at (steady w d) s fs" and h: "h \<in> set (hosts s)" "h_id h = i"
    have "steady w d h f" by (rule hosts_at_row [OF c(2) h(1) enrolled [OF h]]) (simp add: h(2) assms(3))
    then show "h_enrolled_at (?g h) \<noteq> None \<and> steady w d (?g h) (f\<lparr>file_cert := c\<rparr>)"
      using enrolled [OF h] iss service_at_ca [OF c(1)] by (simp add: steady_def)
  qed simp_all
qed

lemma enrols_inv:
  assumes "fleet_inv w a s v fs" "tls_laws w a" "list_all (\<lambda>h. h_id h = i \<longrightarrow> h_enrolled_at h = None) (hosts s)"
    "enroll (sign w (service_ca v)) (lib_sha256_hex (admin_libs a) (ca_cert (service_ca v))) now hash csr s = Inr ((i, c), s')"
  shows "fleet_inv w a s' v (fs(i \<mapsto> \<lparr>file_ca = ca_cert (service_ca v), file_cert = c\<rparr>))"
proof -
  let ?g = "\<lambda>h. h\<lparr>h_enrolled_at := Some now, h_certificate_ca := Some (lib_sha256_hex (admin_libs a) (ca_cert (service_ca v)))\<rparr>"
  have inj: "inj (lib_sha256_hex (admin_libs a))" and law: "\<And>ca csr h c. sign w ca csr h = Inr c \<Longrightarrow> issuer w c = ca_cert ca"
    using assms(2) by (simp_all add: tls_laws_def)
  have s': "sign w (service_ca v) csr i = Inr c" "hosts s' = update_where (\<lambda>h. h_id h = i) ?g (hosts s)"
    "ca_rotation s' = ca_rotation s"
    using assms(4) by (auto simp: enroll_def and_then_Inr split: list.split_asm)
  have iss: "issuer w c = ca_cert (service_ca v)" by (rule law [OF s'(1)])
  have blank: "h_ca_fingerprint h = None" if "hosts_at p s fs" "h \<in> set (hosts s)" "h_id h = i" for p h
    using hosts_at_blank [OF that(1,2)] that(2,3) assms(3) by (simp add: list_all_iff)
  show ?thesis
  proof (rule signs_inv [OF assms(1,2) s'(2,3)])
    fix r h assume r: "rotating w r v" "hosts_at (rotation_ok w a r) s fs" and h: "h \<in> set (hosts s)" "h_id h = i"
    show "h_enrolled_at (?g h) \<noteq> None \<and> rotation_ok w a r (?g h) \<lparr>file_ca = ca_cert (service_ca v), file_cert = c\<rparr>"
      using enrolled_ok [OF r(1) iss inj, of "?g h"] blank [OF r(2) h] by simp
  next
    fix d h assume "d \<in> certs w d" "service_at w v d d {d}"
    then show "h_enrolled_at (?g h) \<noteq> None \<and> steady w d (?g h) \<lparr>file_ca = ca_cert (service_ca v), file_cert = c\<rparr>"
      using iss service_at_ca by (simp add: steady_def)
  qed simp_all
qed

text \<open>The steps of the service.\<close>

lemma hosts_at_bump: "hosts_at p (bump_all_hosts s) fs \<longleftrightarrow> hosts_at p s fs" if "\<And>h h'. host_key h' = host_key h \<Longrightarrow> p h' = p h"
proof -
  have "map host_key (hosts (bump_all_hosts s)) = map host_key (hosts s)"
    by (simp add: bump_all_hosts_def host_key_def)
  then show ?thesis using hosts_at_key [of "bump_all_hosts s" s p fs] hosts_at_key [of s "bump_all_hosts s" p fs] that by metis
qed

lemma bump_all_frame [simp]: "ca_rotation (bump_all_hosts s) = ca_rotation s"
  "map h_id (hosts (bump_all_hosts s)) = map h_id (hosts s)"
  by (simp_all add: bump_all_hosts_def)

lemma fleet_inv_bump [simp]: "fleet_inv w a (bump_all_hosts s) v fs = fleet_inv w a s v fs"
  by (simp add: fleet_inv_def hosts_at_bump [OF rotation_ok_key] hosts_at_bump [OF steady_key] split: option.splits)

lemma starts_inv:
  assumes "fleet_inv w a s v fs" "tls_laws w a" "start_rotation a rnd s v = (Inr st, s', v')"
    "ca_rotation s' = Some r" "fresh_ca a r s"
  shows "fleet_inv w a s' v' fs"
proof -
  have none: "ca_rotation s = None" using assms(3) by (auto simp: start_rotation_def split: if_splits)
  then obtain c where c: "c \<in> certs w c" "service_at w v c c {c}" "hosts_at (steady w c) s fs"
    using assms(1) by (auto simp: fleet_inv_def)
  obtain ca sealed where ca: "ca_generate (admin_libs a) (ADMIN_CA_NAME @ ''-'' @ take 8 (random_token rnd ''admin CA name'')) (rnd ''admin CA'') = Inr ca"
    and r: "r = \<lparr>phase = ''trust'', old_cert_pem = ca_cert (service_ca v), new_cert_pem = ca_cert ca, new_key = sealed\<rparr>"
    and ap: "apply_phase a rnd r v = (Inr (), v')" and s': "s' = bump_all_hosts (s\<lparr>ca_rotation := Some r\<rparr>)"
    using assms(3,4) none by (auto simp: start_rotation_def Let_def split: sum.split_asm prod.split_asm)
  obtain l where l: "service_listeners v = Some l" "ca_cert (ca_dir v) = c" using c(2) by (auto simp: service_at_def)
  have new: "ca_cert ca \<in> certs w (ca_cert ca)" using assms(2) ca by (simp add: tls_laws_def)
  have sc: "ca_cert (service_ca v) = c" by (rule service_at_ca [OF c(2)])
  have ne: "ca_cert ca \<noteq> c" using assms(5) r sc by (simp add: fresh_ca_def)
  have "rotating w r v'"
    using apply_phase_at [OF ap l(1) assms(2)] c(1) new ne l(2) sc by (simp add: rotating_def r)
  moreover have "hosts_at (rotation_ok w a r) (s\<lparr>ca_rotation := Some r\<rparr>) fs"
  proof (rule hosts_at_weaken [OF c(3)])
    fix h f assume "h \<in> set (hosts s)" "steady w c h f"
    then show "rotation_ok w a r h f" using assms(5) sc by (simp add: fresh_ca_def steady_def rotation_ok_def r)
  qed simp
  ultimately show ?thesis unfolding s' fleet_inv_bump using assms(1) by (simp add: fleet_inv_def)
qed

lemma nobody_waits:
  assumes "waiting_for a r s = []" "h \<in> set (hosts s)" "h_enrolled_at h \<noteq> None"
  shows "if phase r = ''issue'' then h_certificate_ca h = Some (lib_sha256_hex (admin_libs a) (new_cert_pem r))
    else h_ca_fingerprint h = Some (lib_sha256_hex (admin_libs a) (rotation_bundle r))"
proof -
  have nil: "sort_key f xs = [] \<Longrightarrow> xs = []" for f :: "string \<Rightarrow> string" and xs
    by (metis length_0_conv length_sort)
  have "filter (\<lambda>h. h_enrolled_at h \<noteq> None \<and> (if phase r = ''issue''
      then h_certificate_ca h \<noteq> Some (lib_sha256_hex (admin_libs a) (new_cert_pem r))
      else h_ca_fingerprint h \<noteq> Some (lib_sha256_hex (admin_libs a) (rotation_bundle r)))) (hosts s) = []"
    using nil [OF assms(1) [unfolded waiting_for_def Let_def]] by simp
  then show ?thesis using assms(2,3) by (cases "phase r = ''issue''") (auto simp: filter_empty_conv)
qed

lemma advances_inv:
  assumes "fleet_inv w a s v fs" "tls_laws w a" "advance_rotation a rnd s v = (Inr (), s', v')"
  shows "fleet_inv w a s' v' fs"
proof (cases "ca_rotation s")
  case None
  then show ?thesis using assms(1,3) by (simp add: advance_rotation_def)
next
  case (Some r)
  then have rot: "rotating w r v" and at: "hosts_at (rotation_ok w a r) s fs" and ids: "distinct (map h_id (hosts s))"
    using assms(1) by (simp_all add: fleet_inv_def)
  have self: "old_cert_pem r \<in> certs w (old_cert_pem r)" "new_cert_pem r \<in> certs w (new_cert_pem r)" "old_cert_pem r \<noteq> new_cert_pem r"
    using rot by (simp_all add: rotating_def)
  show ?thesis
  proof (cases "waiting_for a r s = []")
    case False
    then show ?thesis using assms(1,3) Some by (simp add: advance_rotation_def)
  next
    case caught_up: True
    note up = nobody_waits [OF caught_up]
    from rot show ?thesis
    proof (cases rule: rotating_cases)
      case trust
      let ?r = "r\<lparr>phase := ''issue''\<rparr>"
      have ap: "apply_phase a rnd ?r v = (Inr (), v')" "s' = bump_all_hosts (s\<lparr>ca_rotation := Some ?r\<rparr>)"
        using assms(3) Some caught_up trust(1) by (auto simp: advance_rotation_def Let_def split: sum.split_asm prod.split_asm)
      obtain l where l: "service_listeners v = Some l" "ca_cert (ca_dir v) = old_cert_pem r"
        using trust(2) by (auto simp: service_at_def)
      have "rotating w ?r v'" using apply_phase_at [OF ap(1) l(1) assms(2)] l(2) self by (simp add: rotating_def)
      moreover have "hosts_at (rotation_ok w a ?r) (s\<lparr>ca_rotation := Some ?r\<rparr>) fs"
      proof (rule hosts_at_weaken [OF at])
        fix h f assume h: "h \<in> set (hosts s)" "h_enrolled_at h \<noteq> None" "rotation_ok w a r h f"
        then have "file_ca f = rotation_bundle r" using up [OF h(1,2)] trust(1) by (simp add: rotation_ok_def)
        then show "rotation_ok w a ?r h f"
          using h(3) trust(1) self bundle_certs [OF assms(2), of r] by (simp add: rotation_ok_def)
      qed simp
      ultimately show ?thesis unfolding ap(2) fleet_inv_bump using ids by (simp add: fleet_inv_def)
    next
      case issue
      let ?r = "r\<lparr>phase := ''trim''\<rparr>"
      have ap: "apply_phase a rnd ?r v = (Inr (), v')" "s' = bump_all_hosts (s\<lparr>ca_rotation := Some ?r\<rparr>)"
        using assms(3) Some caught_up issue(1) by (auto simp: advance_rotation_def Let_def split: sum.split_asm prod.split_asm)
      obtain l where l: "service_listeners v = Some l" using issue(2) by (auto simp: service_at_def)
      have "rotating w ?r v'" using apply_phase_at [OF ap(1) l assms(2)] self by (simp add: rotating_def)
      moreover have "hosts_at (rotation_ok w a ?r) (s\<lparr>ca_rotation := Some ?r\<rparr>) fs"
      proof (rule hosts_at_weaken [OF at])
        fix h f assume h: "h \<in> set (hosts s)" "h_enrolled_at h \<noteq> None" "rotation_ok w a r h f"
        then show "rotation_ok w a ?r h f" using up [OF h(1,2)] issue(1) by (simp add: rotation_ok_def)
      qed simp
      ultimately show ?thesis unfolding ap(2) fleet_inv_bump using ids by (simp add: fleet_inv_def)
    next
      case trim
      have s': "s' = bump_all_hosts (s\<lparr>ca_rotation := None\<rparr>)" "v' = v"
        using assms(3) Some caught_up trim(1) by (auto simp: advance_rotation_def)
      have "hosts_at (steady w (new_cert_pem r)) (s\<lparr>ca_rotation := None\<rparr>) fs"
        by (rule hosts_at_weaken [OF at]) (simp_all add: rotation_ok_def steady_def trim(1))
      then show ?thesis unfolding s' fleet_inv_bump using ids self trim(2) by (auto simp: fleet_inv_def)
    qed
  qed
qed

lemma start_service_at:
  assumes "start_service a rnd names stored = Inr v" "tls_laws w a"
  shows "service_at w v (ca_cert stored) (ca_cert stored) {ca_cert stored}" "ca_dir v = stored" "service_ca v = stored"
  using assms by (auto simp: start_service_def and_then_Inr service_at_def tls_laws_def)

lemma restarts_inv:
  assumes "fleet_inv w a s v fs" "tls_laws w a" "start_service a rnd names (ca_dir v) = Inr u" "resume a rnd' s u = (Inr (), v')"
  shows "fleet_inv w a s v' fs"
proof (cases "ca_rotation s")
  case None
  then obtain c where c: "c \<in> certs w c" "service_at w v c c {c}" "hosts_at (steady w c) s fs"
    using assms(1) by (auto simp: fleet_inv_def)
  have "v' = u" using assms(4) None by (simp add: resume_def)
  moreover have "ca_cert (ca_dir v) = c" using c(2) by (auto simp: service_at_def)
  ultimately have "service_at w v' c c {c}" using start_service_at(1) [OF assms(3,2)] by simp
  then show ?thesis using c None assms(1) by (auto simp: fleet_inv_def)
next
  case (Some r)
  then have rot: "rotating w r v" and rest: "hosts_at (rotation_ok w a r) s fs" "distinct (map h_id (hosts s))"
    using assms(1) by (simp_all add: fleet_inv_def)
  have ap: "apply_phase a rnd' r u = (Inr (), v')" using assms(4) Some by (simp add: resume_def)
  obtain l where "service_listeners u = Some l" using start_service_at(1) [OF assms(3,2)] by (auto simp: service_at_def)
  note at = apply_phase_at [OF ap this assms(2), unfolded start_service_at(2,3) [OF assms(3,2)]]
  have stored: "service_at w v stored signer trusted \<Longrightarrow> ca_cert (ca_dir v) = stored" for stored signer trusted
    by (auto simp: service_at_def)
  have "rotating w r v'"
    using rot by (cases rule: rotating_cases) (use rot at stored in \<open>simp_all add: rotating_def\<close>)
  then show ?thesis using Some rest by (simp add: fleet_inv_def)
qed

lemma elsewhere_inv:
  assumes "fleet_inv w a s v fs" "map host_key (hosts s') = map host_key (hosts s)" "ca_rotation s' = ca_rotation s"
  shows "fleet_inv w a s' v fs"
proof -
  have "map fst (map host_key (hosts s')) = map fst (map host_key (hosts s))" using assms(2) by simp
  then have ids: "map h_id (hosts s') = map h_id (hosts s)" by (simp add: host_key_def comp_def)
  show ?thesis
  proof (cases "ca_rotation s")
    case None
    then obtain c where c: "c \<in> certs w c" "service_at w v c c {c}" "hosts_at (steady w c) s fs"
      using assms(1) by (auto simp: fleet_inv_def)
    have "hosts_at (steady w c) s' fs" by (rule hosts_at_key [OF assms(2) c(3) steady_key])
    then show ?thesis using c None assms ids by (auto simp: fleet_inv_def)
  next
    case (Some r)
    then have at: "rotating w r v" "hosts_at (rotation_ok w a r) s fs" using assms(1) by (simp_all add: fleet_inv_def)
    have "hosts_at (rotation_ok w a r) s' fs" by (rule hosts_at_key [OF assms(2) at(2) rotation_ok_key])
    then show ?thesis using at(1) Some assms ids by (simp add: fleet_inv_def)
  qed
qed

lemma hosts_inv:
  assumes "fleet_inv w a s v fs" "ca_rotation s' = ca_rotation s" "distinct (map h_id (hosts s'))"
    "\<And>h. h \<in> set (hosts s') \<Longrightarrow> h \<in> set (hosts s) \<or> h_enrolled_at h = None \<and> h_ca_fingerprint h = None"
  shows "fleet_inv w a s' v fs"
proof -
  have keep: "hosts_at p s' fs" if "hosts_at p s fs" for p
    unfolding hosts_at_def
  proof
    fix h assume "h \<in> set (hosts s')"
    from assms(4) [OF this]
    show "if h_enrolled_at h = None then h_ca_fingerprint h = None else \<exists>f. fs (h_id h) = Some f \<and> p h f"
      using that unfolding hosts_at_def by (elim disjE) simp_all
  qed
  show ?thesis
    using assms(1,2,3) keep by (cases "ca_rotation s") (auto simp: fleet_inv_def)
qed

lemma fleet_step_inv:
  assumes "fleet_step w a False x y" "tls_laws w a" "fleet_inv w a (fl_store x) (fl_service x) (fl_files x)"
  shows "fleet_inv w a (fl_store y) (fl_service y) (fl_files y)"
  using assms(1)
proof cases
  case (elsewhere s' s v fs)
  then show ?thesis using assms(3) by (simp add: elsewhere_inv)
next
  case (joins token_hash rnd now name fd s r s' v fs)
  then have h: "hosts s' = hosts s @ [new_host (rnd ''host id'') name fd]" "rnd ''host id'' \<notin> h_id ` set (hosts s)"
      "ca_rotation s' = ca_rotation s"
    by (auto simp: create_host_def Let_def and_then_Inr list_ex_iff split: if_splits)
  have "fleet_inv w a s' v fs"
    by (rule hosts_inv [of w a s]) (use joins assms(3) h in \<open>auto simp: new_host_def fleet_inv_def\<close>)
  then show ?thesis using joins by simp
next
  case (leaves i s u s' v fs)
  then have h: "hosts s' = filter (\<lambda>h. h_id h \<noteq> i) (hosts s)" "ca_rotation s' = ca_rotation s"
    by (auto simp: delete_host_def Let_def delete_where_def split: if_splits)
  have "fleet_inv w a s' v fs"
    by (rule hosts_inv [of w a s]) (use leaves assms(3) h in \<open>auto simp: fleet_inv_def distinct_map_filter\<close>)
  then show ?thesis using leaves by simp
next
  case enrols then show ?thesis using assms(2,3) by (simp add: enrols_inv)
next
  case reads then show ?thesis using assms(2,3) by (simp add: reads_inv)
next
  case reports_in then show ?thesis using assms(2,3) by (simp add: reports_inv)
next
  case renews_certificate then show ?thesis using assms(2,3) by (simp add: renews_inv)
next
  case loses_answer then show ?thesis by simp
next
  case starts then show ?thesis using assms(2,3) by (simp add: starts_inv)
next
  case advances then show ?thesis using assms(2,3) by (simp add: advances_inv)
next
  case restarts_service then show ?thesis using assms(2,3) by (simp add: restarts_inv)
qed

lemma fleet_reach_inv:
  assumes "fleet_reach w a False x" "tls_laws w a"
  shows "fleet_inv w a (fl_store x) (fl_service x) (fl_files x)"
  using assms(1)
proof induction
  case (begin_fleet rnd names ca v s)
  then show ?case
    using start_service_at(1) [OF begin_fleet(1) assms(2)] by (auto simp: fleet_inv_def hosts_at_def)
next
  case (next_fleet x y)
  then show ?case using fleet_step_inv [OF _ assms(2)] by blast
qed

lemma hosts_at_file:
  assumes "hosts_at p s fs" "h \<in> set (hosts s)" "h_enrolled_at h \<noteq> None"
  obtains f where "fs (h_id h) = Some f" "p h f"
  using bspec [OF assms(1) [unfolded hosts_at_def] assms(2)] assms(3) that by auto

lemma fleet_inv_handshake:
  assumes "fleet_inv w a s v fs" "h \<in> set (hosts s)" "h_enrolled_at h \<noteq> None"
  obtains f where "fs (h_id h) = Some f" "handshake w v f"
proof (cases "ca_rotation s")
  case None
  then obtain c where c: "c \<in> certs w c" "service_at w v c c {c}" "hosts_at (steady w c) s fs"
    using assms(1) by (auto simp: fleet_inv_def)
  obtain f where f: "fs (h_id h) = Some f" "steady w c h f" by (rule hosts_at_file [OF c(3) assms(2,3)])
  obtain l where "service_listeners v = Some l" "issuer w (issued_cert_pem (agent_presents l)) = c" "set (agent_trusted l) = {c}"
    using c(2) by (auto simp: service_at_def)
  then have "handshake w v f" using c(1) f(2) by (simp add: handshake_def steady_def)
  then show ?thesis using that f(1) by blast
next
  case (Some r)
  then have rot: "rotating w r v" and at: "hosts_at (rotation_ok w a r) s fs" using assms(1) by (simp_all add: fleet_inv_def)
  obtain f where f: "fs (h_id h) = Some f" "rotation_ok w a r h f" by (rule hosts_at_file [OF at assms(2,3)])
  have self: "old_cert_pem r \<in> certs w (old_cert_pem r)" "new_cert_pem r \<in> certs w (new_cert_pem r)"
    using rot by (simp_all add: rotating_def)
  have "handshake w v f"
    using rot
  proof (cases rule: rotating_cases)
    case trust
    then obtain l where "service_listeners v = Some l" "issuer w (issued_cert_pem (agent_presents l)) = old_cert_pem r"
      "set (agent_trusted l) = {old_cert_pem r, new_cert_pem r}" by (auto simp: service_at_def)
    then show ?thesis using f(2) trust(1) self by (simp add: handshake_def rotation_ok_def)
  next
    case issue
    then obtain l where "service_listeners v = Some l" "issuer w (issued_cert_pem (agent_presents l)) = new_cert_pem r"
      "set (agent_trusted l) = {old_cert_pem r, new_cert_pem r}" by (auto simp: service_at_def)
    then show ?thesis using f(2) issue(1) self
      by (cases "issuer w (file_cert f) = old_cert_pem r") (simp_all add: handshake_def rotation_ok_def)
  next
    case trim
    then obtain l where "service_listeners v = Some l" "issuer w (issued_cert_pem (agent_presents l)) = new_cert_pem r"
      "set (agent_trusted l) = {new_cert_pem r}" by (auto simp: service_at_def)
    then show ?thesis using f(2) trim(1) self by (simp add: handshake_def rotation_ok_def)
  qed
  then show ?thesis using that f(1) by blast
qed

text \<open>
  An answer that is lost. The service records the new CA for a host when it
  signs, so when the host never stores the certificate the next phase no longer
  waits for it and refuses it.
\<close>

lemma lost_renewal_locks_out:
  assumes "tls_laws w a" "ca_rotation s = Some r" "phase r = ''issue''" "rotating w r v" "hosts s = [h]"
    "issuer w (file_cert f) = old_cert_pem r" "old_cert_pem r \<notin> certs w (new_cert_pem r)"
    "rotate_certificate (sign w (service_ca v)) (lib_sha256_hex (admin_libs a) (ca_cert (service_ca v))) (h_id h) csr s = Inr (c, s')"
    "advance_rotation a rnd s' v = (Inr (), s'', v')"
  shows "\<not> handshake w v' f"
proof -
  have at: "service_at w v (old_cert_pem r) (new_cert_pem r) {old_cert_pem r, new_cert_pem r}"
    using assms(4) by (rule rotating_cases) (simp_all add: assms(3))
  have s': "hosts s' = [h\<lparr>h_certificate_ca := Some (lib_sha256_hex (admin_libs a) (new_cert_pem r))\<rparr>]" "ca_rotation s' = Some r"
    using assms(2,5,8) service_at_ca [OF at] by (auto simp: rotate_certificate_def and_then_Inr update_where_def)
  then have "waiting_for a r s' = []" by (simp add: waiting_for_def assms(3))
  then have ap: "apply_phase a rnd (r\<lparr>phase := ''trim''\<rparr>) v = (Inr (), v')"
    using assms(3,9) s'(2) by (auto simp: advance_rotation_def Let_def split: sum.split_asm prod.split_asm)
  obtain l where "service_listeners v = Some l" using at by (auto simp: service_at_def)
  from apply_phase_at [OF ap this assms(1)]
  obtain l where "service_listeners v' = Some l" "set (agent_trusted l) = {new_cert_pem r}"
    by (auto simp: service_at_def)
  then show ?thesis using assms(6,7) by (simp add: handshake_def)
qed

section \<open>Properties\<close>

text \<open>C15. Sealing everything again with a new key loses nothing: after it the new key alone opens every secret of every
  database, node and repository and the key of a rotation to what both keys opened it to before.\<close>

theorem reseal_keeps_secrets:
  assumes "reseal_all a rnd s = Inr (k, t)" "cipher_laws (admin_libs a)" "\<And>x. length (rnd x) \<ge> NONCE_LEN"
  shows "map (database_opens (without_previous a)) (databases t) = map (database_opens a) (databases s)
    \<and> map (node_opens (without_previous a)) (nodes t) = map (node_opens a) (nodes s)
    \<and> repository_of (without_previous a) t = repository_of a s
    \<and> map_option (new_ca (without_previous a)) (ca_rotation t) = map_option (new_ca a) (ca_rotation s)"
  by (intro conjI ext) (rule reseal_all_Inr [OF assms])+

definition demo_sealed :: store where
  "demo_sealed = empty_store\<lparr>ca_rotation := Some \<lparr>phase = ''trust'', old_cert_pem = ''ca'', new_cert_pem = ''next'',
    new_key = replicate NONCE_LEN CHR ''0'' @ ''oldkey''\<rparr>\<rparr>"

theorem reseal_keeps_secrets_witness:
  "\<exists>t. reseal_all demo_admin demo_rnd demo_sealed = Inr (1, t) \<and> cipher_laws (admin_libs demo_admin)
    \<and> map_option (new_ca (without_previous demo_admin)) (ca_rotation t) = Some (Inr \<lparr>ca_cert = ''next'', ca_key = ''key''\<rparr>)"
proof -
  have "case reseal_all demo_admin demo_rnd demo_sealed of Inr (k, _) \<Rightarrow> k = 1 | _ \<Rightarrow> False" by code_simp
  then obtain t where t: "reseal_all demo_admin demo_rnd demo_sealed = Inr (1, t)" by (auto split: sum.splits)
  have laws: "cipher_laws (admin_libs demo_admin)"
    by (simp add: cipher_laws_def demo_admin_def demo_libs_def strip_prefix_def)
  have len: "length (demo_rnd x) \<ge> NONCE_LEN" for x by (simp add: demo_rnd_def NONCE_LEN_def)
  from reseal_keeps_secrets [OF t laws len]
  have "map_option (new_ca (without_previous demo_admin)) (ca_rotation t) = map_option (new_ca demo_admin) (ca_rotation demo_sealed)"
    by (elim conjE)
  also have "\<dots> = Some (Inr \<lparr>ca_cert = ''next'', ca_key = ''key''\<rparr>)" by code_simp
  finally show ?thesis by (intro exI) (rule conjI [OF t conjI [OF laws]])
qed


text \<open>A fleet of one host, in the first phase of a rotation. A PEM text is a list of lines, one for each certificate.\<close>

fun pem_lines :: "string \<Rightarrow> string list" where
  "pem_lines [] = [[]]"
| "pem_lines (c # cs) =
    (if c = CHR 0x0A then [] # pem_lines cs
     else case pem_lines cs of l # ls \<Rightarrow> (c # l) # ls | [] \<Rightarrow> [[c]])"

lemma pem_lines_ne: "pem_lines p \<noteq> []"
  by (induction p) (auto split: list.splits)

lemma pem_lines_append: "pem_lines (p @ CHR 0x0A # q) = pem_lines p @ pem_lines q"
  by (induction p) (auto split: list.splits simp: pem_lines_ne)

lemma pem_lines_one: "CHR 0x0A \<notin> set p \<Longrightarrow> pem_lines p = [p]"
  by (induction p) auto

definition demo_tls :: tls where
  "demo_tls = \<lparr>certs = (\<lambda>p. set (pem_lines p)), issuer = tl, sign = (\<lambda>ca csr h. Inr (CHR ''h'' # ca_cert ca))\<rparr>"

lemma demo_tls_laws: "tls_laws demo_tls demo_admin"
  unfolding tls_laws_def demo_tls_def demo_admin_def demo_libs_def
  by (auto simp: pem_lines_append pem_lines_one intro!: injI)

definition demo_fleet :: "fleet option" where
  "demo_fleet =
    (case start_service demo_admin demo_rnd [] \<lparr>ca_cert = ''ca'', ca_key = ''key''\<rparr> of Inl _ \<Rightarrow> None | Inr v \<Rightarrow>
     case create_host (\<lambda>x. x) demo_rnd 0 ''h1'' None empty_store of Inl _ \<Rightarrow> None | Inr (_, s) \<Rightarrow>
     case enroll (sign demo_tls (service_ca v)) (lib_sha256_hex demo_libs (ca_cert (service_ca v))) 1
         (random_token demo_rnd ''enrollment'') ''csr'' s of Inl _ \<Rightarrow> None | Inr ((i, c), t) \<Rightarrow>
     case start_rotation demo_admin demo_rnd t v of (Inl _, _) \<Rightarrow> None | (Inr _, u, v') \<Rightarrow>
     case (service_listeners v, ca_rotation u) of (Some l, Some r) \<Rightarrow>
       if issuer demo_tls (issued_cert_pem (agent_presents l)) \<in> certs demo_tls (ca_cert (service_ca v))
         \<and> list_all (\<lambda>h. h_id h = i \<longrightarrow> h_enrolled_at h = None) (hosts s) \<and> fresh_ca demo_admin r t
       then Some \<lparr>fl_store = u, fl_service = v', fl_files = [i \<mapsto> \<lparr>file_ca = ca_cert (service_ca v), file_cert = c\<rparr>]\<rparr>
       else None
     | _ \<Rightarrow> None)"

lemma demo_fleet_reach:
  assumes "demo_fleet = Some x"
  shows "fleet_reach demo_tls demo_admin False x"
proof -
  obtain v r' s i c t st u v' l r where
    v: "start_service demo_admin demo_rnd [] \<lparr>ca_cert = ''ca'', ca_key = ''key''\<rparr> = Inr v"
    and s: "create_host (\<lambda>x. x) demo_rnd 0 ''h1'' None empty_store = Inr (r', s)"
    and t: "enroll (sign demo_tls (service_ca v)) (lib_sha256_hex demo_libs (ca_cert (service_ca v))) 1
      (random_token demo_rnd ''enrollment'') ''csr'' s = Inr ((i, c), t)"
    and u: "start_rotation demo_admin demo_rnd t v = (Inr st, u, v')"
    and l: "service_listeners v = Some l" "issuer demo_tls (issued_cert_pem (agent_presents l)) \<in> certs demo_tls (ca_cert (service_ca v))"
    and h: "list_all (\<lambda>h. h_id h = i \<longrightarrow> h_enrolled_at h = None) (hosts s)"
    and r: "ca_rotation u = Some r" "fresh_ca demo_admin r t"
    and x: "x = \<lparr>fl_store = u, fl_service = v', fl_files = [i \<mapsto> \<lparr>file_ca = ca_cert (service_ca v), file_cert = c\<rparr>]\<rparr>"
    using assms unfolding demo_fleet_def by (auto split: sum.splits prod.splits option.splits if_splits)
  have "fleet_reach demo_tls demo_admin False \<lparr>fl_store = empty_store, fl_service = v, fl_files = Map.empty\<rparr>"
    by (rule begin_fleet [OF v]) (simp_all add: demo_tls_def empty_store_def)
  from next_fleet [OF this joins [OF s]]
  have "fleet_reach demo_tls demo_admin False \<lparr>fl_store = s, fl_service = v, fl_files = Map.empty\<rparr>" .
  from next_fleet [OF this enrols [OF _ l h]] t
  have "fleet_reach demo_tls demo_admin False
      \<lparr>fl_store = t, fl_service = v, fl_files = [i \<mapsto> \<lparr>file_ca = ca_cert (service_ca v), file_cert = c\<rparr>]\<rparr>"
    by (simp add: demo_admin_def)
  from next_fleet [OF this starts [OF u r]] show ?thesis unfolding x .
qed


end
