(* ===== verification/Spec2Isabelle.thy ===== *)
theory Spec2Isabelle
  imports Raft_Storage Quorum_Lease Api_Operations Proxy_Connection Conn_Pool Conn_Limits
    Control_Safety Fleet_Rotation
begin

text \<open>
  A verification library for pgcluster, a high-availability manager for
  PostgreSQL. The program has four parts. A \<^emph>\<open>cluster\<close> of \<open>pgcluster\<close> processes
  (\<open>pgcluster/src\<close>) keeps a topology in a Raft log, watches the nodes, fails over and
  switches over. Each process also runs a \<^emph>\<open>proxy\<close> that logs clients in and routes them to
  the primary or a replica (\<open>pgcluster/src/proxy\<close>). An \<^emph>\<open>agent\<close> beside every Postgres does what
  the cluster asks (\<open>vk-agent/src\<close>). A \<^emph>\<open>control plane\<close> places databases on hosts, and carries out
  operations on them, through an agent on each host (\<open>pgcluster-admin/src\<close>).

  \<^bold>\<open>Conventions.\<close> A Rust struct is a record, an enum a datatype, a \<open>Result\<close> a sum with the
  error on the left, a hash map an association list without duplicate keys, a \<open>String\<close> the list of its
  bytes, an integer a word of its width where it can wrap around. \<open>f64\<close> is an exact rational, so
  rounding is not modelled. Libraries outside the repository are arguments: the environment of
  \<open>Effects\<close>, the trees and codecs of \<open>Raft_Storage\<close>, the record \<open>libs\<close> of \<open>Admin_Store\<close>. What a
  theorem needs of them is a hypothesis or the assumption of a locale, and each has an instance.

  \<^bold>\<open>The replicated state.\<close>
  \<^item> \<open>Prelude\<close>: the parts of the Rust standard library the code uses, and the lemmas shared below.
  \<^item> \<open>Topology\<close> (\<open>raft/topology.rs\<close>): the topology, the standby list written for Postgres, the choice of
    a candidate, the failover history, the text of log positions. Lemmas: both texts read back.
  \<^item> \<open>State_Machine\<close> (\<open>raft/commands.rs\<close>, \<open>raft/state_machine.rs\<close>): every command, the application of
    entries, snapshots, the watch channel. A locale \<open>replicated_machine\<close>, interpreted for topologies and for
    whole machines, gives the invariant, the agreement of replicas and the catch-up by a snapshot.
  \<^item> \<open>Raft_Storage\<close> (\<open>raft/storage.rs\<close>): the log on an embedded database, under the laws of the locales
    \<open>sled_tree\<close> and \<open>entry_codec\<close>; it refines an abstract log.
  \<^item> \<open>Quorum_Lease\<close> (\<open>raft/lease.rs\<close>): the lease and a tick of its renewal.

  \<^bold>\<open>Operations on the cluster.\<close> \<open>Effects\<close> has one constructor for each call the code makes to the
  outside; a program is a state transformer over a world that records the trace of calls, and the answers
  come from an arbitrary environment, so a theorem about every trace covers agents that fail, answer late or
  lie.
  \<^item> \<open>Failover\<close> (\<open>failover/\<close>): candidate, promotion, verification, repointing, slots, seed plans.
  \<^item> \<open>Monitor\<close> (\<open>node_monitor/\<close>): failure counters, the fallback from synchronous replication, the
    reaction to each result.
  \<^item> \<open>Polling\<close> and \<open>Switchover\<close> (\<open>switchover/\<close>): loops with a deadline, the hand-off, the rolling restart.
    A loop takes fuel and gives \<open>None\<close> when it runs out; \<open>rolling_restart_returns\<close> shows that with a clock
    that advances while the code sleeps some fuel is enough.
  \<^item> \<open>Api_Operations\<close> (\<open>api/\<close>): the handlers that change the cluster, under the operation flag.

  \<^bold>\<open>The proxy.\<close>
  \<^item> \<open>Wire_Protocol\<close> (\<open>proxy/protocol.rs\<close>, \<open>ssl.rs\<close>), \<open>Session_Router\<close> (\<open>session.rs\<close>, \<open>router.rs\<close>),
    \<open>Scram\<close> (\<open>scram.rs\<close>, \<open>auth.rs\<close>): messages, routing, both sides of the login.
  \<^item> \<open>Proxy_Connection\<close> (\<open>connection.rs\<close>): the life of a session.
  \<^item> \<open>Conn_Pool\<close> (\<open>pool.rs\<close>) and \<open>Conn_Limits\<close> (\<open>limits.rs\<close>, \<open>allowlist.rs\<close>, \<open>mod.rs\<close>): step relations over
    interleaved tasks, one rule for each access to shared state.

  \<^bold>\<open>The control plane.\<close> Its state is the metadata database, a record of tables (\<open>store\<close>).
  \<^item> \<open>Scheduler\<close> (\<open>scheduler.rs\<close>): room on hosts and placement.
  \<^item> \<open>Database_Spec\<close> (\<open>model.rs\<close>, \<open>error.rs\<close>): specifications and the checks of requests.
  \<^item> \<open>Admin_Store\<close> (\<open>migrations/\<close>, \<open>secrets.rs\<close>, \<open>operations.rs\<close>, \<open>state.rs\<close>): the tables, sealed
    secrets, operations and their steps.
  \<^item> \<open>Reconciler\<close> (\<open>reconciler.rs\<close>): the claim of a step, every step, the sweeps.
  \<^item> \<open>Admin_Api\<close> (\<open>api/\<close>, \<open>drain.rs\<close>): the handlers that write.
  \<^item> \<open>Admin_Agent\<close> (\<open>agent.rs\<close>): what hosts call, and the state they are told to reach.
  \<^item> \<open>Admin_Rotation\<close> (\<open>rotation.rs\<close>): replacing the admin CA and the sealing key.
  \<^item> \<open>Control_Plane\<close>: \<open>cp_step\<close> has a rule for every transaction above and \<open>cp_reach\<close> the stores they
    lead to from an empty one; frame lemmas say what each leaves alone. \<open>Control_Safety\<close> proves the
    invariants of reachable stores (keys, ports, specifications, the order of steps, backups before
    access) and that a pass of the reconciler ends, with fuel one more than the number of steps.
  \<^item> \<open>Fleet_Rotation\<close>: hosts (\<open>vk-agent/src/host/client.rs\<close>), service and restarts during a rotation, and
    that sealing again loses nothing.
  \<^item> \<open>Admin_Demo\<close>: a run on concrete libraries, where the theorems on reachable stores are applied.

  A transaction is atomic. This is what PostgreSQL gives to the handlers that lock the rows they read; a
  handler that reads outside its transaction (\<open>spec_of\<close> before \<open>change_spec\<close>, the capacity check of
  \<open>create\<close>) is modelled as if nothing came in between. An error rolls back, so only successful
  transactions are steps. In \<open>Fleet_Rotation\<close> a step of the service is taken when it succeeds, and
  SHA-256 is taken to be injective.

  \<^bold>\<open>Not modelled.\<close>
  \<^item> TLS and certificates (\<open>pgcluster/src/tls\<close>, \<open>pgcluster-admin/src/ca.rs\<close>, \<open>tls.rs\<close>): calls into rustls and
    rcgen, which are parameters.
  \<^item> The Raft protocol (\<open>raft/mod.rs\<close>, \<open>network.rs\<close>, \<open>membership.rs\<close>): calls into openraft, which orders the
    entries.
  \<^item> The agents (\<open>vk-agent/src\<close>, apart from the trusted CAs): they start processes, write files and read the
    system. The cluster sees them through their answers, which are arbitrary here.
  \<^item> Cluster backups (\<open>backup/\<close>), configuration, the command line, the console, metrics, logs, the audit
    log and the read-only listings: input, output and display.
\<close>

section \<open>The cluster and the control plane\<close>

text \<open>C40. The control plane announces a failover when the reported history grows past the count it remembers, but the
  cluster keeps 100 failovers: once it remembers 100, no report of any history the log can produce announces another
  one, and it remembers at least 100 from then on.\<close>

theorem failovers_go_unannounced:
  assumes "list_all (\<lambda>(now, cmd). command_ok cmd) cmds"
    "length (cr_failovers r) = length (failover_history (fold (\<lambda>(now, cmd). apply_command now cmd) cmds default_topology))"
    "FAILOVER_HISTORY_MAX \<le> failovers_seen before"
  shows "filter (\<lambda>e. e_type e = ''failover_completed'') (events (report_events now r before s))
      = filter (\<lambda>e. e_type e = ''failover_completed'') (events s)
    \<and> FAILOVER_HISTORY_MAX \<le> failovers_seen (observed_of r before)"
proof
  have "topology_inv (fold (\<lambda>(now, cmd). apply_command now cmd) cmds default_topology)"
    using topo.run_inv [OF default_topology_inv] assms(1) by simp
  then have len: "length (cr_failovers r) \<le> FAILOVER_HISTORY_MAX"
    using assms(2) by (simp add: topology_inv_def)
  then have "drop (failovers_seen before) (cr_failovers r) = []" using assms(3) by simp
  then show "filter (\<lambda>e. e_type e = ''failover_completed'') (events (report_events now r before s))
      = filter (\<lambda>e. e_type e = ''failover_completed'') (events s)"
    by (simp add: report_events_def Let_def failover_events_fold split: option.splits)
  have "max (length (cr_failovers r)) (failovers_seen before) < 2 ^ 64"
    using len failovers_seen_bound [of before] by (simp add: FAILOVER_HISTORY_MAX_def)
  then show "FAILOVER_HISTORY_MAX \<le> failovers_seen (observed_of r before)"
    using assms(3) by (simp add: failovers_seen_observed)
qed

theorem failovers_go_unannounced_witness:
  "filter (\<lambda>e. e_type e = ''failover_completed'') (events (report_events 0
      \<lparr>cr_database_id = ''d'', cr_primary = None, cr_sync_degraded = False, cr_needs_reseed = [], cr_failovers = [],
       cr_backups = [], cr_backup_error = None\<rparr> (JObj [(''failover_count'', JNum 100)]) empty_store)) = []"
  using failovers_go_unannounced [where cmds = "[]" and before = "JObj [(''failover_count'', JNum 100)]" and now = 0 and s = empty_store and
      r = "\<lparr>cr_database_id = ''d'', cr_primary = None, cr_sync_degraded = False, cr_needs_reseed = [], cr_failovers = [],
       cr_backups = [], cr_backup_error = None\<rparr>"]
  by (simp add: default_topology_def failovers_seen_def FAILOVER_HISTORY_MAX_def empty_store_def)

end
